(* ===== verification/Gamenet_Prelude.thy ===== *)
theory Gamenet_Prelude
  imports Main "HOL-Library.Word"
begin

text \<open>
  Shared vocabulary of the development.

  \<^item> \<open>size_t\<close> and \<open>std::uint64_t\<close> values are natural numbers below \<open>2 ^ 64\<close>. A subtraction
    is written with \<open>sz_sub\<close>, which wraps as the machine does; a counter increment with
    \<open>u64_inc\<close>. A sum is written \<open>+\<close> where the component's invariant bounds it and
    \<open>sz_add\<close>, which wraps, where it does not.
  \<^item> Time points and durations of \<open>std::chrono::steady_clock\<close> are integers (nanosecond ticks
    of a signed 64-bit representation); \<open>tdiv\<close> is the truncating division of C++.
  \<^item> A \<open>std::vector<char>\<close> is a list of characters; \<open>vec_zero\<close> is the value-initialising
    constructor and \<open>blit\<close> is \<open>std::memcpy\<close> into the middle of a vector.
  \<^item> \<open>allocator\<close> is the answer of the allocator during one call: \<open>None\<close> when the request
    throws \<open>std::bad_alloc\<close>, \<open>Some c\<close> when the new vector has capacity \<open>c\<close>.
  \<^item> \<open>cpp_error\<close> lists the exceptions the modelled code throws; a fallible operation
    returns \<open>cpp_error + 'a\<close>.
\<close>

unbundle bit_operations_syntax

named_theorems gn_defs "definitions of operations that proofs unfold"
named_theorems gn_inv "invariant preservation facts"

type_synonym bytes = "char list"
type_synonym size_t = nat
type_synonym timestamp = int
type_synonym duration = int
type_synonym allocator = "nat \<Rightarrow> nat option"

datatype cpp_error =
    InvalidArgument
  | OutOfRange
  | LogicError
  | OverflowError
  | RuntimeError
  | BadAlloc
  | BadFunctionCall
  | CallbackThrew
  | LengthError
  | SystemError
  | Fatal

type_synonym 'a outcome = "cpp_error + 'a"

section \<open>Machine arithmetic\<close>

definition size_max :: nat where
  "size_max = 2 ^ 64 - 1"

definition uint32_max :: nat where
  "uint32_max = 2 ^ 32 - 1"

definition sz_sub :: "nat \<Rightarrow> nat \<Rightarrow> nat" where
  "sz_sub a b = (if b \<le> a then a - b else a + 2 ^ 64 - b)"

definition sz_add :: "nat \<Rightarrow> nat \<Rightarrow> nat" where
  "sz_add a b = (a + b) mod 2 ^ 64"

definition u64_inc :: "nat \<Rightarrow> nat" where
  "u64_inc n = (n + 1) mod 2 ^ 64"

definition tdiv :: "int \<Rightarrow> int \<Rightarrow> int" where
  "tdiv a b = sgn a * sgn b * (\<bar>a\<bar> div \<bar>b\<bar>)"

definition ts_max :: int where
  "ts_max = 2 ^ 63 - 1"

lemma sz_sub_le [simp]: "b \<le> a \<Longrightarrow> sz_sub a b = a - b"
  by (simp add: sz_sub_def)

lemma sz_sub_self [simp]: "sz_sub a 0 = a"
  by (simp add: sz_sub_def)

lemma sz_add_small: "a + b \<le> size_max \<Longrightarrow> sz_add a b = a + b"
  by (simp add: sz_add_def size_max_def)

lemma u64_inc_less: "u64_inc n < 2 ^ 64"
  by (simp add: u64_inc_def)

lemma u64_inc_small: "n < 2 ^ 64 - 1 \<Longrightarrow> u64_inc n = Suc n"
  by (simp add: u64_inc_def)

lemma u64_inc_mod: "u64_inc (n mod 2 ^ 64) = Suc n mod 2 ^ 64"
  unfolding u64_inc_def by (metis Suc_eq_plus1 mod_add_left_eq)

lemma sz_add_mod: "sz_add (a mod 2 ^ 64) b = (a + b) mod 2 ^ 64"
  unfolding sz_add_def by (rule mod_add_left_eq)

lemma tdiv_nonneg: "0 \<le> a \<Longrightarrow> 0 < b \<Longrightarrow> tdiv a b = a div b"
  by (cases "a = 0") (auto simp: tdiv_def)

lemma tdiv_neg: "a < 0 \<Longrightarrow> 0 < b \<Longrightarrow> tdiv a b = - ((- a) div b)"
  by (simp add: tdiv_def)

section \<open>Vectors of characters\<close>

definition vec_zero :: "nat \<Rightarrow> bytes" where
  "vec_zero n = replicate n (CHR 0x00)"

definition blit :: "'a list \<Rightarrow> nat \<Rightarrow> 'a list \<Rightarrow> 'a list" where
  "blit dst off src = take off dst @ src @ drop (off + length src) dst"

lemma length_vec_zero [simp]: "length (vec_zero n) = n"
  by (simp add: vec_zero_def)

lemma length_blit [simp]: "off + length src \<le> length dst \<Longrightarrow> length (blit dst off src) = length dst"
  by (simp add: blit_def)

lemma blit_Nil [simp]: "off \<le> length dst \<Longrightarrow> blit dst off [] = dst"
  by (simp add: blit_def)

lemma blit_0: "blit dst 0 src = src @ drop (length src) dst"
  by (simp add: blit_def)

lemma nth_blit:
  assumes "off + length src \<le> length dst" "i < length dst"
  shows "blit dst off src ! i = (if off \<le> i \<and> i < off + length src then src ! (i - off) else dst ! i)"
  using assms by (auto simp: blit_def nth_append)

lemma blit_blit: "length a + length b \<le> length d \<Longrightarrow> blit (blit d 0 a) (length a) b = blit d 0 (a @ b)"
  by (simp add: blit_def add.commute)

definition alloc_ok :: "allocator \<Rightarrow> bool" where
  "alloc_ok al \<longleftrightarrow> (\<forall>n c. al n = Some c \<longrightarrow> n \<le> c)"

lemma alloc_okD: "alloc_ok al \<Longrightarrow> al n = Some c \<Longrightarrow> n \<le> c"
  by (simp add: alloc_ok_def)

lemma alloc_ok_Some: "alloc_ok Some"
  by (simp add: alloc_ok_def)

section \<open>Byte queues\<close>

text \<open>
  The interface of a byte container that keeps a queue of bytes: what append and consume do
  to the bytes it holds. \<open>room\<close> is the admission condition of an append. The lemmas show
  what every client of such a container relies on: no byte is lost, duplicated or
  reordered by any run of appends and consumes.
\<close>

datatype queue_op = Put bytes | Get nat

text \<open>A run of operations on a container: the bytes read so far and the container, or \<open>None\<close>
  as soon as an operation is outside its precondition.\<close>

fun queue_run :: "('q \<Rightarrow> bytes) \<Rightarrow> ('q \<Rightarrow> bytes \<Rightarrow> bool) \<Rightarrow> (bytes \<Rightarrow> 'q \<Rightarrow> 'q) \<Rightarrow> (nat \<Rightarrow> 'q \<Rightarrow> 'q) \<Rightarrow>
    queue_op list \<Rightarrow> 'q \<Rightarrow> (bytes \<times> 'q) option" where
  "queue_run content room put get [] q = Some ([], q)"
| "queue_run content room put get (Put xs # ops) q =
     (if room q xs then queue_run content room put get ops (put xs q) else None)"
| "queue_run content room put get (Get n # ops) q =
     (if n \<le> length (content q)
      then map_option (\<lambda>(out, q'). (take n (content q) @ out, q')) (queue_run content room put get ops (get n q))
      else None)"

fun queue_written :: "queue_op list \<Rightarrow> bytes" where
  "queue_written [] = []"
| "queue_written (Put xs # ops) = xs @ queue_written ops"
| "queue_written (Get n # ops) = queue_written ops"

locale byte_queue =
  fixes inv :: "'q \<Rightarrow> bool"
    and content :: "'q \<Rightarrow> bytes"
    and room :: "'q \<Rightarrow> bytes \<Rightarrow> bool"
    and put :: "bytes \<Rightarrow> 'q \<Rightarrow> 'q"
    and get :: "nat \<Rightarrow> 'q \<Rightarrow> 'q"
  assumes inv_put: "inv q \<Longrightarrow> room q xs \<Longrightarrow> inv (put xs q)"
    and content_put: "inv q \<Longrightarrow> room q xs \<Longrightarrow> content (put xs q) = content q @ xs"
    and inv_get: "inv q \<Longrightarrow> n \<le> length (content q) \<Longrightarrow> inv (get n q)"
    and content_get: "inv q \<Longrightarrow> n \<le> length (content q) \<Longrightarrow> content (get n q) = drop n (content q)"
begin

lemma run_inv: "inv q \<Longrightarrow> queue_run content room put get ops q = Some (out, q') \<Longrightarrow> inv q'"
proof (induction ops arbitrary: q out)
  case (Cons op ops)
  then show ?case by (cases op) (auto split: if_splits intro: inv_put inv_get)
qed auto

lemma run_fifo:
  "inv q \<Longrightarrow> queue_run content room put get ops q = Some (out, q') \<Longrightarrow> out @ content q' = content q @ queue_written ops"
proof (induction ops arbitrary: q out)
  case (Cons op ops)
  show ?case
  proof (cases op)
    case (Put xs)
    with Cons.prems have r: "room q xs" and run: "queue_run content room put get ops (put xs q) = Some (out, q')"
      by (auto split: if_splits)
    from Cons.IH[OF inv_put[OF Cons.prems(1) r] run] show ?thesis
      by (simp add: content_put[OF Cons.prems(1) r] Put)
  next
    case (Get n)
    with Cons.prems obtain out' where n: "n \<le> length (content q)"
      and r: "queue_run content room put get ops (get n q) = Some (out', q')" and o: "out = take n (content q) @ out'"
      by (auto split: if_splits)
    from Cons.IH[OF inv_get[OF Cons.prems(1) n] r] have "out' @ content q' = drop n (content q) @ queue_written ops"
      by (simp add: content_get[OF Cons.prems(1) n])
    then show ?thesis by (simp add: o Get)
  qed
qed auto

end

end
