(* ===== verification/Ring_Bytes.thy ===== *)
theory Ring_Bytes
  imports Gamenet_Prelude
begin

text \<open>
  Circular storage. \<open>ring s h n\<close> is the sequence of the \<open>n\<close> elements that start at index \<open>h\<close>
  of \<open>s\<close> and wrap at its end. The lemmas relate it to the copies that code over circular
  storage performs: a read in two pieces, a write in two pieces, and the advance of the head.
\<close>

definition ring :: "'a list \<Rightarrow> nat \<Rightarrow> nat \<Rightarrow> 'a list" where
  "ring s h n = map (\<lambda>i. s ! ((h + i) mod length s)) [0..<n]"

lemma length_ring [simp]: "length (ring s h n) = n"
  by (simp add: ring_def)

lemma ring_0 [simp]: "ring s h 0 = []"
  by (simp add: ring_def)

lemma nth_ring [simp]: "i < n \<Longrightarrow> ring s h n ! i = s ! ((h + i) mod length s)"
  by (simp add: ring_def)

lemma mod_wrap:
  fixes h i l :: nat
  assumes "h < l" "i \<le> l"
  shows "(h + i) mod l = (if h + i < l then h + i else h + i - l)"
proof (cases "h + i < l")
  case False
  with assms have "(h + i) mod l = (h + i - l) mod l"
    by (metis le_mod_geq not_less)
  also have "\<dots> = h + i - l" using assms False by simp
  finally show ?thesis using False by simp
qed simp

text \<open>A read in two pieces, as \<open>std::memcpy\<close> does it.\<close>

definition ring_read :: "'a list \<Rightarrow> nat \<Rightarrow> nat \<Rightarrow> 'a list" where
  "ring_read s h n = (let first = min n (length s - h)
     in take first (drop h s) @ take (n - first) s)"

lemma ring_read_eq:
  assumes h: "h < length s" and n: "n \<le> length s"
  shows "ring_read s h n = ring s h n"
proof (rule nth_equalityI)
  show "length (ring_read s h n) = length (ring s h n)"
    using assms by (auto simp: ring_read_def Let_def)
next
  fix i assume "i < length (ring_read s h n)"
  then have i: "i < n" using assms by (auto simp: ring_read_def Let_def)
  have m: "(h + i) mod length s = (if h + i < length s then h + i else h + i - length s)"
    using h n i by (intro mod_wrap) auto
  show "ring_read s h n ! i = ring s h n ! i"
    using i h n by (auto simp: ring_read_def Let_def nth_append m min_def add.commute)
qed

lemma drop_ring:
  assumes "k \<le> n"
  shows "drop k (ring s h n) = ring s ((h + k) mod length s) (n - k)"
  using assms by (intro nth_equalityI) (auto simp: mod_simps add.assoc)

lemma take_ring: "k \<le> n \<Longrightarrow> take k (ring s h n) = ring s h k"
  by (intro nth_equalityI) auto

text \<open>A write in two pieces behind the last element.\<close>

definition ring_write :: "'a list \<Rightarrow> nat \<Rightarrow> 'a list \<Rightarrow> 'a list" where
  "ring_write s tail xs = (let first = min (length xs) (length s - tail); s1 = blit s tail (take first xs)
     in if first \<noteq> length xs then blit s1 0 (drop first xs) else s1)"

lemma length_ring_write [simp]:
  "tail \<le> length s \<Longrightarrow> length xs \<le> length s \<Longrightarrow> length (ring_write s tail xs) = length s"
  by (auto simp: ring_write_def Let_def)

lemma nth_ring_write:
  assumes t: "tail < length s" and x: "length xs \<le> length s" and j: "j < length s"
  shows "ring_write s tail xs ! j =
    (if tail \<le> j \<and> j < tail + length xs then xs ! (j - tail)
     else if j + length s < tail + length xs then xs ! (j + length s - tail)
     else s ! j)"
proof (cases "tail + length xs \<le> length s")
  case True
  then show ?thesis using t j by (auto simp: ring_write_def Let_def nth_blit min_def)
next
  case False
  then have m: "min (length xs) (length s - tail) = length s - tail" by simp
  show ?thesis
    using False t x j by (auto simp: ring_write_def Let_def m nth_blit min_def add.commute)
qed

lemma ring_ring_write:
  assumes h: "h < length s" and n: "n + length xs \<le> length s" and "xs \<noteq> []"
  shows "ring (ring_write s ((h + n) mod length s) xs) h (n + length xs) = ring s h n @ xs"
proof (rule nth_equalityI)
  let ?t = "(h + n) mod length s" and ?w = "ring_write s ((h + n) mod length s) xs"
  have t: "?t < length s" using h by (intro mod_less_divisor) linarith
  have tv: "?t = (if h + n < length s then h + n else h + n - length s)"
    using h n by (intro mod_wrap) auto
  have lw: "length ?w = length s" using t n by simp
  fix i assume "i < length (ring ?w h (n + length xs))"
  then have i: "i < n + length xs" by simp
  have m: "(h + i) mod length s = (if h + i < length s then h + i else h + i - length s)"
    using h n i by (intro mod_wrap) auto
  have j: "(h + i) mod length s < length s" using h by (intro mod_less_divisor) linarith
  have "?w ! ((h + i) mod length s) = (ring s h n @ xs) ! i"
  proof (cases "i < n")
    case True
    then have "\<not> (?t \<le> (h + i) mod length s \<and> (h + i) mod length s < ?t + length xs)"
      and "\<not> (h + i) mod length s + length s < ?t + length xs"
      using h n i unfolding tv m by (auto split: if_splits)
    then show ?thesis using True t n j by (auto simp: nth_ring_write nth_append)
  next
    case False
    then show ?thesis
      using h n i t j by (subst nth_ring_write) (auto simp: nth_append tv m split: if_splits)
  qed
  then show "ring ?w h (n + length xs) ! i = (ring s h n @ xs) ! i"
    using i lw by simp
qed simp

text \<open>Reallocation: the elements move to the front of a larger vector.\<close>

lemma ring_blit_front: "length xs \<le> length d \<Longrightarrow> ring (blit d 0 xs) 0 (length xs) = xs"
  by (rule nth_equalityI) (auto simp: nth_blit)

end
