(* ===== verification/PacketFramer.thy ===== *)
theory PacketFramer
  imports Ring_Bytes
begin

text \<open>
  The length-prefixed packet framer: \<open>src/src/protocol/PacketFramer.cc\<close> and its header. The
  state is the class's fields; \<open>pf_capacity\<close> is \<open>storage_.capacity()\<close>. An operation that
  can throw returns its outcome paired with the framer as the throw leaves it. The abstract
  specification is \<open>deframe\<close>, a parser of the plain byte sequence; \<open>PacketFramer_push\<close> over the
  circular storage refines it. The strings of the result vector are taken to be allocated; the
  two allocations of ring storage (growth and trim) may fail.
\<close>

section \<open>Data\<close>

datatype FrameStatus =
    NeedMoreData
  | FramesReady
  | BudgetExhausted
  | FrameTooLarge
  | BufferLimitExceeded
  | Faulted

record FrameResult =
  fr_status :: FrameStatus
  fr_frames :: "bytes list"
  fr_needsContinuation :: bool

record PacketFramerOptions =
  pfo_maxPayloadBytes :: nat
  pfo_maxBufferedBytes :: nat
  pfo_maxFramesPerPush :: nat
  pfo_maxFrameBytesPerPush :: nat
  pfo_maxRetainedCapacityBytes :: "nat option"
  pfo_trimThresholdBytes :: "nat option"

record PacketFramerRetentionSnapshot =
  prs_retainedCapacityBytes :: nat
  prs_peakRetainedCapacityBytes :: nat
  prs_trimCount :: nat
  prs_trimArmed :: bool

record PacketFramer =
  pf_options :: PacketFramerOptions
  pf_storage :: bytes
  pf_capacity :: nat
  pf_head :: nat
  pf_bufferedBytes :: nat
  pf_peakRetainedCapacityBytes :: nat
  pf_trimCount :: nat
  pf_trimArmed :: bool
  pf_faulted :: bool

abbreviation pf_maxPayload :: "PacketFramer \<Rightarrow> nat" where
  "pf_maxPayload f \<equiv> pfo_maxPayloadBytes (pf_options f)"

abbreviation pf_maxBuffered :: "PacketFramer \<Rightarrow> nat" where
  "pf_maxBuffered f \<equiv> pfo_maxBufferedBytes (pf_options f)"

abbreviation pf_maxRetained :: "PacketFramer \<Rightarrow> nat" where
  "pf_maxRetained f \<equiv> the (pfo_maxRetainedCapacityBytes (pf_options f))"

abbreviation pf_trimThreshold :: "PacketFramer \<Rightarrow> nat" where
  "pf_trimThreshold f \<equiv> the (pfo_trimThresholdBytes (pf_options f))"

section \<open>Operations\<close>

definition kLengthBytes :: nat where
  "kLengthBytes = 4"

definition appendLength :: "bytes \<Rightarrow> nat \<Rightarrow> bytes" where
  "appendLength output length32 = output @
     [char_of (drop_bit 24 length32 AND 255), char_of (drop_bit 16 length32 AND 255),
      char_of (drop_bit 8 length32 AND 255), char_of (length32 AND 255)]"

definition optionsForPayloadLimit :: "nat \<Rightarrow> PacketFramerOptions outcome" where
  "optionsForPayloadLimit maxPayloadBytes =
     (if maxPayloadBytes > uint32_max \<or> maxPayloadBytes > size_max - kLengthBytes
      then Inl InvalidArgument
      else let frameBytes = kLengthBytes + maxPayloadBytes;
               maxBufferedBytes = (if frameBytes \<le> size_max div 2 then frameBytes * 2 else frameBytes)
           in Inr \<lparr> pfo_maxPayloadBytes = maxPayloadBytes, pfo_maxBufferedBytes = maxBufferedBytes,
                    pfo_maxFramesPerPush = 64, pfo_maxFrameBytesPerPush = frameBytes,
                    pfo_maxRetainedCapacityBytes = None, pfo_trimThresholdBytes = None \<rparr>)"

definition PacketFramer_new :: "PacketFramerOptions \<Rightarrow> PacketFramer outcome" where
  "PacketFramer_new options =
     (if pfo_maxPayloadBytes options > uint32_max \<or> pfo_maxPayloadBytes options > size_max - kLengthBytes
      then Inl InvalidArgument
      else let maximumFrameBytes = kLengthBytes + pfo_maxPayloadBytes options in
        if pfo_maxBufferedBytes options < maximumFrameBytes \<or> pfo_maxFramesPerPush options = 0 \<or>
           pfo_maxFrameBytesPerPush options < maximumFrameBytes
        then Inl InvalidArgument
        else let retained = (case pfo_maxRetainedCapacityBytes options of
                               None \<Rightarrow> maximumFrameBytes | Some r \<Rightarrow> r);
                 threshold = (case pfo_trimThresholdBytes options of None \<Rightarrow> retained | Some t \<Rightarrow> t)
             in if retained > pfo_maxBufferedBytes options \<or> threshold > retained
                then Inl InvalidArgument
                else Inr \<lparr> pf_options = options\<lparr> pfo_maxRetainedCapacityBytes := Some retained,
                                                pfo_trimThresholdBytes := Some threshold \<rparr>,
                           pf_storage = [], pf_capacity = 0, pf_head = 0, pf_bufferedBytes = 0,
                           pf_peakRetainedCapacityBytes = 0, pf_trimCount = 0,
                           pf_trimArmed = False, pf_faulted = False \<rparr>)"

definition PacketFramer_newForPayload :: "nat \<Rightarrow> PacketFramer outcome" where
  "PacketFramer_newForPayload maxPayloadBytes =
     (case optionsForPayloadLimit maxPayloadBytes of Inl e \<Rightarrow> Inl e | Inr o' \<Rightarrow> PacketFramer_new o')"

definition PacketFramer_byteAt :: "PacketFramer \<Rightarrow> nat \<Rightarrow> char" where
  "PacketFramer_byteAt f offset = pf_storage f ! ((pf_head f + offset) mod length (pf_storage f))"

definition PacketFramer_copyPayload :: "PacketFramer \<Rightarrow> nat \<Rightarrow> nat \<Rightarrow> bytes" where
  "PacketFramer_copyPayload f offset len =
     (let payload = vec_zero len in
      if len = 0 then payload
      else let begin = (pf_head f + offset) mod length (pf_storage f);
               first = min len (length (pf_storage f) - begin);
               payload1 = blit payload 0 (take first (drop begin (pf_storage f)))
           in if first \<noteq> len then blit payload1 first (take (len - first) (pf_storage f))
              else payload1)"

text \<open>The copy of the buffered bytes to the front of a fresh vector, the block that growth and
  trim share.\<close>

definition PacketFramer_copyBuffered :: "PacketFramer \<Rightarrow> bytes \<Rightarrow> bytes" where
  "PacketFramer_copyBuffered f fresh =
     (if pf_bufferedBytes f \<noteq> 0
      then let first = min (pf_bufferedBytes f) (length (pf_storage f) - pf_head f);
               fresh1 = blit fresh 0 (take first (drop (pf_head f) (pf_storage f)))
           in if first \<noteq> pf_bufferedBytes f
              then blit fresh1 first (take (pf_bufferedBytes f - first) (pf_storage f))
              else fresh1
      else fresh)"

definition PacketFramer_trimRetainedCapacity :: "allocator \<Rightarrow> PacketFramer \<Rightarrow> bool \<times> PacketFramer" where
  "PacketFramer_trimRetainedCapacity al f =
     (if \<not> pf_trimArmed f \<or> pf_bufferedBytes f > pf_trimThreshold f then (False, f)
      else case al (pf_maxRetained f) of
        None \<Rightarrow> (False, f)
      | Some cap \<Rightarrow>
          (True, f\<lparr> pf_storage := PacketFramer_copyBuffered f (vec_zero (pf_maxRetained f)),
                    pf_capacity := cap, pf_head := 0,
                    pf_trimCount := u64_inc (pf_trimCount f),
                    pf_trimArmed := cap > pf_maxRetained f \<rparr>))"

definition PacketFramer_updateRetentionState :: "PacketFramer \<Rightarrow> PacketFramer" where
  "PacketFramer_updateRetentionState f =
     (let f1 = f\<lparr> pf_peakRetainedCapacityBytes := max (pf_peakRetainedCapacityBytes f) (pf_capacity f) \<rparr>
      in if pf_capacity f1 > pf_maxRetained f1 then f1\<lparr> pf_trimArmed := True \<rparr> else f1)"

text \<open>The growth loop of \<open>appendBytes\<close>. Each round adds at least one byte or jumps to the
  required size. The conjunct \<open>required \<le> size_max\<close> is the width of \<open>required\<close>, a \<open>size_t\<close>.\<close>

function growCapacity :: "nat \<Rightarrow> nat \<Rightarrow> nat \<Rightarrow> nat" where
  "growCapacity maxBufferedBytes required grownCapacity =
     (if grownCapacity < required \<and> required \<le> size_max
      then let availableGrowth = sz_sub maxBufferedBytes grownCapacity;
               growth = min availableGrowth (max (grownCapacity div 2) 1);
               grown = grownCapacity + growth
           in growCapacity maxBufferedBytes required
                (if grown < required \<and> grown = maxBufferedBytes then required else grown)
      else grownCapacity)"
  by pat_completeness auto
termination
  by (relation "measure (\<lambda>(m, r, g). r - g)") (auto simp: sz_sub_def Let_def min_def max_def size_max_def)

declare growCapacity.simps [simp del]

definition PacketFramer_growStorage :: "allocator \<Rightarrow> nat \<Rightarrow> PacketFramer \<Rightarrow> PacketFramer outcome" where
  "PacketFramer_growStorage al required f =
     (let start = (if pf_storage f = [] then min 64 (pf_maxBuffered f) else length (pf_storage f));
          grownCapacity = growCapacity (pf_maxBuffered f) required start
      in case al grownCapacity of
           None \<Rightarrow> Inl BadAlloc
         | Some cap \<Rightarrow> Inr (PacketFramer_updateRetentionState
             (f\<lparr> pf_storage := PacketFramer_copyBuffered f (vec_zero grownCapacity),
                 pf_capacity := cap, pf_head := 0 \<rparr>)))"

definition PacketFramer_storeBytes :: "bytes \<Rightarrow> PacketFramer \<Rightarrow> PacketFramer" where
  "PacketFramer_storeBytes bytes f =
     (let tail = (pf_head f + pf_bufferedBytes f) mod length (pf_storage f);
          first = min (length bytes) (length (pf_storage f) - tail);
          s1 = blit (pf_storage f) tail (take first bytes);
          s2 = (if first \<noteq> length bytes then blit s1 0 (drop first bytes) else s1)
      in f\<lparr> pf_storage := s2, pf_bufferedBytes := pf_bufferedBytes f + length bytes \<rparr>)"

definition PacketFramer_appendBytes :: "allocator \<Rightarrow> bytes \<Rightarrow> PacketFramer \<Rightarrow> unit outcome \<times> PacketFramer" where
  "PacketFramer_appendBytes al bytes f =
     (let required = pf_bufferedBytes f + length bytes in
      case (if length (pf_storage f) < required then PacketFramer_growStorage al required f else Inr f) of
        Inl e \<Rightarrow> (Inl e, f)
      | Inr g \<Rightarrow> (Inr (), PacketFramer_storeBytes bytes g))"

definition PacketFramer_consume :: "allocator \<Rightarrow> nat \<Rightarrow> PacketFramer \<Rightarrow> PacketFramer" where
  "PacketFramer_consume al bytes f =
     (let f1 = f\<lparr> pf_head := (pf_head f + bytes) mod length (pf_storage f),
                  pf_bufferedBytes := sz_sub (pf_bufferedBytes f) bytes \<rparr>;
          f2 = (if pf_bufferedBytes f1 = 0 then f1\<lparr> pf_head := 0 \<rparr> else f1)
      in snd (PacketFramer_trimRetainedCapacity al f2))"

definition PacketFramer_clearBuffer :: "allocator \<Rightarrow> PacketFramer \<Rightarrow> PacketFramer" where
  "PacketFramer_clearBuffer al f =
     snd (PacketFramer_trimRetainedCapacity al (f\<lparr> pf_head := 0, pf_bufferedBytes := 0 \<rparr>))"

definition PacketFramer_reset :: "allocator \<Rightarrow> PacketFramer \<Rightarrow> PacketFramer" where
  "PacketFramer_reset al f = (PacketFramer_clearBuffer al f)\<lparr> pf_faulted := False \<rparr>"

text \<open>The four header bytes as the loop of \<open>push\<close> combines them.\<close>

definition decodeLength :: "char \<Rightarrow> char \<Rightarrow> char \<Rightarrow> char \<Rightarrow> nat" where
  "decodeLength b0 b1 b2 b3 =
     (push_bit 24 (of_char b0) OR push_bit 16 (of_char b1)) OR push_bit 8 (of_char b2) OR of_char b3"

datatype push_stop = StopIncomplete | StopTooLarge | StopBudget

text \<open>The loop of \<open>push\<close>: why it stopped, the frames in order and the bytes they take. The
  counters start at the frames and bytes already handed out in this call.\<close>

function PacketFramer_pushLoop :: "PacketFramer \<Rightarrow> nat \<Rightarrow> nat \<Rightarrow> bytes list \<Rightarrow> push_stop \<times> bytes list \<times> nat" where
  "PacketFramer_pushLoop f consumed processedFrameBytes frames =
     (if pf_bufferedBytes f - consumed \<ge> kLengthBytes
      then let payloadBytes = decodeLength (PacketFramer_byteAt f consumed) (PacketFramer_byteAt f (consumed + 1))
                                (PacketFramer_byteAt f (consumed + 2)) (PacketFramer_byteAt f (consumed + 3))
           in if payloadBytes > pf_maxPayload f then (StopTooLarge, [], consumed)
              else let frameBytes = kLengthBytes + payloadBytes
                   in if pf_bufferedBytes f - consumed < frameBytes then (StopIncomplete, frames, consumed)
                      else if length frames \<ge> pfo_maxFramesPerPush (pf_options f) \<or>
                              frameBytes > sz_sub (pfo_maxFrameBytesPerPush (pf_options f)) processedFrameBytes
                           then (StopBudget, frames, consumed)
                           else PacketFramer_pushLoop f (consumed + frameBytes) (processedFrameBytes + frameBytes)
                                  (frames @ [PacketFramer_copyPayload f (consumed + kLengthBytes) payloadBytes])
      else (StopIncomplete, frames, consumed))"
  by pat_completeness auto
termination
  by (relation "measure (\<lambda>(f, c, p, fs). pf_bufferedBytes f - c)") (auto simp: kLengthBytes_def)

declare PacketFramer_pushLoop.simps [simp del]

text \<open>The part of \<open>push\<close> that follows the append: the loop, the advance of the head and the
  final trim.\<close>

definition PacketFramer_deliver :: "allocator \<Rightarrow> PacketFramer \<Rightarrow> FrameResult outcome \<times> PacketFramer" where
  "PacketFramer_deliver al g =
     (case PacketFramer_pushLoop g 0 0 [] of (stop, frames, consumed) \<Rightarrow>
        if stop = StopTooLarge
        then (Inr \<lparr> fr_status = FrameTooLarge, fr_frames = [], fr_needsContinuation = False \<rparr>,
              (PacketFramer_clearBuffer al g)\<lparr> pf_faulted := True \<rparr>)
        else let g1 = (if consumed \<noteq> 0 then PacketFramer_consume al consumed g else g);
                 status = (if stop = StopBudget then BudgetExhausted
                           else if frames = [] then NeedMoreData else FramesReady)
             in (Inr \<lparr> fr_status = status, fr_frames = frames, fr_needsContinuation = (stop = StopBudget) \<rparr>,
                 snd (PacketFramer_trimRetainedCapacity al g1)))"

definition PacketFramer_push :: "allocator \<Rightarrow> bytes \<Rightarrow> PacketFramer \<Rightarrow> FrameResult outcome \<times> PacketFramer" where
  "PacketFramer_push al bytes f =
     (if pf_faulted f
      then (Inr \<lparr> fr_status = Faulted, fr_frames = [], fr_needsContinuation = False \<rparr>, f)
      else if length bytes > sz_sub (pf_maxBuffered f) (pf_bufferedBytes f)
      then (Inr \<lparr> fr_status = BufferLimitExceeded, fr_frames = [], fr_needsContinuation = False \<rparr>,
            (PacketFramer_clearBuffer al f)\<lparr> pf_faulted := True \<rparr>)
      else case (if bytes \<noteq> [] then PacketFramer_appendBytes al bytes f else (Inr (), f)) of
          (Inl e, g) \<Rightarrow> (Inl e, g)
        | (Inr _, g) \<Rightarrow> PacketFramer_deliver al g)"

definition PacketFramer_encode :: "PacketFramer \<Rightarrow> bytes \<Rightarrow> bytes option" where
  "PacketFramer_encode f payload =
     (if length payload > pf_maxPayload f \<or> length payload > uint32_max then None
      else Some (appendLength [] (take_bit 32 (length payload)) @ payload))"

definition PacketFramer_retentionSnapshot :: "PacketFramer \<Rightarrow> PacketFramerRetentionSnapshot" where
  "PacketFramer_retentionSnapshot f =
     \<lparr> prs_retainedCapacityBytes = pf_capacity f,
       prs_peakRetainedCapacityBytes = pf_peakRetainedCapacityBytes f,
       prs_trimCount = pf_trimCount f, prs_trimArmed = pf_trimArmed f \<rparr>"

section \<open>The length prefix\<close>

lemma and_255: "(n::nat) AND 255 = take_bit 8 n"
  by (simp add: take_bit_eq_mask mask_eq_exp_minus_1)

lemma of_char_char_of_byte: "of_char (char_of (take_bit 8 n :: nat) :: char) = (take_bit 8 n :: nat)"
  by (simp add: take_bit_eq_mod)

lemma take_bit_of_char: "take_bit 8 (of_char c) = (of_char c :: nat)"
  by (simp add: take_bit_eq_mod)

lemma decode_encode_length:
  assumes "n < 2 ^ 32"
  shows "decodeLength (char_of (drop_bit 24 n AND 255)) (char_of (drop_bit 16 n AND 255))
     (char_of (drop_bit 8 n AND 255)) (char_of (n AND 255)) = n"
proof -
  have n: "take_bit 32 n = n" using assms by (simp add: take_bit_nat_eq_self)
  have "decodeLength (char_of (drop_bit 24 n AND 255)) (char_of (drop_bit 16 n AND 255))
     (char_of (drop_bit 8 n AND 255)) (char_of (n AND 255)) = take_bit 32 n"
    unfolding decodeLength_def and_255 of_char_char_of_byte
  proof (rule bit_eqI)
    fix i :: nat
    consider "i < 8" | "8 \<le> i" "i < 16" | "16 \<le> i" "i < 24" | "24 \<le> i" by linarith
    then show "bit ((push_bit 24 (take_bit 8 (drop_bit 24 n)) OR push_bit 16 (take_bit 8 (drop_bit 16 n))) OR
      push_bit 8 (take_bit 8 (drop_bit 8 n)) OR take_bit 8 n) i = bit (take_bit 32 n) i"
      by cases (auto simp: bit_simps)
  qed
  then show ?thesis by (simp add: n)
qed

lemma decode_byte:
  fixes a b c d :: char
  shows "drop_bit 24 (decodeLength a b c d) AND 255 = of_char a"
    and "drop_bit 16 (decodeLength a b c d) AND 255 = of_char b"
    and "drop_bit 8 (decodeLength a b c d) AND 255 = of_char c"
    and "decodeLength a b c d AND 255 = of_char d"
  unfolding decodeLength_def and_255
  by (subst (1 2 3 4 5) take_bit_of_char [symmetric], rule bit_eqI, auto simp: bit_simps)+

lemma encode_decode_length:
  "appendLength [] (decodeLength a b c d) = [a, b, c, d]"
  by (simp add: appendLength_def decode_byte)

lemma decodeLength_less: "decodeLength a b c d < 2 ^ 32"
proof -
  have "take_bit 32 (decodeLength a b c d) = decodeLength a b c d"
    unfolding decodeLength_def
    by (subst (1 2 3 4 5 6 7 8) take_bit_of_char [symmetric], rule bit_eqI) (auto simp: bit_simps)
  then show ?thesis by (metis take_bit_nat_less_exp)
qed

section \<open>Abstract specification\<close>

definition frame :: "bytes \<Rightarrow> bytes" where
  "frame payload = appendLength [] (length payload) @ payload"

function deframe :: "PacketFramerOptions \<Rightarrow> nat \<Rightarrow> nat \<Rightarrow> bytes \<Rightarrow> push_stop \<times> bytes list \<times> bytes" where
  "deframe opts count used bs =
     (if length bs < kLengthBytes then (StopIncomplete, [], bs)
      else let n = decodeLength (bs ! 0) (bs ! 1) (bs ! 2) (bs ! 3)
           in if n > pfo_maxPayloadBytes opts then (StopTooLarge, [], bs)
              else if length bs < kLengthBytes + n then (StopIncomplete, [], bs)
              else if count \<ge> pfo_maxFramesPerPush opts \<or>
                      used + (kLengthBytes + n) > pfo_maxFrameBytesPerPush opts
                   then (StopBudget, [], bs)
              else case deframe opts (Suc count) (used + (kLengthBytes + n)) (drop (kLengthBytes + n) bs) of
                     (stop, frames, rest) \<Rightarrow> (stop, take n (drop kLengthBytes bs) # frames, rest))"
  by pat_completeness auto
termination
  by (relation "measure (\<lambda>(opts, c, t, bs). length bs)") (auto simp: kLengthBytes_def)

declare deframe.simps [simp del]

lemma deframe_step:
  assumes "kLengthBytes \<le> length bs" "n = decodeLength (bs ! 0) (bs ! 1) (bs ! 2) (bs ! 3)"
    "n \<le> pfo_maxPayloadBytes opts" "kLengthBytes + n \<le> length bs" "c < pfo_maxFramesPerPush opts"
    "t + (kLengthBytes + n) \<le> pfo_maxFrameBytesPerPush opts"
  shows "deframe opts c t bs = (case deframe opts (Suc c) (t + (kLengthBytes + n)) (drop (kLengthBytes + n) bs) of
           (stop, frames, rest) \<Rightarrow> (stop, take n (drop kLengthBytes bs) # frames, rest))"
  using assms by (subst deframe.simps) (simp add: Let_def not_le not_less)

lemma length_frame [simp]: "length (frame x) = kLengthBytes + length x"
  by (simp add: frame_def appendLength_def kLengthBytes_def)

lemma frame_decoded:
  assumes "kLengthBytes \<le> length bs"
    and "n = decodeLength (bs ! 0) (bs ! 1) (bs ! 2) (bs ! 3)"
    and "kLengthBytes + n \<le> length bs"
  shows "frame (take n (drop kLengthBytes bs)) = take (kLengthBytes + n) bs"
proof -
  have "take 4 bs = [bs ! 0, bs ! 1, bs ! 2, bs ! 3]"
    using assms(1) by (intro nth_equalityI) (auto simp: kLengthBytes_def less_Suc_eq numeral_eq_Suc nth_Cons')
  moreover have "length (take n (drop kLengthBytes bs)) = n" using assms(3) by simp
  ultimately show ?thesis
    using assms(2) by (simp add: frame_def encode_decode_length kLengthBytes_def take_add)
qed

text \<open>No byte is lost: the frames handed out, framed again, and the rest are the input.\<close>

lemma deframe_conserves:
  "deframe opts c t bs = (stop, frames, rest) \<Longrightarrow> concat (map frame frames) @ rest = bs"
proof (induction opts c t bs arbitrary: stop frames rest rule: deframe.induct)
  case (1 opts c t bs)
  let ?n = "decodeLength (bs ! 0) (bs ! 1) (bs ! 2) (bs ! 3)"
  show ?case
  proof (cases "length bs < kLengthBytes \<or> ?n > pfo_maxPayloadBytes opts \<or> length bs < kLengthBytes + ?n \<or>
      c \<ge> pfo_maxFramesPerPush opts \<or> t + (kLengthBytes + ?n) > pfo_maxFrameBytesPerPush opts")
    case True
    with 1(2) show ?thesis by (auto simp: deframe.simps[of opts c t bs] Let_def split: if_splits)
  next
    case False
    then obtain fs where r: "deframe opts (Suc c) (t + (kLengthBytes + ?n)) (drop (kLengthBytes + ?n) bs) = (stop, fs, rest)"
      and fr: "frames = take ?n (drop kLengthBytes bs) # fs"
      using 1(2) by (auto simp: deframe.simps[of opts c t bs] Let_def split: if_splits prod.splits)
    have "concat (map frame fs) @ rest = drop (kLengthBytes + ?n) bs"
      using False by (intro 1(1)[OF _ refl _ _ _ r]) auto
    with False show ?thesis by (simp add: fr frame_decoded)
  qed
qed

lemma deframe_frames_bounded:
  assumes "deframe opts c t bs = (stop, frames, rest)" "c \<le> pfo_maxFramesPerPush opts" "t \<le> pfo_maxFrameBytesPerPush opts"
  shows "(\<forall>x \<in> set frames. length x \<le> pfo_maxPayloadBytes opts) \<and>
     c + length frames \<le> pfo_maxFramesPerPush opts \<and>
     t + length (concat (map frame frames)) \<le> pfo_maxFrameBytesPerPush opts"
  using assms
proof (induction opts c t bs arbitrary: stop frames rest rule: deframe.induct)
  case (1 opts c t bs)
  let ?n = "decodeLength (bs ! 0) (bs ! 1) (bs ! 2) (bs ! 3)"
  show ?case
  proof (cases "length bs < kLengthBytes \<or> ?n > pfo_maxPayloadBytes opts \<or> length bs < kLengthBytes + ?n \<or>
      c \<ge> pfo_maxFramesPerPush opts \<or> t + (kLengthBytes + ?n) > pfo_maxFrameBytesPerPush opts")
    case True
    with 1(2-4) show ?thesis by (auto simp: deframe.simps[of opts c t bs] Let_def split: if_splits)
  next
    case False
    then obtain fs where r: "deframe opts (Suc c) (t + (kLengthBytes + ?n)) (drop (kLengthBytes + ?n) bs) = (stop, fs, rest)"
      and fr: "frames = take ?n (drop kLengthBytes bs) # fs"
      using 1(2) by (auto simp: deframe.simps[of opts c t bs] Let_def split: if_splits prod.splits)
    show ?thesis
      using 1(1)[OF _ refl _ _ _ r] False by (auto simp: fr)
  qed
qed

text \<open>A framed payload within the limits is the next frame.\<close>

lemma frame_append_nth:
  "kLengthBytes \<le> length (frame x @ r)"
  "length x < 2 ^ 32 \<Longrightarrow> decodeLength ((frame x @ r) ! 0) ((frame x @ r) ! 1) ((frame x @ r) ! 2) ((frame x @ r) ! 3) = length x"
  by (simp_all add: frame_def appendLength_def kLengthBytes_def decode_encode_length)

lemma deframe_frame:
  assumes "length x \<le> pfo_maxPayloadBytes opts" "length x \<le> uint32_max" "c < pfo_maxFramesPerPush opts"
    "t + (kLengthBytes + length x) \<le> pfo_maxFrameBytesPerPush opts"
  shows "deframe opts c t (frame x @ r) =
     (case deframe opts (Suc c) (t + (kLengthBytes + length x)) r of (s, fs, rest) \<Rightarrow> (s, x # fs, rest))"
proof -
  have x: "length x < 2 ^ 32" using assms(2) by (simp add: uint32_max_def)
  have d: "take (length x) (drop kLengthBytes (frame x @ r)) = x"
    by (simp add: frame_def appendLength_def kLengthBytes_def)
  have e: "drop (kLengthBytes + length x) (frame x @ r) = r"
    using length_frame[of x] by (metis append_eq_conv_conj)
  show ?thesis
    using assms
    by (subst deframe.simps) (simp only: Let_def frame_append_nth(2)[OF x] d e, simp)
qed

lemma deframe_concat:
  assumes "\<forall>x \<in> set ps. length x \<le> pfo_maxPayloadBytes opts \<and> length x \<le> uint32_max"
    "c + length ps \<le> pfo_maxFramesPerPush opts"
    "t + length (concat (map frame ps)) \<le> pfo_maxFrameBytesPerPush opts"
  shows "deframe opts c t (concat (map frame ps) @ r) =
     (case deframe opts (c + length ps) (t + length (concat (map frame ps))) r of
        (s, fs, rest) \<Rightarrow> (s, ps @ fs, rest))"
  using assms
proof (induction ps arbitrary: c t)
  case (Cons x ps)
  have "deframe opts c t (concat (map frame (x # ps)) @ r) =
     (case deframe opts (Suc c) (t + (kLengthBytes + length x)) (concat (map frame ps) @ r) of
        (s, fs, rest) \<Rightarrow> (s, x # fs, rest))"
    using Cons.prems by (simp add: deframe_frame)
  with Cons.IH[of "Suc c" "t + (kLengthBytes + length x)"] Cons.prems show ?case
    by (simp add: add.assoc split: prod.splits)
qed (auto split: prod.splits)

section \<open>Invariant and abstraction\<close>

definition pf_opts_ok :: "PacketFramerOptions \<Rightarrow> bool" where
  "pf_opts_ok opts \<longleftrightarrow> pfo_maxPayloadBytes opts \<le> uint32_max \<and>
     kLengthBytes + pfo_maxPayloadBytes opts \<le> pfo_maxBufferedBytes opts \<and>
     pfo_maxBufferedBytes opts \<le> size_max \<and> 0 < pfo_maxFramesPerPush opts \<and>
     kLengthBytes + pfo_maxPayloadBytes opts \<le> pfo_maxFrameBytesPerPush opts \<and>
     (case (pfo_maxRetainedCapacityBytes opts, pfo_trimThresholdBytes opts) of
        (Some r, Some t) \<Rightarrow> r \<le> pfo_maxBufferedBytes opts \<and> t \<le> r
      | _ \<Rightarrow> False)"

definition pf_inv :: "PacketFramer \<Rightarrow> bool" where
  "pf_inv f \<longleftrightarrow> pf_opts_ok (pf_options f) \<and>
     pf_bufferedBytes f \<le> length (pf_storage f) \<and> length (pf_storage f) \<le> pf_maxBuffered f \<and>
     length (pf_storage f) \<le> pf_capacity f \<and>
     (pf_head f = 0 \<or> pf_head f < length (pf_storage f)) \<and>
     (pf_faulted f \<longrightarrow> pf_bufferedBytes f = 0) \<and>
     (pf_maxRetained f < pf_capacity f \<longrightarrow> pf_trimArmed f)"

definition pf_content :: "PacketFramer \<Rightarrow> bytes" where
  "pf_content f = ring (pf_storage f) (pf_head f) (pf_bufferedBytes f)"

lemma length_pf_content [simp]: "length (pf_content f) = pf_bufferedBytes f"
  by (simp add: pf_content_def)

lemma pf_opts_okD:
  assumes "pf_opts_ok opts"
  shows "the (pfo_maxRetainedCapacityBytes opts) \<le> pfo_maxBufferedBytes opts"
    "the (pfo_trimThresholdBytes opts) \<le> the (pfo_maxRetainedCapacityBytes opts)"
    "pfo_maxPayloadBytes opts \<le> uint32_max" "pfo_maxBufferedBytes opts \<le> size_max"
    "kLengthBytes + pfo_maxPayloadBytes opts \<le> pfo_maxBufferedBytes opts"
    "kLengthBytes + pfo_maxPayloadBytes opts \<le> pfo_maxFrameBytesPerPush opts"
    "0 < pfo_maxFramesPerPush opts"
  using assms by (auto simp: pf_opts_ok_def split: option.splits)

text \<open>What an operation of the framer keeps besides the invariant.\<close>

definition pf_same :: "PacketFramer \<Rightarrow> PacketFramer \<Rightarrow> bool" where
  "pf_same f g \<longleftrightarrow> pf_options g = pf_options f \<and> pf_faulted g = pf_faulted f"

lemma pf_copyBuffered:
  assumes "pf_inv f" "pf_bufferedBytes f \<le> length z"
  shows "PacketFramer_copyBuffered f z = blit z 0 (pf_content f)"
proof (cases "pf_bufferedBytes f = 0")
  case True
  then show ?thesis by (simp add: PacketFramer_copyBuffered_def pf_content_def)
next
  case False
  let ?s = "pf_storage f" and ?h = "pf_head f" and ?n = "pf_bufferedBytes f"
  let ?k = "min ?n (length ?s - ?h)"
  have h: "?h < length ?s" and n: "?n \<le> length ?s" using assms(1) False by (auto simp: pf_inv_def)
  have l: "length (take ?k (drop ?h ?s)) = ?k" by simp
  have "blit (blit z 0 (take ?k (drop ?h ?s))) ?k (take (?n - ?k) ?s) = blit z 0 (ring_read ?s ?h ?n)"
    using n h assms(2) blit_blit[of "take ?k (drop ?h ?s)" "take (?n - ?k) ?s" z] by (simp add: ring_read_def Let_def l)
  moreover have "?k = ?n \<Longrightarrow> ring_read ?s ?h ?n = take ?k (drop ?h ?s)" by (simp add: ring_read_def)
  ultimately show ?thesis
    using False h n by (auto simp: ring_read_eq Let_def PacketFramer_copyBuffered_def pf_content_def)
qed

lemma pf_relocated:
  assumes "pf_inv f" "pf_bufferedBytes f \<le> m" "m \<le> pf_maxBuffered f" "m \<le> cap"
    and "pf_maxRetained f < cap \<Longrightarrow> armed"
  shows "pf_inv (f\<lparr> pf_storage := PacketFramer_copyBuffered f (vec_zero m), pf_capacity := cap,
            pf_head := 0, pf_trimCount := c, pf_trimArmed := armed, pf_peakRetainedCapacityBytes := p \<rparr>)"
    and "ring (PacketFramer_copyBuffered f (vec_zero m)) 0 (pf_bufferedBytes f) = pf_content f"
  using assms ring_blit_front[of "pf_content f" "vec_zero m"] pf_copyBuffered[of f "vec_zero m"]
  by (auto simp: pf_inv_def)

lemma pf_trim_preserves:
  assumes inv: "pf_inv f" and al: "alloc_ok al" and r: "PacketFramer_trimRetainedCapacity al f = (b, g)"
  shows "pf_inv g \<and> pf_content g = pf_content f \<and> pf_bufferedBytes g = pf_bufferedBytes f \<and> pf_same f g"
proof (cases "\<not> pf_trimArmed f \<or> pf_bufferedBytes f > pf_trimThreshold f \<or> al (pf_maxRetained f) = None")
  case True
  with r inv show ?thesis
    by (auto simp: PacketFramer_trimRetainedCapacity_def pf_same_def split: option.splits)
next
  case False
  then obtain cap where cap: "al (pf_maxRetained f) = Some cap" by auto
  note ok = pf_opts_okD[OF inv[unfolded pf_inv_def, THEN conjunct1]]
  have n: "pf_bufferedBytes f \<le> pf_maxRetained f" using False ok by simp
  note m = alloc_okD[OF al cap]
  show ?thesis
    using r False pf_relocated(1)[OF inv n ok(1) m, of "cap > pf_maxRetained f"
        "pf_peakRetainedCapacityBytes f" "u64_inc (pf_trimCount f)"] pf_relocated(2)[OF inv n ok(1) m TrueI]
    by (auto simp: PacketFramer_trimRetainedCapacity_def cap pf_content_def pf_same_def)
qed

lemma growCapacity_bounds:
  assumes "required \<le> m" "m \<le> size_max" "g \<le> m" "0 < g"
  shows "required \<le> growCapacity m required g \<and> g \<le> growCapacity m required g \<and> growCapacity m required g \<le> m"
  using assms
proof (induction m required g rule: growCapacity.induct)
  case (1 m required g)
  show ?case
  proof (cases "g < required")
    case True
    define n where "n = g + min (sz_sub m g) (max (g div 2) 1)"
    have c: "g < required \<and> required \<le> size_max" using True 1(2,3) by linarith
    have sub: "sz_sub m g = m - g" using 1(4) by simp
    have lt: "g < n" "n \<le> m" using True 1(2,4) unfolding n_def sub by auto
    have e: "(if n < required \<and> n = m then required else n) = n" using 1(2) by auto
    have un: "growCapacity m required g = growCapacity m required n"
      using c e by (subst growCapacity.simps) (simp only: Let_def n_def if_True simp_thms)
    have "required \<le> growCapacity m required n \<and> n \<le> growCapacity m required n \<and> growCapacity m required n \<le> m"
      using 1(1)[OF c refl refl n_def] 1(2-5) lt unfolding e by linarith
    with lt un show ?thesis by linarith
  next
    case False
    then have "growCapacity m required g = g" by (subst growCapacity.simps) (simp only: if_False simp_thms)
    with 1(2-5) False show ?thesis by linarith
  qed
qed

lemma pf_updateRetentionState_simps [simp]:
  "pf_options (PacketFramer_updateRetentionState f) = pf_options f"
  "pf_storage (PacketFramer_updateRetentionState f) = pf_storage f"
  "pf_capacity (PacketFramer_updateRetentionState f) = pf_capacity f"
  "pf_head (PacketFramer_updateRetentionState f) = pf_head f"
  "pf_bufferedBytes (PacketFramer_updateRetentionState f) = pf_bufferedBytes f"
  "pf_faulted (PacketFramer_updateRetentionState f) = pf_faulted f"
  "pf_trimArmed (PacketFramer_updateRetentionState f) = (pf_trimArmed f \<or> pf_maxRetained f < pf_capacity f)"
  by (auto simp: PacketFramer_updateRetentionState_def Let_def)

lemma pf_growStorage:
  assumes inv: "pf_inv f" and al: "alloc_ok al" and req: "required \<le> pf_maxBuffered f"
    and lt: "pf_bufferedBytes f \<le> required"
    and r: "PacketFramer_growStorage al required f = Inr g"
  shows "pf_inv g \<and> pf_content g = pf_content f \<and> required \<le> length (pf_storage g) \<and> pf_same f g \<and>
    pf_bufferedBytes g = pf_bufferedBytes f"
proof -
  note ok = pf_opts_okD[OF inv[unfolded pf_inv_def, THEN conjunct1]]
  define start where "start = (if pf_storage f = [] then min 64 (pf_maxBuffered f) else length (pf_storage f))"
  define gc where "gc = growCapacity (pf_maxBuffered f) required start"
  have "0 < pf_maxBuffered f" using ok(5) by (simp add: kLengthBytes_def)
  then have "start \<le> pf_maxBuffered f" "0 < start"
    using inv by (auto simp: pf_inv_def start_def)
  from growCapacity_bounds[OF req ok(4) this] have b: "required \<le> gc" "gc \<le> pf_maxBuffered f"
    by (simp_all add: gc_def)
  from r obtain cap where cap: "al gc = Some cap" and g: "g = PacketFramer_updateRetentionState
      (f\<lparr> pf_storage := PacketFramer_copyBuffered f (vec_zero gc), pf_capacity := cap, pf_head := 0 \<rparr>)"
    by (auto simp: PacketFramer_growStorage_def Let_def start_def gc_def split: option.splits)
  have n: "pf_bufferedBytes f \<le> gc" using b lt by simp
  have m: "gc \<le> cap" using alloc_okD[OF al cap] .
  have "length (PacketFramer_copyBuffered f (vec_zero gc)) = gc"
    using n pf_copyBuffered[OF inv, of "vec_zero gc"] by simp
  then show ?thesis
    using inv b n m pf_relocated(2)[OF inv n b(2) m TrueI] by (auto simp: g pf_inv_def pf_content_def pf_same_def)
qed

lemma pf_storeBytes:
  assumes inv: "pf_inv f" and xs: "xs \<noteq> []" and fit: "pf_bufferedBytes f + length xs \<le> length (pf_storage f)"
    and nf: "\<not> pf_faulted f"
  shows "pf_inv (PacketFramer_storeBytes xs f) \<and> pf_content (PacketFramer_storeBytes xs f) = pf_content f @ xs \<and>
    pf_same f (PacketFramer_storeBytes xs f)"
proof -
  let ?t = "(pf_head f + pf_bufferedBytes f) mod length (pf_storage f)"
  have eq: "PacketFramer_storeBytes xs f =
      f\<lparr> pf_storage := ring_write (pf_storage f) ?t xs, pf_bufferedBytes := pf_bufferedBytes f + length xs \<rparr>"
    by (simp add: PacketFramer_storeBytes_def ring_write_def Let_def)
  have ne: "0 < length (pf_storage f)" using xs fit by (cases xs) auto
  then have h: "pf_head f < length (pf_storage f)" using inv by (auto simp: pf_inv_def)
  have "length (ring_write (pf_storage f) ?t xs) = length (pf_storage f)" using ne fit by simp
  with inv fit nf ring_ring_write[OF h fit xs] show ?thesis
    unfolding eq by (auto simp: pf_inv_def pf_content_def pf_same_def)
qed

lemma pf_append:
  assumes inv: "pf_inv f" and al: "alloc_ok al" and xs: "xs \<noteq> []"
    and req: "pf_bufferedBytes f + length xs \<le> pf_maxBuffered f" and nf: "\<not> pf_faulted f"
    and r: "PacketFramer_appendBytes al xs f = (Inr u, g)"
  shows "pf_inv g \<and> pf_content g = pf_content f @ xs \<and> pf_same f g"
proof -
  obtain m where m: "pf_inv m" "pf_content m = pf_content f" "pf_bufferedBytes f + length xs \<le> length (pf_storage m)"
      "pf_same f m" "pf_bufferedBytes m = pf_bufferedBytes f" and g: "g = PacketFramer_storeBytes xs m"
  proof (cases "length (pf_storage f) < pf_bufferedBytes f + length xs")
    case True
    with r obtain m where "PacketFramer_growStorage al (pf_bufferedBytes f + length xs) f = Inr m"
      "g = PacketFramer_storeBytes xs m"
      by (auto simp: PacketFramer_appendBytes_def split: sum.splits)
    with pf_growStorage[OF inv al req] show ?thesis by (intro that[of m]) auto
  next
    case False
    with r inv show ?thesis
      by (intro that[of f]) (auto simp: PacketFramer_appendBytes_def pf_same_def)
  qed
  show ?thesis using pf_storeBytes[OF m(1) xs] m nf unfolding g by (simp add: pf_same_def)
qed

lemma pf_append_throws:
  "PacketFramer_appendBytes al xs f = (Inl e, g) \<Longrightarrow> g = f \<and> e = BadAlloc"
  by (auto simp: PacketFramer_appendBytes_def PacketFramer_growStorage_def Let_def
      split: sum.splits option.splits if_split_asm)

lemma pf_append_total: "fst (PacketFramer_appendBytes (\<lambda>n. Some (h n)) xs f) = Inr ()"
  by (simp add: PacketFramer_appendBytes_def PacketFramer_growStorage_def Let_def)

lemma pf_consume:
  assumes inv: "pf_inv f" and al: "alloc_ok al" and n: "n \<le> pf_bufferedBytes f"
  shows "pf_inv (PacketFramer_consume al n f) \<and> pf_content (PacketFramer_consume al n f) = drop n (pf_content f) \<and>
     pf_same f (PacketFramer_consume al n f)"
proof -
  define f2 where "f2 = (let f1 = f\<lparr> pf_head := (pf_head f + n) mod length (pf_storage f),
                  pf_bufferedBytes := sz_sub (pf_bufferedBytes f) n \<rparr>
     in if pf_bufferedBytes f1 = 0 then f1\<lparr> pf_head := 0 \<rparr> else f1)"
  have "pf_bufferedBytes f \<noteq> n \<Longrightarrow> (pf_head f + n) mod length (pf_storage f) < length (pf_storage f)"
    using inv n by (intro mod_less_divisor) (auto simp: pf_inv_def)
  then have "pf_inv f2" using inv n by (auto simp: f2_def Let_def pf_inv_def)
  moreover have "pf_content f2 = drop n (pf_content f)"
    using n by (auto simp: f2_def Let_def pf_content_def drop_ring)
  moreover have "pf_same f f2" by (simp add: f2_def Let_def pf_same_def)
  moreover have "PacketFramer_consume al n f = snd (PacketFramer_trimRetainedCapacity al f2)"
    by (simp add: PacketFramer_consume_def f2_def Let_def)
  ultimately show ?thesis
    using pf_trim_preserves[of f2 al, OF _ al prod.collapse[symmetric]] by (simp add: pf_same_def)
qed

lemma pf_clear:
  assumes inv: "pf_inv f" and al: "alloc_ok al"
  shows "pf_inv (PacketFramer_clearBuffer al f) \<and> pf_content (PacketFramer_clearBuffer al f) = [] \<and>
     pf_same f (PacketFramer_clearBuffer al f)"
proof -
  have "pf_inv (f\<lparr> pf_head := 0, pf_bufferedBytes := 0 \<rparr>)" using inv by (auto simp: pf_inv_def)
  from pf_trim_preserves[OF this al prod.collapse[symmetric]] show ?thesis
    by (simp add: PacketFramer_clearBuffer_def pf_content_def pf_same_def)
qed

lemma pf_byteAt: "i < pf_bufferedBytes f \<Longrightarrow> PacketFramer_byteAt f i = pf_content f ! i"
  by (simp add: PacketFramer_byteAt_def pf_content_def)

lemma pf_copyPayload:
  assumes inv: "pf_inv f" and fit: "off + len \<le> pf_bufferedBytes f"
  shows "PacketFramer_copyPayload f off len = take len (drop off (pf_content f))"
proof (cases "len = 0")
  case True
  then show ?thesis by (simp add: PacketFramer_copyPayload_def vec_zero_def)
next
  case False
  let ?s = "pf_storage f" and ?b = "(pf_head f + off) mod length (pf_storage f)"
  have s: "0 < length ?s" "len \<le> length ?s" using inv fit False by (auto simp: pf_inv_def)
  then have b: "?b < length ?s" by simp
  let ?k = "min len (length ?s - ?b)"
  have "blit (blit (vec_zero len) 0 (take ?k (drop ?b ?s))) ?k (take (len - ?k) ?s) = blit (vec_zero len) 0 (ring_read ?s ?b len)"
    using s b blit_blit[of "take ?k (drop ?b ?s)" "take (len - ?k) ?s" "vec_zero len"] by (simp add: ring_read_def Let_def)
  moreover have "?k = len \<Longrightarrow> ring_read ?s ?b len = take ?k (drop ?b ?s)" by (simp add: ring_read_def)
  moreover have "blit (vec_zero len) 0 (ring_read ?s ?b len) = ring_read ?s ?b len"
    using s b by (simp add: blit_0 ring_read_eq)
  ultimately have "PacketFramer_copyPayload f off len = ring_read ?s ?b len"
    using False by (auto simp: PacketFramer_copyPayload_def Let_def)
  also have "\<dots> = take len (drop off (pf_content f))"
    using s b fit by (simp add: ring_read_eq pf_content_def drop_ring take_ring)
  finally show ?thesis .
qed

lemma pf_pushLoop:
  assumes "pf_inv f" "c \<le> pf_bufferedBytes f" "p \<le> pfo_maxFrameBytesPerPush (pf_options f)"
    and "deframe (pf_options f) (length frames) p (drop c (pf_content f)) = (stop, fs, rest)"
  shows "\<exists>c'. PacketFramer_pushLoop f c p frames = (stop, if stop = StopTooLarge then [] else frames @ fs, c') \<and>
     c \<le> c' \<and> c' \<le> pf_bufferedBytes f \<and> rest = drop c' (pf_content f)"
  using assms
proof (induction f c p frames arbitrary: fs rule: PacketFramer_pushLoop.induct)
  case (1 f c p frames)
  let ?bs = "drop c (pf_content f)" and ?o = "pf_options f"
  let ?n = "decodeLength (PacketFramer_byteAt f c) (PacketFramer_byteAt f (c + 1))
              (PacketFramer_byteAt f (c + 2)) (PacketFramer_byteAt f (c + 3))"
  have len: "length ?bs = pf_bufferedBytes f - c" by simp
  have nn: "?n = decodeLength (?bs ! 0) (?bs ! 1) (?bs ! 2) (?bs ! 3)" if "kLengthBytes \<le> length ?bs"
    using that by (simp add: pf_byteAt kLengthBytes_def)
  have sub: "(kLengthBytes + ?n > sz_sub (pfo_maxFrameBytesPerPush ?o) p) = (p + (kLengthBytes + ?n) > pfo_maxFrameBytesPerPush ?o)"
    using 1(4) by auto
  let ?stop = "kLengthBytes \<le> length ?bs \<and> ?n \<le> pf_maxPayload f \<and> kLengthBytes + ?n \<le> length ?bs \<and>
      length frames < pfo_maxFramesPerPush ?o \<and> p + (kLengthBytes + ?n) \<le> pfo_maxFrameBytesPerPush ?o"
  show ?case
  proof (cases ?stop)
    case False
    then show ?thesis
      using 1(3,5) nn len sub
      by (subst PacketFramer_pushLoop.simps, subst (asm) deframe.simps) (auto simp: Let_def not_le split: if_splits)
  next
    case True
    define n where "n = ?n"
    define x where "x = PacketFramer_copyPayload f (c + kLengthBytes) n"
    let ?c = "c + (kLengthBytes + n)" and ?p = "p + (kLengthBytes + n)"
    note T = True[folded n_def]
    have x: "x = take n (drop kLengthBytes ?bs)"
      unfolding x_def using T 1(2,3) by (subst pf_copyPayload) (auto simp: add.commute)
    have "deframe ?o (length frames) p ?bs = (case deframe ?o (Suc (length frames)) ?p (drop (kLengthBytes + n) ?bs) of
           (stop, frames, rest) \<Rightarrow> (stop, take n (drop kLengthBytes ?bs) # frames, rest))"
      using T nn[folded n_def] by (intro deframe_step) auto
    with 1(5) obtain fs' where fs: "fs = x # fs'"
      and d: "deframe ?o (length (frames @ [x])) ?p (drop ?c (pf_content f)) = (stop, fs', rest)"
      unfolding x[symmetric] by (auto simp: add.commute split: prod.splits)
    have un: "PacketFramer_pushLoop f c p frames = PacketFramer_pushLoop f ?c ?p (frames @ [x])"
      using T sub[folded n_def] unfolding len
      by (subst PacketFramer_pushLoop.simps) (simp only: Let_def n_def[symmetric] x_def[symmetric], simp)
    have "\<exists>c'. PacketFramer_pushLoop f ?c ?p (frames @ [x]) = (stop, if stop = StopTooLarge then [] else (frames @ [x]) @ fs', c') \<and>
       ?c \<le> c' \<and> c' \<le> pf_bufferedBytes f \<and> rest = drop c' (pf_content f)"
      using T len sub[folded n_def] 1(2,3)
      by (intro 1(1)[OF _ refl _ refl _ _ _ _ _ d[unfolded x_def n_def], folded n_def, folded x_def]) auto
    then show ?thesis unfolding un fs by auto
  qed
qed


section \<open>Push refines the abstract parser\<close>

text \<open>The specification of \<open>push\<close> on the byte sequence: result and remaining bytes.\<close>

definition push_spec :: "PacketFramerOptions \<Rightarrow> bool \<Rightarrow> bytes \<Rightarrow> bytes \<Rightarrow> FrameResult \<times> bytes \<times> bool" where
  "push_spec opts faulted buffered bytes =
     (if faulted then (\<lparr> fr_status = Faulted, fr_frames = [], fr_needsContinuation = False \<rparr>, buffered, True)
      else if length buffered + length bytes > pfo_maxBufferedBytes opts
      then (\<lparr> fr_status = BufferLimitExceeded, fr_frames = [], fr_needsContinuation = False \<rparr>, [], True)
      else case deframe opts 0 0 (buffered @ bytes) of (stop, frames, rest) \<Rightarrow>
        (if stop = StopTooLarge
         then (\<lparr> fr_status = FrameTooLarge, fr_frames = [], fr_needsContinuation = False \<rparr>, [], True)
         else (\<lparr> fr_status = (if stop = StopBudget then BudgetExhausted
                             else if frames = [] then NeedMoreData else FramesReady),
                 fr_frames = frames, fr_needsContinuation = (stop = StopBudget) \<rparr>, rest, False)))"

lemma pf_set_faulted:
  "pf_inv f \<Longrightarrow> pf_content f = [] \<Longrightarrow> pf_inv (f\<lparr> pf_faulted := b \<rparr>) \<and> pf_content (f\<lparr> pf_faulted := b \<rparr>) = []"
  by (auto simp: pf_inv_def pf_content_def dest: arg_cong[of _ _ length])

lemma pf_push_loaded:
  assumes inv: "pf_inv g" and al: "alloc_ok al" and nf: "\<not> pf_faulted g"
    and d: "deframe (pf_options g) 0 0 (pf_content g) = (stop, frames, rest)"
    and res: "PacketFramer_deliver al g = (out, h)"
  shows "pf_inv h \<and> pf_options h = pf_options g \<and>
    (if stop = StopTooLarge
     then out = Inr \<lparr> fr_status = FrameTooLarge, fr_frames = [], fr_needsContinuation = False \<rparr> \<and> pf_content h = [] \<and> pf_faulted h
     else out = Inr \<lparr> fr_status = (if stop = StopBudget then BudgetExhausted else if frames = [] then NeedMoreData else FramesReady),
                      fr_frames = frames, fr_needsContinuation = (stop = StopBudget) \<rparr> \<and>
          pf_content h = rest \<and> \<not> pf_faulted h)"
proof -
  from pf_pushLoop[OF inv, of 0 0 "[]" stop frames rest] d obtain c where
    l: "PacketFramer_pushLoop g 0 0 [] = (stop, if stop = StopTooLarge then [] else frames, c)"
    and c: "c \<le> pf_bufferedBytes g" "rest = drop c (pf_content g)" by auto
  show ?thesis
  proof (cases "stop = StopTooLarge")
    case True
    with res l pf_clear[OF inv al] pf_set_faulted show ?thesis by (auto simp: pf_same_def PacketFramer_deliver_def)
  next
    case False
    define g1 where "g1 = (if c \<noteq> 0 then PacketFramer_consume al c g else g)"
    have g1: "pf_inv g1 \<and> pf_content g1 = rest \<and> pf_same g g1"
      using pf_consume[OF inv al c(1)] inv c by (auto simp: g1_def pf_same_def)
    have h: "h = snd (PacketFramer_trimRetainedCapacity al g1)"
      and o: "out = Inr \<lparr> fr_status = (if stop = StopBudget then BudgetExhausted else if frames = [] then NeedMoreData else FramesReady),
                      fr_frames = frames, fr_needsContinuation = (stop = StopBudget) \<rparr>"
      using res False by (simp_all add: PacketFramer_deliver_def l Let_def g1_def)
    have "pf_inv h \<and> pf_content h = pf_content g1 \<and> pf_same g1 h"
      using pf_trim_preserves[OF _ al prod.collapse[symmetric], of g1] g1 unfolding h by simp
    with g1 o nf False show ?thesis by (simp add: pf_same_def)
  qed
qed

lemma pf_push:
  assumes inv: "pf_inv f" and al: "alloc_ok al" and r: "PacketFramer_push al xs f = (Inr res, h)"
  shows "pf_inv h \<and> pf_options h = pf_options f \<and>
     push_spec (pf_options f) (pf_faulted f) (pf_content f) xs = (res, pf_content h, pf_faulted h)"
proof -
  note bound = inv[unfolded pf_inv_def]
  have le: "pf_bufferedBytes f \<le> pf_maxBuffered f" using bound by auto
  then have sub: "sz_sub (pf_maxBuffered f) (pf_bufferedBytes f) = pf_maxBuffered f - pf_bufferedBytes f"
    by simp
  consider (faulted) "pf_faulted f" | (full) "\<not> pf_faulted f" "pf_bufferedBytes f + length xs > pf_maxBuffered f"
    | (room) "\<not> pf_faulted f" "pf_bufferedBytes f + length xs \<le> pf_maxBuffered f" by linarith
  then show ?thesis
  proof cases
    case faulted
    with r inv show ?thesis by (auto simp: PacketFramer_push_def push_spec_def)
  next
    case full
    with le have "length xs > pf_maxBuffered f - pf_bufferedBytes f" by linarith
    with full r have "res = \<lparr> fr_status = BufferLimitExceeded, fr_frames = [], fr_needsContinuation = False \<rparr>"
      "h = (PacketFramer_clearBuffer al f)\<lparr> pf_faulted := True \<rparr>"
      by (simp_all add: PacketFramer_push_def sub)
    with full pf_clear[OF inv al] pf_set_faulted show ?thesis by (auto simp: push_spec_def pf_same_def)
  next
    case room
    define p where "p = (if xs \<noteq> [] then PacketFramer_appendBytes al xs f else (Inr (), f))"
    have "\<not> length xs > sz_sub (pf_maxBuffered f) (pf_bufferedBytes f)" using room bound by (simp add: sub)
    note r' = r[unfolded PacketFramer_push_def, simplified room(1) this if_False, folded p_def]
    then obtain u g where p: "p = (Inr u, g)" by (cases p; cases "fst p") auto
    have g: "pf_inv g" "pf_content g = pf_content f @ xs" "pf_same f g"
      using p pf_append[OF inv al _ room(2,1)] inv by (auto simp: p_def pf_same_def split: if_splits)
    obtain stop frames rest where d: "deframe (pf_options g) 0 0 (pf_content g) = (stop, frames, rest)"
      by (metis prod_cases3)
    have nf: "\<not> pf_faulted g" using g(3) room by (simp add: pf_same_def)
    have "PacketFramer_deliver al g = (Inr res, h)" using r' p by simp
    note L = pf_push_loaded[OF g(1) al nf d this]
    have o: "pf_options g = pf_options f" using g(3) by (simp add: pf_same_def)
    have d': "deframe (pf_options f) 0 0 (pf_content f @ xs) = (stop, frames, rest)" using d o g(2) by simp
    have "\<not> length (pf_content f) + length xs > pf_maxBuffered f" using room by simp
    then show ?thesis using L room(1) o by (cases "stop = StopTooLarge") (simp_all add: push_spec_def d')
  qed
qed

lemma pf_push_throws:
  assumes "PacketFramer_push al xs f = (Inl e, h)"
  shows "h = f \<and> e = BadAlloc"
proof -
  have "PacketFramer_deliver al g \<noteq> (Inl e, h)" for g
    by (auto simp: PacketFramer_deliver_def Let_def split: prod.splits)
  with assms have "xs \<noteq> [] \<and> PacketFramer_appendBytes al xs f = (Inl e, h)"
    by (auto simp: PacketFramer_push_def split: if_splits prod.splits sum.splits)
  then show ?thesis using pf_append_throws by blast
qed

end
