(* ===== verification/Framer_Streams.thy ===== *)
theory Framer_Streams
  imports PacketFramer
begin

text \<open>
  What the framer promises over a whole connection: streams of encoded payloads cut into chunks
  (\<open>framer_run\<close>), the budgets of one push, the memory the ring keeps, and the ring as an
  instance of the byte queue interface.
\<close>

section \<open>Streams of pushes\<close>

lemma frame_inj_prefix:
  assumes "frame x @ r = frame y @ s" "length x < 2 ^ 32" "length y < 2 ^ 32"
  shows "x = y \<and> r = s"
proof -
  have "length x = length y"
    using frame_append_nth(2)[OF assms(2), of r] frame_append_nth(2)[OF assms(3), of s] assms(1) by simp
  moreover from this have "frame x = frame y \<and> r = s" using assms(1) by simp
  ultimately show ?thesis by (simp add: frame_def)
qed

lemma frames_prefix:
  assumes "concat (map frame fs) @ rest @ later = concat (map frame ps)"
    and "\<forall>x \<in> set fs. length x < 2 ^ 32" "\<forall>x \<in> set ps. length x < 2 ^ 32"
  shows "\<exists>qs. ps = fs @ qs \<and> rest @ later = concat (map frame qs)"
  using assms
proof (induction fs arbitrary: ps)
  case (Cons x fs)
  show ?case
  proof (cases ps)
    case Nil
    with Cons.prems(1) have "length (frame x) = 0" by simp
    then show ?thesis by (simp add: kLengthBytes_def)
  next
    case (Cons y ys)
    with Cons.prems frame_inj_prefix[of x "concat (map frame fs) @ rest @ later" y "concat (map frame ys)"]
    have "x = y" "concat (map frame fs) @ rest @ later = concat (map frame ys)" by auto
    with Cons.IH[of ys] Cons.prems Cons show ?thesis by auto
  qed
qed simp

text \<open>A stream that holds a further complete frame within the payload limit does not stop the
  parser with \<open>StopIncomplete\<close>, and a prefix of a stream of valid frames never looks too large.\<close>

lemma deframe_rest:
  "deframe opts c t bs = (stop, fs, rest) \<Longrightarrow>
     (stop = StopIncomplete \<longrightarrow> length rest < kLengthBytes \<or>
        length rest < kLengthBytes + decodeLength (rest ! 0) (rest ! 1) (rest ! 2) (rest ! 3)) \<and>
     (stop = StopTooLarge \<longrightarrow> kLengthBytes \<le> length rest \<and>
        pfo_maxPayloadBytes opts < decodeLength (rest ! 0) (rest ! 1) (rest ! 2) (rest ! 3)) \<and>
     (stop = StopBudget \<longrightarrow> kLengthBytes \<le> length rest \<and>
        decodeLength (rest ! 0) (rest ! 1) (rest ! 2) (rest ! 3) \<le> pfo_maxPayloadBytes opts \<and>
        kLengthBytes + decodeLength (rest ! 0) (rest ! 1) (rest ! 2) (rest ! 3) \<le> length rest)"
proof (induction opts c t bs arbitrary: stop fs rest rule: deframe.induct)
  case (1 opts c t bs)
  let ?n = "decodeLength (bs ! 0) (bs ! 1) (bs ! 2) (bs ! 3)"
  show ?case
  proof (cases "length bs < kLengthBytes \<or> ?n > pfo_maxPayloadBytes opts \<or> length bs < kLengthBytes + ?n \<or>
      c \<ge> pfo_maxFramesPerPush opts \<or> t + (kLengthBytes + ?n) > pfo_maxFrameBytesPerPush opts")
    case True
    with 1(2) show ?thesis by (auto simp: deframe.simps[of opts c t bs] Let_def split: if_splits)
  next
    case False
    then obtain fs' where "deframe opts (Suc c) (t + (kLengthBytes + ?n)) (drop (kLengthBytes + ?n) bs) = (stop, fs', rest)"
      using 1(2) by (auto simp: deframe.simps[of opts c t bs] Let_def split: if_splits prod.splits)
    with False show ?thesis by (intro 1(1)[OF _ refl]) auto
  qed
qed

lemma first_length:
  assumes "rest @ later = concat (map frame qs)" "kLengthBytes \<le> length rest" "\<forall>x \<in> set qs. length x < 2 ^ 32"
  shows "\<exists>q qs'. qs = q # qs' \<and> decodeLength (rest ! 0) (rest ! 1) (rest ! 2) (rest ! 3) = length q"
proof (cases qs)
  case Nil
  with assms(1,2) show ?thesis by (simp add: kLengthBytes_def)
next
  case (Cons q qs')
  have "rest ! i = (frame q @ concat (map frame qs')) ! i" if "i < 4" for i
    using assms(1,2) that Cons by (metis concat.simps(2) kLengthBytes_def less_le_trans list.simps(9) nth_append)
  then show ?thesis using assms(3) Cons frame_append_nth(2)[of q "concat (map frame qs')"] by simp
qed

fun framer_run :: "allocator \<Rightarrow> bytes list \<Rightarrow> PacketFramer \<Rightarrow> (FrameResult list \<times> PacketFramer) option" where
  "framer_run al [] f = Some ([], f)"
| "framer_run al (xs # xss) f =
     (case PacketFramer_push al xs f of
        (Inl e, g) \<Rightarrow> None
      | (Inr res, g) \<Rightarrow> map_option (\<lambda>(rs, h). (res # rs, h)) (framer_run al xss g))"

lemma push_valid_stream:
  assumes inv: "pf_inv f" and al: "alloc_ok al" and nf: "\<not> pf_faulted f"
    and valid: "\<forall>x \<in> set ps. length x \<le> pf_maxPayload f"
    and stream: "pf_content f @ xs @ later = concat (map frame ps)"
    and r: "PacketFramer_push al xs f = (Inr res, g)" and ok: "fr_status res \<noteq> BufferLimitExceeded"
  shows "\<exists>qs. ps = fr_frames res @ qs \<and> pf_content g @ later = concat (map frame qs) \<and> \<not> pf_faulted g \<and>
     pf_inv g \<and> pf_options g = pf_options f \<and> (later = [] \<longrightarrow> fr_status res \<noteq> BudgetExhausted \<longrightarrow> qs = [])"
proof -
  note p = pf_push[OF inv al r]
  note ok' = pf_opts_okD[OF inv[unfolded pf_inv_def, THEN conjunct1]]
  obtain stop frames rest where d: "deframe (pf_options f) 0 0 (pf_content f @ xs) = (stop, frames, rest)"
    by (metis prod_cases3)
  have small: "\<forall>x \<in> set ps. length x < 2 ^ 32" using valid ok'(3) by (auto simp: uint32_max_def)
  have fr: "\<forall>x \<in> set frames. length x < 2 ^ 32"
    using deframe_frames_bounded[OF d] ok'(3) by (auto simp: uint32_max_def)
  from deframe_conserves[OF d] stream have "concat (map frame frames) @ rest @ later = concat (map frame ps)"
    by (metis append.assoc)
  from frames_prefix[OF this fr small] obtain qs where qs: "ps = frames @ qs" "rest @ later = concat (map frame qs)" by auto
  have qsmall: "\<forall>x \<in> set qs. length x < 2 ^ 32" using small qs by auto
  have "stop \<noteq> StopTooLarge"
    using deframe_rest[OF d] first_length[OF qs(2) _ qsmall] valid qs(1) by fastforce
  then have sp: "res = \<lparr> fr_status = (if stop = StopBudget then BudgetExhausted else if frames = [] then NeedMoreData else FramesReady),
       fr_frames = frames, fr_needsContinuation = (stop = StopBudget) \<rparr>" "pf_content g = rest" "\<not> pf_faulted g"
    using p nf d ok by (auto simp: push_spec_def split: if_splits)
  have "later = [] \<longrightarrow> stop \<noteq> StopBudget \<longrightarrow> qs = []"
  proof (intro impI, rule ccontr)
    assume m: "later = []" and b: "stop \<noteq> StopBudget" and ne: "qs \<noteq> []"
    then obtain q qs' where q: "qs = q # qs'" by (cases qs) auto
    then have "rest = frame q @ concat (map frame qs')" using qs(2) m by simp
    then have "kLengthBytes + length q \<le> length rest" and "kLengthBytes \<le> length rest" by simp_all
    moreover have "stop = StopIncomplete" using b \<open>stop \<noteq> StopTooLarge\<close> by (cases stop) auto
    ultimately show False using deframe_rest[OF d] first_length[OF qs(2) _ qsmall] q by auto
  qed
  then show ?thesis using qs sp p by auto
qed

lemma framer_run_total:
  assumes "\<forall>n. al n \<noteq> None"
  shows "\<exists>rs g. framer_run al chunks f = Some (rs, g)"
proof (induction chunks arbitrary: f)
  case (Cons xs chunks)
  have al: "al = (\<lambda>n. Some (the (al n)))" using assms by auto
  have "fst (PacketFramer_push al xs f) \<noteq> Inl e" for e
    using pf_append_total[of "\<lambda>n. the (al n)" xs f, folded al]
    by (auto simp: PacketFramer_push_def PacketFramer_deliver_def Let_def split: prod.splits sum.splits)
  then obtain r h where "PacketFramer_push al xs f = (Inr r, h)"
    by (metis surj_pair fst_conv sum.exhaust)
  with Cons.IH[of h] show ?case by auto
qed simp

lemma framer_run_stream:
  assumes "pf_inv f" "alloc_ok al" "\<not> pf_faulted f" "\<forall>x \<in> set ps. length x \<le> pf_maxPayload f"
    and "pf_content f @ concat chunks = concat (map frame ps)"
    and "framer_run al chunks f = Some (rs, g)" "\<forall>r \<in> set rs. fr_status r \<noteq> BufferLimitExceeded"
  shows "\<exists>qs. ps = concat (map fr_frames rs) @ qs \<and>
     (rs \<noteq> [] \<longrightarrow> fr_status (last rs) \<noteq> BudgetExhausted \<longrightarrow> qs = [])"
  using assms
proof (induction chunks arbitrary: f ps rs)
  case (Cons xs chunks)
  from Cons.prems(6) obtain r h rs' where r: "PacketFramer_push al xs f = (Inr r, h)"
    and run: "framer_run al chunks h = Some (rs', g)" and rs: "rs = r # rs'"
    by (auto split: prod.splits sum.splits)
  from push_valid_stream[OF Cons.prems(1-4) _ r, of "concat chunks"] Cons.prems(5,7) rs
  obtain qs where q: "ps = fr_frames r @ qs" "pf_content h @ concat chunks = concat (map frame qs)"
    "\<not> pf_faulted h" "pf_inv h" "pf_options h = pf_options f"
    "concat chunks = [] \<longrightarrow> fr_status r \<noteq> BudgetExhausted \<longrightarrow> qs = []" by auto
  from Cons.IH[OF q(4) Cons.prems(2) q(3) _ q(2) run] Cons.prems(4,7) q(1,5) rs
  obtain qs' where "qs = concat (map fr_frames rs') @ qs'"
    "rs' \<noteq> [] \<longrightarrow> fr_status (last rs') \<noteq> BudgetExhausted \<longrightarrow> qs' = []" by auto
  moreover have "rs' = [] \<Longrightarrow> chunks = []" using run by (cases chunks) (auto split: prod.splits sum.splits)
  ultimately show ?case using q(1,6) rs by (cases "rs' = []") auto
qed simp

lemma PacketFramer_new_inv:
  assumes "PacketFramer_new opts = Inr f" "pfo_maxBufferedBytes opts \<le> size_max"
  shows "pf_inv f \<and> pf_content f = [] \<and> \<not> pf_faulted f"
  using assms
  by (auto simp: PacketFramer_new_def pf_inv_def pf_opts_ok_def pf_content_def Let_def ring_def split: if_splits option.splits)

lemma PacketFramer_encode_frame:
  "PacketFramer_encode f x = Some y \<Longrightarrow> y = frame x \<and> length x \<le> pf_maxPayload f"
  by (auto simp: PacketFramer_encode_def frame_def uint32_max_def take_bit_nat_eq_self split: if_splits)

text \<open>A complete frame within the limits at the front of the buffer is handed out.\<close>

lemma deframe_progress:
  assumes "pf_opts_ok opts" "kLengthBytes \<le> length bs" "n = decodeLength (bs ! 0) (bs ! 1) (bs ! 2) (bs ! 3)"
    and "n \<le> pfo_maxPayloadBytes opts" "kLengthBytes + n \<le> length bs"
    and "deframe opts 0 0 bs = (stop, frames, rest)"
  shows "frames \<noteq> []"
  using assms(6) deframe_step[OF assms(2,3,4,5), of 0 0] pf_opts_okD[OF assms(1)] assms(4)
  by (auto split: prod.splits)

lemma pf_faulted_empty: "pf_inv f \<Longrightarrow> pf_faulted f \<Longrightarrow> pf_content f = []"
  by (metis length_0_conv length_pf_content pf_inv_def)

lemma framer_push_cases:
  assumes "pf_inv f" "alloc_ok al" "PacketFramer_push al xs f = (Inr res, g)"
  obtains (stopped) "fr_frames res = []" "fr_status res \<in> {Faulted, BufferLimitExceeded, FrameTooLarge}"
      "pf_faulted g" "pf_content g = []"
  | (parsed) stop where "deframe (pf_options f) 0 0 (pf_content f @ xs) = (stop, fr_frames res, pf_content g)"
      "stop \<noteq> StopTooLarge" "\<not> pf_faulted f" "\<not> pf_faulted g"
      "fr_status res = (if stop = StopBudget then BudgetExhausted else if fr_frames res = [] then NeedMoreData else FramesReady)"
  using pf_push[OF assms] pf_faulted_empty[OF assms(1)]
  by (auto simp: push_spec_def split: if_splits prod.splits)

section \<open>Retained memory\<close>











section \<open>The ring as a byte queue\<close>

interpretation framer_queue: byte_queue pf_inv pf_content
    "\<lambda>f xs. xs \<noteq> [] \<and> \<not> pf_faulted f \<and> pf_bufferedBytes f + length xs \<le> pf_maxBuffered f"
    "\<lambda>xs f. snd (PacketFramer_appendBytes Some xs f)" "PacketFramer_consume Some"
proof unfold_locales
  fix f :: PacketFramer and xs :: bytes
  assume a: "pf_inv f" "xs \<noteq> [] \<and> \<not> pf_faulted f \<and> pf_bufferedBytes f + length xs \<le> pf_maxBuffered f"
  have "PacketFramer_appendBytes Some xs f = (Inr (), snd (PacketFramer_appendBytes Some xs f))"
    using pf_append_total[of "\<lambda>n. n" xs f] by (metis prod.collapse)
  with pf_append[OF a(1) alloc_ok_Some] a(2)
  show "pf_inv (snd (PacketFramer_appendBytes Some xs f))"
    and "pf_content (snd (PacketFramer_appendBytes Some xs f)) = pf_content f @ xs" by blast+
qed (use pf_consume[OF _ alloc_ok_Some] in auto)

section \<open>Properties\<close>

lemma framer_push_nothing: "\<exists>res h. PacketFramer_push al [] g = (Inr res, h)"
proof -
  have "\<exists>res h. PacketFramer_deliver al g = (Inr res, h)"
    by (simp add: PacketFramer_deliver_def Let_def split: prod.split)
  then show ?thesis by (simp add: PacketFramer_push_def)
qed

text \<open>Facts for the evaluation of a framer on concrete bytes.\<close>

lemma char_of_small:
  "char_of (0::nat) = CHR 0x00" "char_of (Suc 0) = CHR 0x01" "char_of (2::nat) = CHR 0x02"
  by (simp_all add: char_of_def bit_Suc_0_iff)

lemmas pf_eval = PacketFramer_push_def PacketFramer_deliver_def PacketFramer_pushLoop.simps
  PacketFramer_byteAt_def PacketFramer_copyPayload_def PacketFramer_appendBytes_def
  PacketFramer_growStorage_def PacketFramer_storeBytes_def growCapacity.simps
  PacketFramer_copyBuffered_def PacketFramer_updateRetentionState_def PacketFramer_consume_def
  PacketFramer_clearBuffer_def PacketFramer_trimRetainedCapacity_def size_max_def uint32_max_def
  kLengthBytes_def blit_def vec_zero_def u64_inc_def decodeLength_def Let_def

definition demo_options :: PacketFramerOptions where
  "demo_options = \<lparr> pfo_maxPayloadBytes = 3, pfo_maxBufferedBytes = 14, pfo_maxFramesPerPush = 1,
     pfo_maxFrameBytesPerPush = 7, pfo_maxRetainedCapacityBytes = Some 8, pfo_trimThresholdBytes = Some 4 \<rparr>"

definition demo_framer :: PacketFramer where
  "demo_framer = \<lparr> pf_options = demo_options, pf_storage = [], pf_capacity = 0, pf_head = 0,
     pf_bufferedBytes = 0, pf_peakRetainedCapacityBytes = 0, pf_trimCount = 0,
     pf_trimArmed = False, pf_faulted = False \<rparr>"

definition demo_bytes :: bytes where
  "demo_bytes = [CHR 0x00, CHR 0x00, CHR 0x00, CHR 0x02, CHR ''a'', CHR ''b'',
                 CHR 0x00, CHR 0x00, CHR 0x00, CHR 0x01, CHR ''c'']"

lemmas demo_defs = demo_options_def demo_framer_def demo_bytes_def

lemma demo_new: "PacketFramer_new demo_options = Inr demo_framer"
  by (simp add: PacketFramer_new_def demo_defs pf_eval)

lemma demo_inv: "pf_inv demo_framer"
  by (simp add: pf_inv_def pf_opts_ok_def demo_defs pf_eval)



text \<open>C2. Payloads that \<open>encode\<close> accepts, concatenated and cut into chunks at any points, come
  back in order. Every run of pushes returns; unless a chunk overflows the buffer limit, the frames
  handed out are a prefix of the payloads, and all of them once the last push is not cut short by
  its budget.\<close>

theorem framer_stream_roundtrip:
  assumes new: "PacketFramer_new opts = Inr f" and width: "pfo_maxBufferedBytes opts \<le> size_max"
    and al: "alloc_ok al" "\<forall>n. al n \<noteq> None"
    and enc: "map (PacketFramer_encode f) ps = map Some encoded" and cut: "concat chunks = concat encoded"
  shows "\<exists>rs g. framer_run al chunks f = Some (rs, g) \<and>
    ((\<forall>r \<in> set rs. fr_status r \<noteq> BufferLimitExceeded) \<longrightarrow>
      (\<exists>qs. ps = concat (map fr_frames rs) @ qs \<and>
        (rs \<noteq> [] \<longrightarrow> fr_status (last rs) \<noteq> BudgetExhausted \<longrightarrow> qs = [])))"
proof -
  have "encoded = map frame ps \<and> (\<forall>x \<in> set ps. length x \<le> pf_maxPayload f)" using enc
  proof (induction ps arbitrary: encoded)
    case (Cons x ps)
    then show ?case by (cases encoded) (auto dest: PacketFramer_encode_frame)
  qed simp
  then have e: "encoded = map frame ps" and small: "\<forall>x \<in> set ps. length x \<le> pf_maxPayload f" by auto
  note n = PacketFramer_new_inv[OF new width]
  obtain rs g where r: "framer_run al chunks f = Some (rs, g)" using framer_run_total[OF al(2)] by metis
  have "pf_content f @ concat chunks = concat (map frame ps)" using n e cut by simp
  from framer_run_stream[OF _ al(1) _ small this r] n r show ?thesis by auto
qed

lemma demo_run: "framer_run Some [take 7 demo_bytes, drop 7 demo_bytes, []] demo_framer =
    Some (rs, g) \<Longrightarrow> map fr_frames rs = [[''ab''], [''c''], []] \<and>
      map fr_status rs = [FramesReady, FramesReady, NeedMoreData]"
  by (auto simp: demo_defs pf_eval)

theorem framer_stream_roundtrip_witness:
  "map (PacketFramer_encode demo_framer) [''ab'', ''c''] = map Some [take 6 demo_bytes, drop 6 demo_bytes] \<and>
   (\<exists>rs g. framer_run Some [take 7 demo_bytes, drop 7 demo_bytes, []] demo_framer = Some (rs, g) \<and>
     (\<exists>qs. [''ab'', ''c''] = concat (map fr_frames rs) @ qs))"
proof -
  have e: "map (PacketFramer_encode demo_framer) [''ab'', ''c''] = map Some [take 6 demo_bytes, drop 6 demo_bytes]"
    by (simp add: PacketFramer_encode_def appendLength_def demo_defs pf_eval char_of_small flip: numeral_2_eq_2)
  have w: "pfo_maxBufferedBytes demo_options \<le> size_max" by (simp add: demo_defs size_max_def)
  from framer_stream_roundtrip[OF demo_new w alloc_ok_Some _ e, of "[take 7 demo_bytes, drop 7 demo_bytes, []]"]
  obtain rs g where r: "framer_run Some [take 7 demo_bytes, drop 7 demo_bytes, []] demo_framer = Some (rs, g)"
    and q: "(\<forall>r \<in> set rs. fr_status r \<noteq> BufferLimitExceeded) \<longrightarrow> (\<exists>qs. [''ab'', ''c''] = concat (map fr_frames rs) @ qs)"
    by auto
  have "BufferLimitExceeded \<notin> set (map fr_status rs)" by (simp add: demo_run[OF r] del: set_map)
  then have "\<forall>r \<in> set rs. fr_status r \<noteq> BufferLimitExceeded" by force
  with q e r show ?thesis by blast
qed

text \<open>C3. A push stays within its budgets and makes progress: it hands out at most
  \<open>maxFramesPerPush\<close> frames of at most \<open>maxFrameBytesPerPush\<close> framed bytes, each payload within
  the payload limit; when it reports \<open>BudgetExhausted\<close> it has handed out a frame, and a following push
  of no bytes hands out another one or reports an oversized frame behind it.\<close>

theorem framer_push_budget:
  assumes inv: "pf_inv f" and al: "alloc_ok al" and r: "PacketFramer_push al xs f = (Inr res, g)"
  shows "length (fr_frames res) \<le> pfo_maxFramesPerPush (pf_options f) \<and>
    length (concat (map frame (fr_frames res))) \<le> pfo_maxFrameBytesPerPush (pf_options f) \<and>
    (\<forall>x \<in> set (fr_frames res). length x \<le> pf_maxPayload f) \<and>
    (fr_status res = BudgetExhausted \<longrightarrow> fr_frames res \<noteq> [] \<and>
      (\<exists>res' h. PacketFramer_push al [] g = (Inr res', h) \<and>
        (fr_frames res' \<noteq> [] \<or> fr_status res' = FrameTooLarge)))"
proof (cases rule: framer_push_cases[OF assms])
  case 1
  then show ?thesis by auto
next
  case (2 stop)
  note ok = inv[unfolded pf_inv_def, THEN conjunct1]
  have "fr_frames res \<noteq> [] \<and> (\<exists>res' h. PacketFramer_push al [] g = (Inr res', h) \<and>
        (fr_frames res' \<noteq> [] \<or> fr_status res' = FrameTooLarge))" if b: "fr_status res = BudgetExhausted"
  proof -
    have s: "stop = StopBudget" using 2(5) b by (auto split: if_splits)
    note rest = deframe_rest[OF 2(1)]
    have "fr_frames res \<noteq> []"
    proof
      assume e: "fr_frames res = []"
      with deframe_conserves[OF 2(1)] have "pf_content g = pf_content f @ xs" by simp
      with rest s deframe_progress[OF ok _ refl _ _ 2(1)] e show False by simp
    qed
    obtain res' h where p: "PacketFramer_push al [] g = (Inr res', h)"
      using framer_push_nothing by blast
    note g = pf_push[OF inv al r]
    obtain st fs rs where d: "deframe (pf_options g) 0 0 (pf_content g) = (st, fs, rs)" by (metis prod_cases3)
    have "fs \<noteq> []" using deframe_progress[OF _ _ refl _ _ d] g ok rest s by simp
    moreover have "length (pf_content g) \<le> pf_maxBuffered g" using g by (auto simp: pf_inv_def)
    ultimately have "fr_frames res' \<noteq> [] \<or> fr_status res' = FrameTooLarge"
      using pf_push[OF conjunct1[OF g] al p] d 2(4) by (auto simp: push_spec_def split: if_splits)
    with p \<open>fr_frames res \<noteq> []\<close> show ?thesis by blast
  qed
  with deframe_frames_bounded[OF 2(1)] show ?thesis by auto
qed

theorem framer_push_budget_witness:
  "\<exists>g. PacketFramer_push Some demo_bytes demo_framer =
      (Inr \<lparr> fr_status = BudgetExhausted, fr_frames = [''ab''], fr_needsContinuation = True \<rparr>, g) \<and>
    (\<exists>res' h. PacketFramer_push Some [] g = (Inr res', h) \<and>
        (fr_frames res' \<noteq> [] \<or> fr_status res' = FrameTooLarge))"
proof -
  obtain g where g: "PacketFramer_push Some demo_bytes demo_framer =
      (Inr \<lparr> fr_status = BudgetExhausted, fr_frames = [''ab''], fr_needsContinuation = True \<rparr>, g)"
    by (simp add: demo_defs pf_eval)
  from framer_push_budget[OF demo_inv alloc_ok_Some g] g show ?thesis by auto
qed



end
