(* ===== verification/Buffer.thy ===== *)
theory Buffer
  imports Gamenet_Prelude
begin

text \<open>
  The byte buffer of a connection: \<open>src/src/core/net/Buffer.cc\<close> and its header. A borrowed
  pointer into the buffer is an index into \<open>buf_buffer\<close>; a null \<open>data\<close> pointer is
  \<open>None\<close> and a null \<open>savedErrno\<close> is \<open>False\<close>. \<open>buf_capacity\<close> is \<open>buffer_.capacity()\<close>. The
  system call of \<open>readFd\<close> is a parameter that maps the bytes it may deliver to an error number
  or to the bytes it delivers. The POSIX branch of \<open>readFd\<close> is the one modelled.
\<close>

section \<open>Data\<close>

record BufferRetentionOptions =
  bro_maxRetainedCapacityBytes :: nat
  bro_trimThresholdBytes :: nat

record BufferRetentionSnapshot =
  brs_retainedCapacityBytes :: nat
  brs_peakRetainedCapacityBytes :: nat
  brs_trimCount :: nat
  brs_trimArmed :: bool

record Buffer =
  buf_retentionOptions :: BufferRetentionOptions
  buf_buffer :: bytes
  buf_capacity :: nat
  buf_readerIndex :: nat
  buf_writerIndex :: nat
  buf_peakRetainedCapacityBytes :: nat
  buf_trimCount :: nat
  buf_trimArmed :: bool

abbreviation buf_maxRetained :: "Buffer \<Rightarrow> nat" where
  "buf_maxRetained b \<equiv> bro_maxRetainedCapacityBytes (buf_retentionOptions b)"

abbreviation buf_threshold :: "Buffer \<Rightarrow> nat" where
  "buf_threshold b \<equiv> bro_trimThresholdBytes (buf_retentionOptions b)"

section \<open>Operations\<close>

definition kCheapPrepend :: nat where
  "kCheapPrepend = 8"

definition kInitialSize :: nat where
  "kInitialSize = 1024"

definition BufferRetentionOptions_validate :: "BufferRetentionOptions \<Rightarrow> unit outcome" where
  "BufferRetentionOptions_validate opts =
     (if bro_maxRetainedCapacityBytes opts < kCheapPrepend + kInitialSize then Inl InvalidArgument
      else if bro_trimThresholdBytes opts > sz_sub (bro_maxRetainedCapacityBytes opts) kCheapPrepend
           then Inl InvalidArgument
      else Inr ())"

definition Buffer_new :: "allocator \<Rightarrow> BufferRetentionOptions \<Rightarrow> Buffer outcome" where
  "Buffer_new al opts =
     (case al (kCheapPrepend + kInitialSize) of
        None \<Rightarrow> Inl BadAlloc
      | Some cap \<Rightarrow>
          (case BufferRetentionOptions_validate opts of
             Inl e \<Rightarrow> Inl e
           | Inr _ \<Rightarrow> Inr \<lparr> buf_retentionOptions = opts, buf_buffer = vec_zero (kCheapPrepend + kInitialSize),
               buf_capacity = cap, buf_readerIndex = kCheapPrepend, buf_writerIndex = kCheapPrepend,
               buf_peakRetainedCapacityBytes = cap, buf_trimCount = 0, buf_trimArmed = False \<rparr>))"

definition Buffer_readableBytes :: "Buffer \<Rightarrow> nat" where
  "Buffer_readableBytes b = sz_sub (buf_writerIndex b) (buf_readerIndex b)"

definition Buffer_writableBytes :: "Buffer \<Rightarrow> nat" where
  "Buffer_writableBytes b = sz_sub (length (buf_buffer b)) (buf_writerIndex b)"

definition Buffer_prependableBytes :: "Buffer \<Rightarrow> nat" where
  "Buffer_prependableBytes b = buf_readerIndex b"

definition Buffer_retentionSnapshot :: "Buffer \<Rightarrow> BufferRetentionSnapshot" where
  "Buffer_retentionSnapshot b =
     \<lparr> brs_retainedCapacityBytes = buf_capacity b,
       brs_peakRetainedCapacityBytes = buf_peakRetainedCapacityBytes b,
       brs_trimCount = buf_trimCount b, brs_trimArmed = buf_trimArmed b \<rparr>"

definition Buffer_trimRetainedCapacity :: "allocator \<Rightarrow> Buffer \<Rightarrow> bool \<times> Buffer" where
  "Buffer_trimRetainedCapacity al b =
     (if \<not> buf_trimArmed b \<or> Buffer_readableBytes b > buf_threshold b then (False, b)
      else case al (buf_maxRetained b) of
        None \<Rightarrow> (False, b)
      | Some cap \<Rightarrow>
          (let readable = Buffer_readableBytes b;
               fresh = vec_zero (buf_maxRetained b);
               trimmed = (if readable \<noteq> 0
                          then blit fresh kCheapPrepend (take readable (drop (buf_readerIndex b) (buf_buffer b)))
                          else fresh)
           in (True, b\<lparr> buf_buffer := trimmed, buf_capacity := cap, buf_readerIndex := kCheapPrepend,
                        buf_writerIndex := kCheapPrepend + readable,
                        buf_trimCount := u64_inc (buf_trimCount b),
                        buf_trimArmed := cap > buf_maxRetained b \<rparr>)))"

definition Buffer_retrieveAll :: "allocator \<Rightarrow> Buffer \<Rightarrow> Buffer" where
  "Buffer_retrieveAll al b =
     snd (Buffer_trimRetainedCapacity al (b\<lparr> buf_readerIndex := kCheapPrepend, buf_writerIndex := kCheapPrepend \<rparr>))"

definition Buffer_retrieve :: "allocator \<Rightarrow> nat \<Rightarrow> Buffer \<Rightarrow> Buffer" where
  "Buffer_retrieve al len b =
     (if len < Buffer_readableBytes b
      then snd (Buffer_trimRetainedCapacity al (b\<lparr> buf_readerIndex := buf_readerIndex b + len \<rparr>))
      else Buffer_retrieveAll al b)"

text \<open>The argument is the index of \<open>end\<close> relative to the start of the vector; \<open>peek()\<close> is at
  \<open>readerIndex_\<close>.\<close>

definition Buffer_retrieveUntil :: "allocator \<Rightarrow> int \<Rightarrow> Buffer \<Rightarrow> unit outcome \<times> Buffer" where
  "Buffer_retrieveUntil al endpoint b =
     (let first = int (buf_readerIndex b); last = first + int (Buffer_readableBytes b) in
      if endpoint < first \<or> endpoint > last then (Inl OutOfRange, b)
      else (Inr (), Buffer_retrieve al (nat (endpoint - first)) b))"

definition Buffer_retrieveAsString :: "allocator \<Rightarrow> nat \<Rightarrow> Buffer \<Rightarrow> bytes \<times> Buffer" where
  "Buffer_retrieveAsString al len b =
     (let len' = min len (Buffer_readableBytes b);
          result = take len' (drop (buf_readerIndex b) (buf_buffer b))
      in (result, Buffer_retrieve al len' b))"

definition Buffer_retrieveAllAsString :: "allocator \<Rightarrow> Buffer \<Rightarrow> bytes \<times> Buffer" where
  "Buffer_retrieveAllAsString al b = Buffer_retrieveAsString al (Buffer_readableBytes b) b"

definition Buffer_updateRetentionState :: "Buffer \<Rightarrow> Buffer" where
  "Buffer_updateRetentionState b =
     (let b1 = b\<lparr> buf_peakRetainedCapacityBytes := max (buf_peakRetainedCapacityBytes b) (buf_capacity b) \<rparr>
      in if buf_capacity b1 > buf_maxRetained b1 then b1\<lparr> buf_trimArmed := True \<rparr> else b1)"

text \<open>\<open>std::vector<char>::resize\<close>: a shrink or a growth within the capacity keeps the storage, a
  larger growth asks the allocator.\<close>

definition Buffer_resize :: "allocator \<Rightarrow> nat \<Rightarrow> Buffer \<Rightarrow> Buffer outcome" where
  "Buffer_resize al n b =
     (if n \<le> length (buf_buffer b) then Inr (b\<lparr> buf_buffer := take n (buf_buffer b) \<rparr>)
      else let grown = buf_buffer b @ vec_zero (n - length (buf_buffer b))
           in if n \<le> buf_capacity b then Inr (b\<lparr> buf_buffer := grown \<rparr>)
              else case al n of None \<Rightarrow> Inl BadAlloc
                   | Some cap \<Rightarrow> Inr (b\<lparr> buf_buffer := grown, buf_capacity := cap \<rparr>))"

definition Buffer_makeSpace :: "allocator \<Rightarrow> nat \<Rightarrow> Buffer \<Rightarrow> unit outcome \<times> Buffer" where
  "Buffer_makeSpace al len b =
     (if sz_sub (sz_add (Buffer_writableBytes b) (Buffer_prependableBytes b)) kCheapPrepend < len
      then (case Buffer_resize al (sz_add (buf_writerIndex b) len) b of
              Inl e \<Rightarrow> (Inl e, b)
            | Inr b1 \<Rightarrow> (Inr (), Buffer_updateRetentionState b1))
      else let readable = Buffer_readableBytes b
           in (Inr (), b\<lparr> buf_buffer := blit (buf_buffer b) kCheapPrepend
                                          (take readable (drop (buf_readerIndex b) (buf_buffer b))),
                          buf_readerIndex := kCheapPrepend,
                          buf_writerIndex := kCheapPrepend + readable \<rparr>))"

definition Buffer_ensureWritableBytes :: "allocator \<Rightarrow> nat \<Rightarrow> Buffer \<Rightarrow> unit outcome \<times> Buffer" where
  "Buffer_ensureWritableBytes al len b =
     (if Buffer_writableBytes b < len then Buffer_makeSpace al len b else (Inr (), b))"

definition Buffer_hasWritten :: "nat \<Rightarrow> Buffer \<Rightarrow> unit outcome \<times> Buffer" where
  "Buffer_hasWritten len b =
     (if len > Buffer_writableBytes b then (Inl OutOfRange, b)
      else (Inr (), b\<lparr> buf_writerIndex := buf_writerIndex b + len \<rparr>))"

definition Buffer_append :: "allocator \<Rightarrow> bytes option \<Rightarrow> nat \<Rightarrow> Buffer \<Rightarrow> unit outcome \<times> Buffer" where
  "Buffer_append al data len b =
     (if len = 0 then (Inr (), b)
      else case data of
        None \<Rightarrow> (Inl InvalidArgument, b)
      | Some xs \<Rightarrow>
          (case Buffer_ensureWritableBytes al len b of
             (Inl e, b1) \<Rightarrow> (Inl e, b1)
           | (Inr _, b1) \<Rightarrow>
               Buffer_hasWritten len (b1\<lparr> buf_buffer := blit (buf_buffer b1) (buf_writerIndex b1) (take len xs) \<rparr>)))"

definition Buffer_appendString :: "allocator \<Rightarrow> bytes \<Rightarrow> Buffer \<Rightarrow> unit outcome \<times> Buffer" where
  "Buffer_appendString al xs b = Buffer_append al (Some xs) (length xs) b"

definition readFd_extraBytes :: nat where
  "readFd_extraBytes = 65536"

text \<open>The result of a read: an error number, or the bytes the call delivered.\<close>

type_synonym readv = "nat \<Rightarrow> int + bytes"

definition Buffer_readFd :: "allocator \<Rightarrow> readv \<Rightarrow> bool \<Rightarrow> nat \<Rightarrow> Buffer \<Rightarrow> (int + nat) outcome \<times> Buffer" where
  "Buffer_readFd al rd savedErrno maxReadBytes b =
     (if \<not> savedErrno then (Inl InvalidArgument, b)
      else if maxReadBytes = 0 then (Inr (Inr 0), b)
      else let writable = min (Buffer_writableBytes b) maxReadBytes;
               extra = min readFd_extraBytes (maxReadBytes - writable)
           in case rd (writable + extra) of
                Inl err \<Rightarrow> (Inr (Inl err), b)
              | Inr xs \<Rightarrow>
                  (let b1 = b\<lparr> buf_buffer := blit (buf_buffer b) (buf_writerIndex b) (take writable xs) \<rparr> in
                   if length xs \<le> writable
                   then (Inr (Inr (length xs)), b1\<lparr> buf_writerIndex := buf_writerIndex b + length xs \<rparr>)
                   else case Buffer_append al (Some (drop writable xs)) (length xs - writable)
                               (b1\<lparr> buf_writerIndex := length (buf_buffer b1) \<rparr>) of
                          (Inl e, b2) \<Rightarrow> (Inl e, b2)
                        | (Inr _, b2) \<Rightarrow> (Inr (Inr (length xs)), b2)))"

text \<open>\<open>writeFd\<close> offers the readable bytes to the write call and consumes nothing.\<close>

definition Buffer_writeFd :: "(bytes \<Rightarrow> int + nat) \<Rightarrow> bool \<Rightarrow> Buffer \<Rightarrow> (int + nat) outcome" where
  "Buffer_writeFd wr savedErrno b =
     (if \<not> savedErrno then Inl InvalidArgument
      else Inr (wr (take (Buffer_readableBytes b) (drop (buf_readerIndex b) (buf_buffer b)))))"

section \<open>Invariant and abstraction\<close>

definition buf_inv :: "Buffer \<Rightarrow> bool" where
  "buf_inv b \<longleftrightarrow> kCheapPrepend + kInitialSize \<le> buf_maxRetained b \<and> kCheapPrepend + buf_threshold b \<le> buf_maxRetained b \<and>
     buf_maxRetained b \<le> size_max \<and>
     kCheapPrepend \<le> buf_readerIndex b \<and> buf_readerIndex b \<le> buf_writerIndex b \<and>
     buf_writerIndex b \<le> length (buf_buffer b) \<and> length (buf_buffer b) \<le> buf_capacity b \<and>
     length (buf_buffer b) \<le> size_max \<and> (buf_maxRetained b < buf_capacity b \<longrightarrow> buf_trimArmed b)"

definition buf_content :: "Buffer \<Rightarrow> bytes" where
  "buf_content b = take (buf_writerIndex b - buf_readerIndex b) (drop (buf_readerIndex b) (buf_buffer b))"

lemma buf_sizes [simp]:
  assumes "buf_inv b"
  shows "Buffer_readableBytes b = length (buf_content b)"
    and "Buffer_writableBytes b = length (buf_buffer b) - buf_writerIndex b"
  using assms by (auto simp: buf_inv_def Buffer_readableBytes_def Buffer_writableBytes_def buf_content_def)

lemma buf_writer: "buf_inv b \<Longrightarrow> buf_writerIndex b = buf_readerIndex b + length (buf_content b)"
  by (auto simp: buf_inv_def buf_content_def)

lemma buf_readable_bytes: "buf_inv b \<Longrightarrow>
    take (length (buf_content b)) (drop (buf_readerIndex b) (buf_buffer b)) = buf_content b"
  by (auto simp: buf_inv_def buf_content_def)

lemma blit_content:
  assumes "k + length xs \<le> length z"
  shows "take (length xs) (drop k (blit z k xs)) = xs"
  using assms by (simp add: blit_def)

text \<open>The content at the front of a vector that is large enough.\<close>

lemma buf_relocate:
  assumes "buf_inv b" "kCheapPrepend + length (buf_content b) \<le> length z" "length z \<le> size_max" "length z \<le> cap"
    and "buf_maxRetained b < cap \<longrightarrow> armed"
  shows "buf_inv (b\<lparr> buf_buffer := blit z kCheapPrepend (buf_content b), buf_capacity := cap,
             buf_readerIndex := kCheapPrepend, buf_writerIndex := kCheapPrepend + length (buf_content b),
             buf_trimCount := n, buf_trimArmed := armed \<rparr>)"
    and "take (length (buf_content b)) (drop kCheapPrepend (blit z kCheapPrepend (buf_content b))) = buf_content b"
  using assms blit_content[of kCheapPrepend "buf_content b" z] by (auto simp: buf_inv_def)

lemma buf_trim:
  assumes inv: "buf_inv b" and al: "alloc_ok al" and r: "Buffer_trimRetainedCapacity al b = (t, c)"
  shows "buf_inv c \<and> buf_content c = buf_content b \<and> buf_retentionOptions c = buf_retentionOptions b \<and> (\<not> t \<longrightarrow> c = b)"
proof (cases "\<not> buf_trimArmed b \<or> length (buf_content b) > buf_threshold b \<or> al (buf_maxRetained b) = None")
  case True
  with r inv show ?thesis by (auto simp: Buffer_trimRetainedCapacity_def split: option.splits)
next
  case False
  then obtain cap where cap: "al (buf_maxRetained b) = Some cap" by auto
  note b = inv[unfolded buf_inv_def]
  have f: "kCheapPrepend + length (buf_content b) \<le> length (vec_zero (buf_maxRetained b))"
    using False b by auto
  have s: "length (vec_zero (buf_maxRetained b)) \<le> size_max" using b by simp
  have c: "length (vec_zero (buf_maxRetained b)) \<le> cap" using alloc_okD[OF al cap] by simp
  have z: "blit (vec_zero (buf_maxRetained b)) kCheapPrepend (buf_content b) = vec_zero (buf_maxRetained b)"
    if "buf_content b = []" using that b by (simp add: buf_inv_def)
  have e: "c = b\<lparr> buf_buffer := blit (vec_zero (buf_maxRetained b)) kCheapPrepend (buf_content b), buf_capacity := cap,
             buf_readerIndex := kCheapPrepend, buf_writerIndex := kCheapPrepend + length (buf_content b),
             buf_trimCount := u64_inc (buf_trimCount b), buf_trimArmed := cap > buf_maxRetained b \<rparr>" "t"
    using r False cap z by (auto simp: Buffer_trimRetainedCapacity_def inv buf_readable_bytes[OF inv] Let_def)
  show ?thesis
    using buf_relocate(1)[OF inv f s c, of "cap > buf_maxRetained b"] buf_relocate(2)[OF inv f s c, of True] e(2)
    by (auto simp: e(1) buf_content_def)
qed

lemma buf_skip:
  assumes "buf_inv b" "n \<le> length (buf_content b)"
  shows "buf_inv (b\<lparr> buf_readerIndex := buf_readerIndex b + n \<rparr>)"
    and "buf_content (b\<lparr> buf_readerIndex := buf_readerIndex b + n \<rparr>) = drop n (buf_content b)"
  using assms by (auto simp: buf_inv_def buf_content_def drop_take add.commute)

lemma buf_retrieve:
  assumes inv: "buf_inv b" and al: "alloc_ok al"
  shows "buf_inv (Buffer_retrieve al n b) \<and> buf_content (Buffer_retrieve al n b) = drop n (buf_content b) \<and>
     buf_retentionOptions (Buffer_retrieve al n b) = buf_retentionOptions b"
proof (cases "n < length (buf_content b)")
  case True
  with buf_skip[OF inv, of n] buf_trim[OF _ al prod.collapse[symmetric], of "b\<lparr> buf_readerIndex := buf_readerIndex b + n \<rparr>"]
  show ?thesis by (simp add: Buffer_retrieve_def inv)
next
  case False
  let ?b = "b\<lparr> buf_readerIndex := kCheapPrepend, buf_writerIndex := kCheapPrepend \<rparr>"
  have "buf_inv ?b" "buf_content ?b = []" using inv by (auto simp: buf_inv_def buf_content_def)
  with False buf_trim[OF _ al prod.collapse[symmetric], of ?b]
  show ?thesis by (simp add: Buffer_retrieve_def Buffer_retrieveAll_def inv)
qed

lemma buf_updateRetentionState_simps [simp]:
  "buf_retentionOptions (Buffer_updateRetentionState b) = buf_retentionOptions b"
  "buf_buffer (Buffer_updateRetentionState b) = buf_buffer b"
  "buf_capacity (Buffer_updateRetentionState b) = buf_capacity b"
  "buf_readerIndex (Buffer_updateRetentionState b) = buf_readerIndex b"
  "buf_writerIndex (Buffer_updateRetentionState b) = buf_writerIndex b"
  "buf_trimArmed (Buffer_updateRetentionState b) = (buf_trimArmed b \<or> buf_maxRetained b < buf_capacity b)"
  by (auto simp: Buffer_updateRetentionState_def Let_def)

lemma buf_makeSpace:
  assumes inv: "buf_inv b" and al: "alloc_ok al" and w: "buf_writerIndex b + n \<le> size_max"
    and lt: "Buffer_writableBytes b < n"
  shows "case Buffer_makeSpace al n b of
      (Inl e, c) \<Rightarrow> e = BadAlloc \<and> c = b
    | (Inr _, c) \<Rightarrow> buf_inv c \<and> buf_content c = buf_content b \<and>
        n \<le> Buffer_writableBytes c \<and> buf_retentionOptions c = buf_retentionOptions b"
proof -
  note b = inv[unfolded buf_inv_def]
  have a1: "sz_add (Buffer_writableBytes b) (Buffer_prependableBytes b) = length (buf_buffer b) - buf_writerIndex b + buf_readerIndex b"
    using b by (subst sz_add_small) (auto simp: Buffer_prependableBytes_def inv)
  have a2: "sz_sub (sz_add (Buffer_writableBytes b) (Buffer_prependableBytes b)) kCheapPrepend =
      length (buf_buffer b) - buf_writerIndex b + buf_readerIndex b - kCheapPrepend" (is "?room = _")
    unfolding a1 using b by (subst sz_sub_le) auto
  have w': "sz_add (buf_writerIndex b) n = buf_writerIndex b + n" by (rule sz_add_small[OF w])
  show ?thesis
  proof (cases "?room < n")
    case True
    have grow: "\<not> buf_writerIndex b + n \<le> length (buf_buffer b)" using lt b by (auto simp: inv)
    define grown where "grown = buf_buffer b @ vec_zero (buf_writerIndex b + n - length (buf_buffer b))"
    have g: "length grown = buf_writerIndex b + n" "take (buf_writerIndex b - buf_readerIndex b) (drop (buf_readerIndex b) grown) = buf_content b"
      using b grow by (auto simp: grown_def buf_content_def)
    have k: "buf_inv d \<and> buf_content d = buf_content b \<and> n \<le> Buffer_writableBytes d \<and> buf_retentionOptions d = buf_retentionOptions b"
      if d: "d = Buffer_updateRetentionState (b\<lparr> buf_buffer := grown, buf_capacity := cap \<rparr>)" and c: "buf_writerIndex b + n \<le> cap" for d cap
    proof -
      have i: "buf_inv d" using b g w c by (auto simp: d buf_inv_def)
      moreover have "buf_content d = buf_content b" using g by (simp add: d buf_content_def)
      moreover have "n \<le> Buffer_writableBytes d" using g by (simp add: i) (simp add: d)
      ultimately show ?thesis by (simp add: d)
    qed
    show ?thesis
      using True grow k[OF refl, of "buf_capacity b"] k[OF refl alloc_okD[OF al]] 
      by (auto simp: Buffer_makeSpace_def w' Buffer_resize_def grown_def[symmetric] Let_def split: option.splits)
  next
    case False
    have f: "kCheapPrepend + length (buf_content b) \<le> length (buf_buffer b)" "length (buf_buffer b) \<le> size_max" "length (buf_buffer b) \<le> buf_capacity b"
      using b by (auto simp: buf_content_def)
    let ?c = "b\<lparr> buf_buffer := blit (buf_buffer b) kCheapPrepend (buf_content b), buf_readerIndex := kCheapPrepend,
          buf_writerIndex := kCheapPrepend + length (buf_content b) \<rparr>"
    have i: "buf_inv ?c" "buf_content ?c = buf_content b"
      using buf_relocate(1)[OF inv f, of "buf_trimArmed b" "buf_trimCount b"] buf_relocate(2)[OF inv f, of True] b
      by (simp_all add: buf_content_def)
    moreover have "n \<le> Buffer_writableBytes ?c"
      using False a2 b f buf_writer[OF inv] by (simp only: buf_sizes(2)[OF i(1)]) simp
    ultimately show ?thesis
      using False by (simp add: Buffer_makeSpace_def inv buf_readable_bytes[OF inv])
  qed
qed


lemma buf_write:
  assumes inv: "buf_inv b" and fit: "length xs \<le> Buffer_writableBytes b"
  defines "c \<equiv> b\<lparr> buf_buffer := blit (buf_buffer b) (buf_writerIndex b) xs \<rparr>"
  shows "buf_inv (c\<lparr> buf_writerIndex := buf_writerIndex b + length xs \<rparr>)"
    and "buf_content (c\<lparr> buf_writerIndex := buf_writerIndex b + length xs \<rparr>) = buf_content b @ xs"
    and "buf_inv c" "Buffer_writableBytes c = Buffer_writableBytes b"
proof -
  note b = inv[unfolded buf_inv_def]
  have f: "buf_writerIndex b + length xs \<le> length (buf_buffer b)" using fit b by (auto simp: inv)
  then have l: "length (blit (buf_buffer b) (buf_writerIndex b) xs) = length (buf_buffer b)" by simp
  show i: "buf_inv (c\<lparr> buf_writerIndex := buf_writerIndex b + length xs \<rparr>)" "buf_inv c"
    using b f l by (auto simp: buf_inv_def c_def)
  show "Buffer_writableBytes c = Buffer_writableBytes b" using l by (simp add: Buffer_writableBytes_def c_def)
  show "buf_content (c\<lparr> buf_writerIndex := buf_writerIndex b + length xs \<rparr>) = buf_content b @ xs"
    using b f by (auto simp: buf_content_def c_def blit_def drop_take)
qed

lemma buf_append:
  assumes inv: "buf_inv b" and al: "alloc_ok al" and w: "buf_writerIndex b + length xs \<le> size_max"
  shows "case Buffer_appendString al xs b of
      (Inl e, c) \<Rightarrow> e = BadAlloc \<and> c = b
    | (Inr _, c) \<Rightarrow> buf_inv c \<and> buf_content c = buf_content b @ xs \<and> buf_retentionOptions c = buf_retentionOptions b"
proof (cases "xs = []")
  case True
  with inv show ?thesis by (simp add: Buffer_appendString_def Buffer_append_def)
next
  case False
  have e: "case Buffer_ensureWritableBytes al (length xs) b of
      (Inl e, c) \<Rightarrow> e = BadAlloc \<and> c = b
    | (Inr _, c) \<Rightarrow> buf_inv c \<and> buf_content c = buf_content b \<and>
        length xs \<le> Buffer_writableBytes c \<and> buf_retentionOptions c = buf_retentionOptions b"
    using buf_makeSpace[OF inv al w] inv by (auto simp: Buffer_ensureWritableBytes_def)
  obtain r c where r: "Buffer_ensureWritableBytes al (length xs) b = (r, c)" by fastforce
  show ?thesis
  proof (cases r)
    case (Inl err)
    with e r False show ?thesis by (simp add: Buffer_appendString_def Buffer_append_def)
  next
    case (Inr u)
    with e r have c: "buf_inv c" "buf_content c = buf_content b" "length xs \<le> Buffer_writableBytes c"
        "buf_retentionOptions c = buf_retentionOptions b" by auto
    note wr = buf_write[OF c(1,3)]
    show ?thesis using wr c Inr r False by (simp add: Buffer_appendString_def Buffer_append_def Buffer_hasWritten_def)
  qed
qed

lemma buf_append_total:
  assumes "buf_inv b" "alloc_ok al" "\<forall>n. al n \<noteq> None" "buf_writerIndex b + length xs \<le> size_max"
  shows "\<exists>c. Buffer_appendString al xs b = (Inr (), c)"
proof -
  have "fst (Buffer_makeSpace al n b) \<noteq> Inl e" for n e
    using assms(3)[rule_format, of "sz_add (buf_writerIndex b) n"] by (auto simp: Buffer_makeSpace_def Buffer_resize_def Let_def split: sum.splits option.splits)
  then have e: "fst (Buffer_ensureWritableBytes al n b) \<noteq> Inl e" for n e
    by (simp add: Buffer_ensureWritableBytes_def)
  have "fst (Buffer_appendString al xs b) \<noteq> Inl BadAlloc"
    using e[of "length xs" BadAlloc] by (auto simp: Buffer_appendString_def Buffer_append_def Buffer_hasWritten_def split: prod.splits sum.splits)
  with buf_append[OF assms(1,2,4)] show ?thesis
    by (cases "Buffer_appendString al xs b"; cases "fst (Buffer_appendString al xs b)") auto
qed

lemma buf_readFd:
  assumes inv: "buf_inv b" and al: "alloc_ok al" and rd: "\<forall>n xs. rd n = Inr xs \<longrightarrow> length xs \<le> n"
    and m: "0 < maxReadBytes" and w: "length (buf_buffer b) + readFd_extraBytes \<le> size_max"
  shows "\<exists>req. req \<le> maxReadBytes \<and> 0 < req \<and> (case rd req of
      Inl err \<Rightarrow> Buffer_readFd al rd True maxReadBytes b = (Inr (Inl err), b)
    | Inr xs \<Rightarrow> (case Buffer_readFd al rd True maxReadBytes b of
          (Inl e, c) \<Rightarrow> e = BadAlloc \<and> buf_inv c \<and> buf_content c = buf_content b @ take (Buffer_writableBytes b) xs
        | (Inr r, c) \<Rightarrow> r = Inr (length xs) \<and> buf_inv c \<and> buf_content c = buf_content b @ xs))"
proof -
  define wr where "wr = min (Buffer_writableBytes b) maxReadBytes"
  define ex where "ex = min readFd_extraBytes (maxReadBytes - wr)"
  have req: "wr + ex \<le> maxReadBytes" "0 < wr + ex" using m by (auto simp: wr_def ex_def readFd_extraBytes_def)
  have nz: "maxReadBytes \<noteq> 0" using m by simp
  show ?thesis
  proof (intro exI[of _ "wr + ex"] conjI req, cases "rd (wr + ex)")
    case (Inl err)
    then show "case rd (wr + ex) of
      Inl err \<Rightarrow> Buffer_readFd al rd True maxReadBytes b = (Inr (Inl err), b)
    | Inr xs \<Rightarrow> (case Buffer_readFd al rd True maxReadBytes b of
          (Inl e, c) \<Rightarrow> e = BadAlloc \<and> buf_inv c \<and> buf_content c = buf_content b @ take (Buffer_writableBytes b) xs
        | (Inr r, c) \<Rightarrow> r = Inr (length xs) \<and> buf_inv c \<and> buf_content c = buf_content b @ xs)"
      using nz by (simp add: Buffer_readFd_def wr_def[symmetric] ex_def[symmetric])
  next
    case (Inr xs)
    have len: "length xs \<le> wr + ex" using rd Inr by blast
    define c1 where "c1 = b\<lparr> buf_buffer := blit (buf_buffer b) (buf_writerIndex b) (take wr xs) \<rparr>"
    have fit: "length (take wr xs) \<le> Buffer_writableBytes b" by (simp add: wr_def)
    note k = buf_write[OF inv fit, folded c1_def]
    show "case rd (wr + ex) of
      Inl err \<Rightarrow> Buffer_readFd al rd True maxReadBytes b = (Inr (Inl err), b)
    | Inr xs \<Rightarrow> (case Buffer_readFd al rd True maxReadBytes b of
          (Inl e, c) \<Rightarrow> e = BadAlloc \<and> buf_inv c \<and> buf_content c = buf_content b @ take (Buffer_writableBytes b) xs
        | (Inr r, c) \<Rightarrow> r = Inr (length xs) \<and> buf_inv c \<and> buf_content c = buf_content b @ xs)"
    proof (cases "length xs \<le> wr")
      case True
      then show ?thesis
        using k Inr nz by (simp add: Buffer_readFd_def wr_def[symmetric] ex_def[symmetric] c1_def)
    next
      case False
      then have full: "wr = Buffer_writableBytes b" using len by (auto simp: wr_def ex_def min_def split: if_splits)
      have end': "length (buf_buffer c1) = buf_writerIndex b + length (take wr xs)"
        using False full inv k(3) by (auto simp: c1_def buf_inv_def)
      let ?c = "c1\<lparr> buf_writerIndex := length (buf_buffer c1) \<rparr>"
      have c: "buf_inv ?c" "buf_content ?c = buf_content b @ take wr xs" using k end' by simp_all
      have e: "length (buf_buffer c1) = length (buf_buffer b)" using k(3,4) inv end' False full by (auto simp: buf_inv_def)
      have "length (drop wr xs) \<le> readFd_extraBytes" using len by (simp add: ex_def)
      then have "buf_writerIndex ?c + length (drop wr xs) \<le> size_max" using w e by simp
      note a = buf_append[OF c(1) al this, unfolded Buffer_appendString_def c(2)]
      have "Buffer_readFd al rd True maxReadBytes b = (case Buffer_append al (Some (drop wr xs)) (length xs - wr) ?c of
          (Inl e, b2) \<Rightarrow> (Inl e, b2) | (Inr _, b2) \<Rightarrow> (Inr (Inr (length xs)), b2))"
        using False nz Inr
        by (simp only: Buffer_readFd_def Let_def wr_def[symmetric] ex_def[symmetric] c1_def[symmetric] sum.case simp_thms if_True if_False)
      then show ?thesis using a c(1,2) Inr unfolding full[symmetric] by (auto split: prod.splits sum.splits)
    qed
  qed
qed


lemma Buffer_new_inv:
  assumes "Buffer_new al opts = Inr b" "alloc_ok al" "al (kCheapPrepend + kInitialSize) = Some cap"
    and "cap \<le> bro_maxRetainedCapacityBytes opts" "bro_maxRetainedCapacityBytes opts \<le> size_max"
  shows "buf_inv b \<and> buf_content b = [] \<and> buf_retentionOptions b = opts"
  using assms alloc_okD[OF assms(2,3)]
  by (auto simp: Buffer_new_def BufferRetentionOptions_validate_def buf_inv_def buf_content_def kInitialSize_def kCheapPrepend_def
      split: if_splits sum.splits)

section \<open>The buffer as a byte queue\<close>


interpretation buffer_queue: byte_queue buf_inv buf_content
    "\<lambda>b xs. buf_writerIndex b + length xs \<le> size_max"
    "\<lambda>xs b. snd (Buffer_appendString Some xs b)" "Buffer_retrieve Some"
proof unfold_locales
  fix b :: Buffer and xs :: bytes
  assume a: "buf_inv b" "buf_writerIndex b + length xs \<le> size_max"
  obtain c where c: "Buffer_appendString Some xs b = (Inr (), c)"
    using buf_append_total[OF a(1) alloc_ok_Some _ a(2)] by auto
  with buf_append[OF a(1) alloc_ok_Some a(2)]
  show "buf_inv (snd (Buffer_appendString Some xs b))"
    and "buf_content (snd (Buffer_appendString Some xs b)) = buf_content b @ xs" by auto
qed (use buf_retrieve[OF _ alloc_ok_Some] in auto)

section \<open>Properties\<close>

definition demo_buffer :: Buffer where
  "demo_buffer = \<lparr> buf_retentionOptions = \<lparr> bro_maxRetainedCapacityBytes = 1032, bro_trimThresholdBytes = 2 \<rparr>,
     buf_buffer = vec_zero 10, buf_capacity = 10, buf_readerIndex = 8, buf_writerIndex = 8,
     buf_peakRetainedCapacityBytes = 10, buf_trimCount = 0, buf_trimArmed = False \<rparr>"

lemma demo_buffer_inv: "buf_inv demo_buffer"
  by (simp add: buf_inv_def demo_buffer_def kCheapPrepend_def kInitialSize_def size_max_def)

lemmas buf_eval = demo_buffer_def Buffer_appendString_def Buffer_append_def Buffer_ensureWritableBytes_def Buffer_makeSpace_def
  Buffer_resize_def Buffer_updateRetentionState_def Buffer_hasWritten_def Buffer_retrieve_def Buffer_retrieveAll_def
  Buffer_trimRetainedCapacity_def Buffer_readableBytes_def Buffer_writableBytes_def Buffer_prependableBytes_def
  sz_sub_def sz_add_def size_max_def kCheapPrepend_def kInitialSize_def blit_def vec_zero_def u64_inc_def Let_def
  buf_content_def

text \<open>C5. The buffer is a queue of bytes: for every run of appends and retrieves, in any order and
  with any growth, compaction and trimming they cause, the bytes read followed by the bytes that
  are still readable are the bytes that were readable followed by the bytes written.\<close>

theorem buffer_fifo:
  assumes "buf_inv b"
    and "queue_run buf_content (\<lambda>b xs. buf_writerIndex b + length xs \<le> size_max)
           (\<lambda>xs b. snd (Buffer_appendString Some xs b)) (Buffer_retrieve Some) ops b = Some (out, c)"
  shows "out @ buf_content c = buf_content b @ queue_written ops \<and> buf_inv c"
  using buffer_queue.run_fifo[OF assms] buffer_queue.run_inv[OF assms] by simp

theorem buffer_fifo_witness:
  "\<exists>c. queue_run buf_content (\<lambda>b xs. buf_writerIndex b + length xs \<le> size_max)
           (\<lambda>xs b. snd (Buffer_appendString Some xs b)) (Buffer_retrieve Some)
           [Put ''abc'', Get 2, Put ''de'', Get 1] demo_buffer = Some (''abc'', c) \<and> buf_content c = ''de''"
proof -
  obtain c where c: "queue_run buf_content (\<lambda>b xs. buf_writerIndex b + length xs \<le> size_max)
           (\<lambda>xs b. snd (Buffer_appendString Some xs b)) (Buffer_retrieve Some)
           [Put ''abc'', Get 2, Put ''de'', Get 1] demo_buffer = Some (''abc'', c)"
    by (simp add: buf_eval)
  have "buf_content demo_buffer = []" by (simp add: buf_eval)
  with buffer_fifo[OF demo_buffer_inv c] have "buf_content c = ''de''" by simp
  with c show ?thesis by blast
qed

text \<open>C6. \<open>readFd\<close> asks the kernel for at least one and at most \<open>maxReadBytes\<close> bytes; on an error the
  buffer is untouched; otherwise the delivered bytes are appended to the readable bytes, those that
  went through the stack buffer included. If the growth for the stack buffer throws, the bytes that
  fitted are kept and the others are lost.\<close>

theorem buffer_readFd:
  assumes "buf_inv b" "alloc_ok al" "\<forall>n xs. rd n = Inr xs \<longrightarrow> length xs \<le> n"
    and "0 < maxReadBytes" "length (buf_buffer b) + readFd_extraBytes \<le> size_max"
  shows "\<exists>req. req \<le> maxReadBytes \<and> 0 < req \<and> (case rd req of
      Inl err \<Rightarrow> Buffer_readFd al rd True maxReadBytes b = (Inr (Inl err), b)
    | Inr xs \<Rightarrow> (case Buffer_readFd al rd True maxReadBytes b of
          (Inl e, c) \<Rightarrow> e = BadAlloc \<and> buf_inv c \<and> buf_content c = buf_content b @ take (Buffer_writableBytes b) xs
        | (Inr r, c) \<Rightarrow> r = Inr (length xs) \<and> buf_inv c \<and> buf_content c = buf_content b @ xs))"
  by (rule buf_readFd[OF assms])

theorem buffer_readFd_witness:
  "\<exists>req. req \<le> 4 \<and> 0 < req \<and> (case Buffer_readFd Some (\<lambda>n. Inr (take n ''hello'')) True 4 demo_buffer of
      (Inl e, c) \<Rightarrow> False
    | (Inr r, c) \<Rightarrow> r = Inr 4 \<and> buf_content c = ''hell'' \<and> buf_content c = take req ''hello'')"
proof -
  have e: "buf_content demo_buffer = []" by (simp add: buf_eval)
  obtain c where r: "Buffer_readFd Some (\<lambda>n. Inr (take n ''hello'')) True 4 demo_buffer = (Inr (Inr 4), c)" "buf_content c = ''hell''"
    by (simp add: Buffer_readFd_def readFd_extraBytes_def buf_eval)
  have w: "length (buf_buffer demo_buffer) + readFd_extraBytes \<le> size_max"
    by (simp add: demo_buffer_def readFd_extraBytes_def size_max_def)
  from buffer_readFd[OF demo_buffer_inv alloc_ok_Some _ _ w, of "\<lambda>n. Inr (take n ''hello'')" 4]
  obtain req where "req \<le> 4" "0 < req" "buf_content c = take req ''hello''" by (auto simp: r(1) e)
  then show ?thesis using r by (intro exI[of _ req]) simp
qed




text \<open>The sum \<open>writerIndex_ + len\<close> of \<open>makeSpace\<close> is not checked for overflow: a request close to the
  maximum of \<open>size_t\<close> shrinks the vector below the writer index instead of failing.\<close>

lemma ensureWritableBytes_wraps:
  "\<exists>c. Buffer_ensureWritableBytes Some size_max demo_buffer = (Inr (), c) \<and>
     length (buf_buffer c) < buf_writerIndex c \<and> \<not> buf_inv c"
proof -
  have w: "Buffer_writableBytes demo_buffer = 2" "Buffer_prependableBytes demo_buffer = 8" "buf_writerIndex demo_buffer = 8"
    "length (buf_buffer demo_buffer) = 10"
    by (simp_all add: buf_eval)
  have "sz_add 8 size_max = 7" "sz_sub (sz_add 2 8) kCheapPrepend < size_max" "2 < size_max"
    by (simp_all add: sz_add_def sz_sub_def size_max_def kCheapPrepend_def)
  then have "Buffer_ensureWritableBytes Some size_max demo_buffer =
      (Inr (), Buffer_updateRetentionState (demo_buffer\<lparr> buf_buffer := take 7 (buf_buffer demo_buffer) \<rparr>))"
    by (simp add: Buffer_ensureWritableBytes_def Buffer_makeSpace_def Buffer_resize_def w)
  then show ?thesis by (simp add: w buf_inv_def)
qed

end
