(* ===== verification/Ordered_Map.thy ===== *)
theory Ordered_Map
  imports Gamenet_Prelude "HOL-Library.AList"
begin

text \<open>
  \<open>std::map\<close> as an association list in key order (\<open>om_update\<close>, \<open>om_erase\<close>, lookup by \<open>map_of\<close>,
  \<open>begin()\<close> the head), and a map of non-empty FIFO buckets over it, the shape that the deadline and
  timer queues share. \<open>bm_flat\<close> lists a bucket map in expiry order; \<open>flat_insert\<close> is the insertion of
  an ordered FIFO list. \<open>std::unordered_map\<close> is an association list under \<open>AList.update\<close> and
  \<open>AList.delete\<close>.
\<close>

fun om_update :: "'k::linorder \<Rightarrow> 'v \<Rightarrow> ('k \<times> 'v) list \<Rightarrow> ('k \<times> 'v) list" where
  "om_update k v [] = [(k, v)]"
| "om_update k v ((k', v') # m) =
     (if k < k' then (k, v) # (k', v') # m
      else if k = k' then (k, v) # m
      else (k', v') # om_update k v m)"

definition om_erase :: "'k \<Rightarrow> ('k \<times> 'v) list \<Rightarrow> ('k \<times> 'v) list" where
  "om_erase k m = filter (\<lambda>p. fst p \<noteq> k) m"

definition om_sorted :: "('k::linorder \<times> 'v) list \<Rightarrow> bool" where
  "om_sorted m \<longleftrightarrow> sorted_wrt (<) (map fst m)"

lemma om_sorted_Nil [simp]: "om_sorted []"
  by (simp add: om_sorted_def)

lemma om_sorted_Cons [simp]: "om_sorted ((k, v) # m) \<longleftrightarrow> (\<forall>k' \<in> fst ` set m. k < k') \<and> om_sorted m"
  by (simp add: om_sorted_def)

lemma om_sorted_distinct: "om_sorted m \<Longrightarrow> distinct (map fst m)"
  using strict_sorted_iff by (auto simp: om_sorted_def)

lemma fst_om_update: "fst ` set (om_update k v m) = insert k (fst ` set m)"
  by (induction k v m rule: om_update.induct) auto

lemma om_sorted_update: "om_sorted m \<Longrightarrow> om_sorted (om_update k v m)"
  by (induction k v m rule: om_update.induct) (auto simp: fst_om_update)

lemma map_of_om_update: "om_sorted m \<Longrightarrow> map_of (om_update k v m) = (map_of m)(k \<mapsto> v)"
  by (induction k v m rule: om_update.induct) auto

lemma om_sorted_erase: "om_sorted m \<Longrightarrow> om_sorted (om_erase k m)"
  by (induction m) (auto simp: om_erase_def)

lemma map_of_om_erase: "map_of (om_erase k m) = (map_of m)(k := None)"
  by (induction m) (auto simp: om_erase_def)

lemma om_erase_fresh: "map_of m k = None \<Longrightarrow> om_erase k m = m"
  by (auto simp: om_erase_def map_of_eq_None_iff filter_id_conv)

lemma om_erase_update_fresh:
  "map_of m k = None \<Longrightarrow> om_erase k (om_update k v m) = m"
  by (induction k v m rule: om_update.induct) (auto simp: om_erase_def map_of_eq_None_iff filter_id_conv split: if_splits)

lemma om_update_update: "om_sorted m \<Longrightarrow> om_update k v (om_update k w m) = om_update k v m"
  by (induction k w m rule: om_update.induct) auto

lemma map_of_above: "\<forall>x \<in> set m. k' < fst x \<Longrightarrow> k \<le> (k'::'k::linorder) \<Longrightarrow> map_of m k = None"
  by (force simp: map_of_eq_None_iff)

lemma om_update_same: "om_sorted m \<Longrightarrow> map_of m k = Some v \<Longrightarrow> om_update k v m = m"
proof (induction k v m rule: om_update.induct)
  case (2 k v k' v' m)
  then show ?case using map_of_above[of m k' k] by (auto split: if_splits dest: less_imp_le)
qed simp

section \<open>Bucket maps\<close>

type_synonym ('k, 'e) buckets = "('k \<times> 'e list) list"

definition bm_bucket :: "'k \<Rightarrow> ('k, 'e) buckets \<Rightarrow> 'e list" where
  "bm_bucket k bs = (case map_of bs k of None \<Rightarrow> [] | Some es \<Rightarrow> es)"

definition bm_push :: "'k::linorder \<Rightarrow> 'e \<Rightarrow> ('k, 'e) buckets \<Rightarrow> ('k, 'e) buckets" where
  "bm_push k e bs = om_update k (bm_bucket k bs @ [e]) bs"

text \<open>Erase an element from its bucket and the bucket when it becomes empty; \<open>None\<close> when the
  bucket is missing.\<close>

definition bm_erase :: "'k::linorder \<Rightarrow> 'e \<Rightarrow> ('k, 'e) buckets \<Rightarrow> ('k, 'e) buckets option" where
  "bm_erase k e bs =
     (case map_of bs k of
        None \<Rightarrow> None
      | Some es \<Rightarrow> let es' = remove1 e es in Some (if es' = [] then om_erase k bs else om_update k es' bs))"

definition bm_flat :: "('k, 'e) buckets \<Rightarrow> ('k \<times> 'e) list" where
  "bm_flat bs = concat (map (\<lambda>(k, es). map (Pair k) es) bs)"

definition bm_inv :: "('k::linorder, 'e) buckets \<Rightarrow> bool" where
  "bm_inv bs \<longleftrightarrow> om_sorted bs \<and> (\<forall>es \<in> snd ` set bs. es \<noteq> [])"

text \<open>Insertion into an ordered list behind the elements with a key at most as large.\<close>

fun flat_insert :: "'k::linorder \<times> 'e \<Rightarrow> ('k \<times> 'e) list \<Rightarrow> ('k \<times> 'e) list" where
  "flat_insert x [] = [x]"
| "flat_insert x (y # ys) = (if fst x < fst y then x # y # ys else y # flat_insert x ys)"

lemma bm_flat_simps [simp]:
  "bm_flat [] = []" "bm_flat ((k, es) # bs) = map (Pair k) es @ bm_flat bs"
  by (simp_all add: bm_flat_def)

lemma set_flat_insert [simp]: "set (flat_insert x ys) = insert x (set ys)"
  by (induction x ys rule: flat_insert.induct) auto

lemma flat_insert_below: "\<forall>y \<in> set ys. fst x < fst y \<Longrightarrow> flat_insert x ys = x # ys"
  by (cases ys) auto

lemma flat_insert_append: "\<forall>y \<in> set xs. fst y \<le> fst x \<Longrightarrow> flat_insert x (xs @ ys) = xs @ flat_insert x ys"
  by (induction xs) (auto simp: not_less)

lemma fst_bm_flat: "(k, e) \<in> set (bm_flat bs) \<Longrightarrow> k \<in> fst ` set bs"
  by (induction bs) auto

lemma bm_flat_above: "\<forall>x \<in> set bs. k < fst x \<Longrightarrow> y \<in> set (bm_flat bs) \<Longrightarrow> k < fst y"
  by (induction bs) auto

lemma bm_flat_bucket: "om_sorted bs \<Longrightarrow> (k, e) \<in> set (bm_flat bs) \<longleftrightarrow> e \<in> set (bm_bucket k bs)"
proof (induction bs)
  case (Cons p bs)
  obtain k' es where p: "p = (k', es)" by (cases p)
  show ?case
    using Cons map_of_above[of bs k' k] bm_flat_above[of bs k' "(k, e)"] by (auto simp: bm_bucket_def p)
qed (simp add: bm_bucket_def)

lemma bm_flat_push: "om_sorted bs \<Longrightarrow> bm_flat (bm_push k e bs) = flat_insert (k, e) (bm_flat bs)"
proof (induction bs)
  case (Cons p bs)
  obtain k' es where p: "p = (k', es)" by (cases p)
  have later: "\<forall>y \<in> set (bm_flat bs). k' < fst y" using Cons.prems p bm_flat_above[of bs k'] by auto
  consider "k < k'" | "k = k'" | "k' < k" by fastforce
  then show ?case
  proof cases
    case 1
    with later Cons.prems map_of_above[of bs k' k] have "bm_bucket k (p # bs) = []" "\<forall>y \<in> set (bm_flat (p # bs)). k < fst y"
      by (auto simp: p bm_bucket_def)
    with 1 show ?thesis by (simp add: bm_push_def flat_insert_below p)
  next
    case 2
    with later show ?thesis
      by (simp add: bm_push_def bm_bucket_def p flat_insert_append flat_insert_below)
  next
    case 3
    then have "flat_insert (k, e) (map (Pair k') es @ bm_flat bs) = map (Pair k') es @ flat_insert (k, e) (bm_flat bs)"
      by (intro flat_insert_append) auto
    with 3 Cons show ?thesis by (auto simp: bm_push_def bm_bucket_def p)
  qed
qed (simp add: bm_push_def bm_bucket_def)

lemma snd_om_update: "snd ` set (om_update k v bs) \<subseteq> insert v (snd ` set bs)"
  by (induction k v bs rule: om_update.induct) auto

lemma bm_inv_push: "bm_inv bs \<Longrightarrow> bm_inv (bm_push k e bs)"
  using snd_om_update[of k "bm_bucket k bs @ [e]" bs] by (fastforce simp: bm_inv_def bm_push_def om_sorted_update)

lemma bm_erase_flat:
  assumes "bm_inv bs" "(k, e) \<in> set (bm_flat bs)"
  shows "\<exists>bs'. bm_erase k e bs = Some bs' \<and> bm_inv bs' \<and> bm_flat bs' = remove1 (k, e) (bm_flat bs)"
  using assms
proof (induction bs)
  case (Cons p bs)
  obtain k' es where p: "p = (k', es)" by (cases p)
  have inv: "bm_inv bs" "es \<noteq> []" "\<forall>x \<in> set bs. k' < fst x" using Cons.prems(1) by (auto simp: bm_inv_def p)
  show ?case
  proof (cases "k = k'")
    case True
    have nin: "(k', e) \<notin> set (bm_flat bs)" using bm_flat_above[OF inv(3)] by fastforce
    with Cons.prems(2) True have "e \<in> set es" by (auto simp: p)
    then have f: "remove1 (k', e) (map (Pair k') es @ bm_flat bs) = map (Pair k') (remove1 e es) @ bm_flat bs"
      by (induction es) auto
    have "om_erase k' bs = bs" using map_of_above[OF inv(3)] by (simp add: om_erase_fresh)
    with True f Cons.prems(1) inv show ?thesis
      by (auto simp: bm_erase_def p Let_def om_erase_def bm_inv_def)
  next
    case False
    with Cons.prems(2) have "(k, e) \<in> set (bm_flat bs)" by (auto simp: p)
    with Cons.IH[OF inv(1)] obtain bs' where b: "bm_erase k e bs = Some bs'" "bm_inv bs'"
      "bm_flat bs' = remove1 (k, e) (bm_flat bs)" by auto
    have lt: "k' < k" using \<open>(k, e) \<in> set (bm_flat bs)\<close> bm_flat_above[OF inv(3)] by fastforce
    have "bm_erase k e (p # bs) = Some (p # bs')"
      using b(1) False lt by (auto simp: bm_erase_def p Let_def om_erase_def split: option.splits if_splits)
    moreover have "fst ` set bs' \<subseteq> fst ` set bs"
      using b(1) by (auto simp: bm_erase_def Let_def om_erase_def fst_om_update split: option.splits if_splits dest: map_of_SomeD)
        (metis domI dom_map_of_conv_image_fst fst_om_update image_eqI insertE fst_conv)+
    moreover have "remove1 (k, e) (map (Pair k') es @ bm_flat bs) = map (Pair k') es @ remove1 (k, e) (bm_flat bs)"
      using False by (subst remove1_append) auto
    ultimately show ?thesis using b inv by (fastforce simp: bm_inv_def p)
  qed
qed simp

text \<open>The oldest element and the map without it.\<close>

lemma bm_pop:
  assumes "bm_inv bs" "bs = (k, es) # rest"
  obtains e es' where "es = e # es'" "bm_flat bs = (k, e) # bm_flat (if es' = [] then rest else (k, es') # rest)"
    "bm_inv (if es' = [] then rest else (k, es') # rest)"
  using assms by (cases es) (auto simp: bm_inv_def split: if_splits)

end
