(* ===== verification/DeadlineQueue.thy ===== *)
theory DeadlineQueue
  imports Ordered_Map
begin

text \<open>
  The bucketed deadline index: \<open>src/src/core/net/DeadlineQueue.cc\<close> and its header. \<open>buckets\<close> is an
  ordered map from quantized deadlines to lists, \<open>entries\<close> the index by key. A \<open>std::list\<close> iterator
  is modelled by the entry it points to: an entry never changes and carries its own generation. Every
  operation runs on the owner loop (\<open>assertOwner\<close> aborts otherwise). A failing allocation of
  \<open>schedule\<close> is named by \<open>schedule_fault\<close>. Dereferencing the first entry of an empty
  bucket, which the invariant excludes, is \<open>Fatal\<close>.
\<close>

section \<open>Data\<close>

record DeadlineToken =
  dt_key :: nat
  dt_generation :: nat

definition DeadlineToken_valid :: "DeadlineToken \<Rightarrow> bool" where
  "DeadlineToken_valid token \<longleftrightarrow> dt_generation token \<noteq> 0"

definition DeadlineToken_null :: DeadlineToken where
  "DeadlineToken_null = \<lparr> dt_key = 0, dt_generation = 0 \<rparr>"

record DeadlineQueueOptions =
  dqo_resolution :: duration
  dqo_maxExpiredPerAdvance :: nat

record DeadlineExpiration =
  dx_token :: DeadlineToken
  dx_deadline :: timestamp

record DeadlineAdvanceResult =
  dar_expired :: "DeadlineExpiration list"
  dar_readyRemaining :: bool
  dar_oldestReadyLatency :: duration

record Location =
  loc_bucketDeadline :: timestamp
  loc_entry :: DeadlineExpiration

record DeadlineQueue =
  dq_options :: DeadlineQueueOptions
  dq_nextGeneration :: nat
  dq_buckets :: "(timestamp, DeadlineExpiration) buckets"
  dq_entries :: "(nat \<times> Location) list"

datatype schedule_fault = FailBucket | FailEntry | FailIndex

section \<open>Operations\<close>

definition DeadlineQueueOptions_validate :: "DeadlineQueueOptions \<Rightarrow> unit outcome" where
  "DeadlineQueueOptions_validate opts =
     (if dqo_resolution opts \<le> 0 then Inl InvalidArgument
      else if dqo_maxExpiredPerAdvance opts = 0 then Inl InvalidArgument
      else Inr ())"

definition DeadlineQueue_new :: "DeadlineQueueOptions \<Rightarrow> DeadlineQueue outcome" where
  "DeadlineQueue_new opts =
     (case DeadlineQueueOptions_validate opts of
        Inl e \<Rightarrow> Inl e
      | Inr _ \<Rightarrow> Inr \<lparr> dq_options = opts, dq_nextGeneration = 1, dq_buckets = [], dq_entries = [] \<rparr>)"

definition DeadlineQueue_quantize :: "duration \<Rightarrow> timestamp \<Rightarrow> timestamp" where
  "DeadlineQueue_quantize resolution raw =
     (let quotient = tdiv raw resolution; rounded = resolution * quotient
      in if rounded < raw
         then if ts_max - rounded < resolution then ts_max else rounded + resolution
         else rounded)"

definition DeadlineQueue_eraseLocation :: "nat \<Rightarrow> Location \<Rightarrow> DeadlineQueue \<Rightarrow> unit outcome \<times> DeadlineQueue" where
  "DeadlineQueue_eraseLocation key location q =
     (case bm_erase (loc_bucketDeadline location) (loc_entry location) (dq_buckets q) of
        None \<Rightarrow> (Inl LogicError, q)
      | Some bs \<Rightarrow> (Inr (), q\<lparr> dq_buckets := bs, dq_entries := AList.delete key (dq_entries q) \<rparr>))"

definition DeadlineQueue_schedule ::
    "schedule_fault option \<Rightarrow> nat \<Rightarrow> timestamp \<Rightarrow> DeadlineQueue \<Rightarrow> DeadlineToken outcome \<times> DeadlineQueue" where
  "DeadlineQueue_schedule fault key deadline q =
     (if dq_nextGeneration q = size_max then (Inl OverflowError, q)
      else
        let token = \<lparr> dt_key = key, dt_generation = dq_nextGeneration q \<rparr>;
            bucketDeadline = DeadlineQueue_quantize (dqo_resolution (dq_options q)) deadline;
            insertedBucket = (map_of (dq_buckets q) bucketDeadline = None);
            entry = \<lparr> dx_token = token, dx_deadline = deadline \<rparr>;
            newLocation = \<lparr> loc_bucketDeadline = bucketDeadline, loc_entry = entry \<rparr>
        in
        if fault = Some FailBucket \<and> insertedBucket then (Inl BadAlloc, q)
        else
          let emplaced = (if insertedBucket then om_update bucketDeadline [] (dq_buckets q) else dq_buckets q) in
          if fault = Some FailEntry
          then (Inl BadAlloc,
                q\<lparr> dq_buckets := (if insertedBucket \<and> bm_bucket bucketDeadline emplaced = []
                                  then om_erase bucketDeadline emplaced else emplaced) \<rparr>)
          else
            let pushed = bm_push bucketDeadline entry emplaced in
            case map_of (dq_entries q) key of
              Some old \<Rightarrow>
                (let q1 = q\<lparr> dq_buckets := pushed, dq_entries := AList.update key newLocation (dq_entries q) \<rparr>
                 in case bm_erase (loc_bucketDeadline old) (loc_entry old) pushed of
                      None \<Rightarrow> (Inl LogicError, q1)
                    | Some bs \<Rightarrow> (Inr token, q1\<lparr> dq_buckets := bs, dq_nextGeneration := dq_nextGeneration q + 1 \<rparr>))
            | None \<Rightarrow>
                if fault = Some FailIndex
                then (Inl BadAlloc,
                      q\<lparr> dq_buckets := (case bm_erase bucketDeadline entry pushed of None \<Rightarrow> pushed | Some bs \<Rightarrow> bs) \<rparr>)
                else (Inr token,
                      q\<lparr> dq_buckets := pushed, dq_entries := AList.update key newLocation (dq_entries q),
                         dq_nextGeneration := dq_nextGeneration q + 1 \<rparr>))"

definition DeadlineQueue_cancel :: "DeadlineToken \<Rightarrow> DeadlineQueue \<Rightarrow> bool outcome \<times> DeadlineQueue" where
  "DeadlineQueue_cancel token q =
     (if \<not> DeadlineToken_valid token then (Inr False, q)
      else case map_of (dq_entries q) (dt_key token) of
        None \<Rightarrow> (Inr False, q)
      | Some location \<Rightarrow>
          if dx_token (loc_entry location) \<noteq> token then (Inr False, q)
          else case DeadlineQueue_eraseLocation (dt_key token) location q of
                 (Inl e, q1) \<Rightarrow> (Inl e, q1)
               | (Inr _, q1) \<Rightarrow> (Inr True, q1))"

definition dq_ready :: "timestamp \<Rightarrow> DeadlineQueue \<Rightarrow> bool" where
  "dq_ready now q = (case dq_buckets q of [] \<Rightarrow> False | (first, _) # _ \<Rightarrow> first \<le> now)"

text \<open>The loop of \<open>advance\<close>; the result vector is its accumulator.\<close>

function DeadlineQueue_advanceLoop ::
    "timestamp \<Rightarrow> DeadlineExpiration list \<Rightarrow> DeadlineQueue \<Rightarrow> DeadlineExpiration list outcome \<times> DeadlineQueue" where
  "DeadlineQueue_advanceLoop now expired q =
     (if length expired < dqo_maxExpiredPerAdvance (dq_options q) \<and> dq_ready now q
      then (case dq_buckets q of
              (first, entry # others) # rest \<Rightarrow>
                (let key = dt_key (dx_token entry) in
                 if (case map_of (dq_entries q) key of
                       None \<Rightarrow> True | Some location \<Rightarrow> dx_token (loc_entry location) \<noteq> dx_token entry)
                 then (Inl LogicError, q)
                 else DeadlineQueue_advanceLoop now (expired @ [entry])
                        (q\<lparr> dq_buckets := (if others = [] then rest else (first, others) # rest),
                            dq_entries := AList.delete key (dq_entries q) \<rparr>))
            | _ \<Rightarrow> (Inl Fatal, q))
      else (Inr expired, q))"
  by pat_completeness auto
termination
  by (relation "measure (\<lambda>(now, ex, q). dqo_maxExpiredPerAdvance (dq_options q) - length ex)") auto

declare DeadlineQueue_advanceLoop.simps [simp del]

definition DeadlineQueue_advance :: "timestamp \<Rightarrow> DeadlineQueue \<Rightarrow> DeadlineAdvanceResult outcome \<times> DeadlineQueue" where
  "DeadlineQueue_advance now q =
     (case dq_buckets q of
        [] \<Rightarrow> (Inr \<lparr> dar_expired = [], dar_readyRemaining = False, dar_oldestReadyLatency = 0 \<rparr>, q)
      | (first, _) # _ \<Rightarrow>
          if first > now
          then (Inr \<lparr> dar_expired = [], dar_readyRemaining = False, dar_oldestReadyLatency = 0 \<rparr>, q)
          else case DeadlineQueue_advanceLoop now [] q of
                 (Inl e, q1) \<Rightarrow> (Inl e, q1)
               | (Inr expired, q1) \<Rightarrow>
                   (Inr \<lparr> dar_expired = expired, dar_readyRemaining = dq_ready now q1,
                          dar_oldestReadyLatency = now - first \<rparr>, q1))"

definition DeadlineQueue_clear :: "DeadlineQueue \<Rightarrow> DeadlineQueue" where
  "DeadlineQueue_clear q = q\<lparr> dq_entries := [], dq_buckets := [] \<rparr>"

definition DeadlineQueue_size :: "DeadlineQueue \<Rightarrow> nat" where
  "DeadlineQueue_size q = length (dq_entries q)"

definition DeadlineQueue_nextBucketDeadline :: "DeadlineQueue \<Rightarrow> timestamp option" where
  "DeadlineQueue_nextBucketDeadline q = (case dq_buckets q of [] \<Rightarrow> None | (first, _) # _ \<Rightarrow> Some first)"

section \<open>Abstract specification\<close>

text \<open>The queue as one list of entries with their quantized deadlines, in expiry order.\<close>

type_synonym dq_list = "(timestamp \<times> DeadlineExpiration) list"

definition dq_flat :: "DeadlineQueue \<Rightarrow> dq_list" where
  "dq_flat q = bm_flat (dq_buckets q)"

abbreviation dl_key :: "timestamp \<times> DeadlineExpiration \<Rightarrow> nat" where
  "dl_key x \<equiv> dt_key (dx_token (snd x))"

definition schedule_spec :: "duration \<Rightarrow> DeadlineToken \<Rightarrow> timestamp \<Rightarrow> dq_list \<Rightarrow> dq_list" where
  "schedule_spec resolution token deadline xs =
     flat_insert (DeadlineQueue_quantize resolution deadline, \<lparr> dx_token = token, dx_deadline = deadline \<rparr>)
       (filter (\<lambda>x. dl_key x \<noteq> dt_key token) xs)"

definition cancel_spec :: "DeadlineToken \<Rightarrow> dq_list \<Rightarrow> bool \<times> dq_list" where
  "cancel_spec token xs = (token \<in> (\<lambda>x. dx_token (snd x)) ` set xs, filter (\<lambda>x. dx_token (snd x) \<noteq> token) xs)"

definition advance_spec :: "nat \<Rightarrow> timestamp \<Rightarrow> dq_list \<Rightarrow> dq_list \<times> dq_list" where
  "advance_spec budget now xs =
     (let n = min budget (length (takeWhile (\<lambda>x. fst x \<le> now) xs)) in (take n xs, drop n xs))"

section \<open>Invariant\<close>

definition dq_inv :: "DeadlineQueue \<Rightarrow> bool" where
  "dq_inv q \<longleftrightarrow> bm_inv (dq_buckets q) \<and> 0 < dqo_resolution (dq_options q) \<and>
     0 < dqo_maxExpiredPerAdvance (dq_options q) \<and>
     distinct (map dl_key (dq_flat q)) \<and> distinct (map fst (dq_entries q)) \<and>
     (\<forall>k l. map_of (dq_entries q) k = Some l \<longleftrightarrow>
        dt_key (dx_token (loc_entry l)) = k \<and> (loc_bucketDeadline l, loc_entry l) \<in> set (dq_flat q)) \<and>
     (\<forall>x \<in> set (dq_flat q). fst x = DeadlineQueue_quantize (dqo_resolution (dq_options q)) (dx_deadline (snd x)) \<and>
        0 < dt_generation (dx_token (snd x)) \<and> dt_generation (dx_token (snd x)) < dq_nextGeneration q) \<and>
     0 < dq_nextGeneration q \<and> dq_nextGeneration q \<le> size_max"

section \<open>Quantization\<close>

lemma quantize_ceiling:
  assumes "0 < r" "raw \<le> ts_max"
  shows "raw \<le> DeadlineQueue_quantize r raw" "DeadlineQueue_quantize r raw < raw + r"
    "DeadlineQueue_quantize r raw \<le> ts_max \<or> raw < 0"
    "DeadlineQueue_quantize r raw = ts_max \<or> r dvd DeadlineQueue_quantize r raw"
proof -
  define d where "d = r * tdiv raw r"
  have "raw < 0 \<longrightarrow> raw \<le> d \<and> d < raw + r \<and> d \<le> 0"
  proof
    assume n: "raw < 0"
    have e: "d = - (r * (- raw div r))" using n assms by (simp add: d_def tdiv_neg)
    have "r * (- raw div r) \<le> - raw" "- raw < r * (- raw div r) + r" "0 \<le> r * (- raw div r)"
      using assms n by (auto simp: minus_mod_eq_mult_div [symmetric] intro: zmod_le_nonneg_dividend)
    then show "raw \<le> d \<and> d < raw + r \<and> d \<le> 0" unfolding e by linarith
  qed
  moreover have "0 \<le> raw \<longrightarrow> d \<le> raw \<and> raw < d + r \<and> 0 \<le> d"
  proof
    assume n: "0 \<le> raw"
    have e: "d = r * (raw div r)" using n assms by (simp add: d_def tdiv_nonneg)
    then show "d \<le> raw \<and> raw < d + r \<and> 0 \<le> d" 
      using assms n by (auto simp: minus_mod_eq_mult_div [symmetric] intro: zmod_le_nonneg_dividend)
  qed
  moreover have "r dvd d" by (simp add: d_def)
  ultimately show "raw \<le> DeadlineQueue_quantize r raw" "DeadlineQueue_quantize r raw < raw + r"
    "DeadlineQueue_quantize r raw \<le> ts_max \<or> raw < 0"
    "DeadlineQueue_quantize r raw = ts_max \<or> r dvd DeadlineQueue_quantize r raw"
    using assms unfolding DeadlineQueue_quantize_def Let_def d_def[symmetric] by (auto split: if_splits)
qed

section \<open>Lists with distinct keys\<close>

lemma remove1_distinct_key:
  "distinct (map f xs) \<Longrightarrow> x \<in> set xs \<Longrightarrow> remove1 x xs = filter (\<lambda>y. f y \<noteq> f x) xs"
proof (induction xs)
  case (Cons y xs)
  show ?case
  proof (cases "x = y")
    case True
    with Cons.prems have "\<forall>z \<in> set xs. f z \<noteq> f y" by (auto simp: image_iff)
    with True show ?thesis by (simp add: filter_id_conv)
  next
    case False
    with Cons show ?thesis by (auto simp: image_iff)
  qed
qed simp

lemma sorted_bm_flat: "bm_inv bs \<Longrightarrow> sorted (map fst (bm_flat bs))"
proof (induction bs)
  case (Cons p bs)
  obtain k es where p: "p = (k, es)" by (cases p)
  have "\<forall>y \<in> set (bm_flat bs). k < fst y" using Cons.prems bm_flat_above[of bs k] by (auto simp: p bm_inv_def)
  moreover have "sorted (map fst (bm_flat bs))" using Cons by (auto simp: bm_inv_def p)
  ultimately show ?case by (auto simp: p sorted_append comp_def sorted_map intro: less_imp_le)
qed simp

lemma filter_flat_insert:
  "sorted (map fst ys) \<Longrightarrow> P x \<Longrightarrow> filter P (flat_insert x ys) = flat_insert x (filter P ys)"
proof (induction x ys rule: flat_insert.induct)
  case (2 x y ys)
  show ?case
  proof (cases "fst x < fst y")
    case True
    with 2(2) have "\<forall>z \<in> set (filter P (y # ys)). fst x < fst z" by auto
    from flat_insert_below[OF this] True 2(3) show ?thesis by simp
  qed (use 2 in auto)
qed simp

lemma distinct_flat_insert:
  "distinct (map f (flat_insert x ys)) \<longleftrightarrow> f x \<notin> f ` set ys \<and> distinct (map f ys)"
  by (induction x ys rule: flat_insert.induct) auto

lemma dq_flat_keys_inj:
  "dq_inv q \<Longrightarrow> x \<in> set (dq_flat q) \<Longrightarrow> y \<in> set (dq_flat q) \<Longrightarrow> dl_key x = dl_key y \<Longrightarrow> x = y"
  by (auto simp: dq_inv_def distinct_map dest: inj_onD)

lemma dq_index:
  "dq_inv q \<Longrightarrow> map_of (dq_entries q) k = Some l \<longleftrightarrow>
     dt_key (dx_token (loc_entry l)) = k \<and> (loc_bucketDeadline l, loc_entry l) \<in> set (dq_flat q)"
  by (simp add: dq_inv_def)

lemma dq_index_None:
  "dq_inv q \<Longrightarrow> map_of (dq_entries q) k = None \<Longrightarrow> x \<in> set (dq_flat q) \<Longrightarrow> dl_key x \<noteq> k"
  using dq_index[of q k "\<lparr> loc_bucketDeadline = fst x, loc_entry = snd x \<rparr>"] by auto

text \<open>Dropping a key from the flat list and from the index keeps the index exact.\<close>

lemma dq_index_delete:
  assumes "dq_inv q"
  shows "map_of (AList.delete k (dq_entries q)) k' = Some l \<longleftrightarrow>
     dt_key (dx_token (loc_entry l)) = k' \<and>
     (loc_bucketDeadline l, loc_entry l) \<in> set (filter (\<lambda>x. dl_key x \<noteq> k) (dq_flat q))"
  using dq_index[OF assms, of k' l] by (auto simp: delete_conv')

section \<open>Every operation keeps the invariant and implements its specification\<close>

lemma dq_inv_filtered:
  assumes "dq_inv q" "bm_inv bs" "bm_flat bs = filter (\<lambda>x. dl_key x \<noteq> k) (dq_flat q)"
  shows "dq_inv (q\<lparr> dq_buckets := bs, dq_entries := AList.delete k (dq_entries q) \<rparr>)"
proof -
  have "distinct (map dl_key (filter P (dq_flat q)))" for P
    using assms(1) by (simp add: dq_inv_def distinct_map_filter)
  with assms dq_index_delete[OF assms(1), of k] show ?thesis
    by (simp add: dq_inv_def dq_flat_def distinct_delete)
qed

lemma dq_erase:
  assumes inv: "dq_inv q" and m: "map_of (dq_entries q) k = Some l"
  shows "\<exists>q'. DeadlineQueue_eraseLocation k l q = (Inr (), q') \<and> dq_inv q' \<and>
     dq_flat q' = filter (\<lambda>x. dl_key x \<noteq> k) (dq_flat q) \<and> dq_options q' = dq_options q \<and> dq_nextGeneration q' = dq_nextGeneration q"
proof -
  from m have l: "(loc_bucketDeadline l, loc_entry l) \<in> set (bm_flat (dq_buckets q))" "dt_key (dx_token (loc_entry l)) = k"
    using dq_index[OF inv] by (auto simp: dq_flat_def)
  have b: "bm_inv (dq_buckets q)" and d: "distinct (map dl_key (dq_flat q))" using inv by (simp_all add: dq_inv_def)
  from bm_erase_flat[OF b l(1)] obtain bs where bs: "bm_erase (loc_bucketDeadline l) (loc_entry l) (dq_buckets q) = Some bs"
    "bm_inv bs" "bm_flat bs = remove1 (loc_bucketDeadline l, loc_entry l) (dq_flat q)" by (auto simp: dq_flat_def)
  have "bm_flat bs = filter (\<lambda>x. dl_key x \<noteq> k) (dq_flat q)"
    using remove1_distinct_key[OF d, of "(loc_bucketDeadline l, loc_entry l)"] l bs(3) by (simp add: dq_flat_def)
  with dq_inv_filtered[OF inv bs(2)] bs(1) show ?thesis
    by (simp add: DeadlineQueue_eraseLocation_def dq_flat_def)
qed

lemma dq_cancel:
  assumes inv: "dq_inv q"
  shows "\<exists>b q'. DeadlineQueue_cancel t q = (Inr b, q') \<and> dq_inv q' \<and> (b, dq_flat q') = cancel_spec t (dq_flat q) \<and>
     dq_options q' = dq_options q \<and> dq_nextGeneration q' = dq_nextGeneration q"
proof (cases "\<exists>x \<in> set (dq_flat q). dx_token (snd x) = t")
  case True
  then obtain x where x: "x \<in> set (dq_flat q)" "dx_token (snd x) = t" by blast
  then have v: "DeadlineToken_valid t" using inv by (auto simp: dq_inv_def DeadlineToken_valid_def)
  define l where "l = \<lparr> loc_bucketDeadline = fst x, loc_entry = snd x \<rparr>"
  have m: "map_of (dq_entries q) (dt_key t) = Some l" using dq_index[OF inv, of "dt_key t" l] x by (simp add: l_def)
  have "filter (\<lambda>y. dl_key y \<noteq> dt_key t) (dq_flat q) = filter (\<lambda>y. dx_token (snd y) \<noteq> t) (dq_flat q)"
    using dq_flat_keys_inj[OF inv x(1)] x(2) by (intro filter_cong refl) metis
  with dq_erase[OF inv m] m v x show ?thesis
    by (fastforce simp: DeadlineQueue_cancel_def cancel_spec_def l_def)
next
  case False
  then have "filter (\<lambda>y. dx_token (snd y) \<noteq> t) (dq_flat q) = dq_flat q" by (auto simp: filter_id_conv)
  moreover have "map_of (dq_entries q) (dt_key t) = Some l \<Longrightarrow> dx_token (loc_entry l) \<noteq> t" for l
    using False dq_index[OF inv, of "dt_key t" l] by force
  ultimately show ?thesis
    using False inv by (auto simp: DeadlineQueue_cancel_def cancel_spec_def image_iff split: option.splits)
qed


lemma dq_schedule:
  fixes k d
  assumes inv: "dq_inv q" and g: "dq_nextGeneration q < size_max"
  defines "t \<equiv> \<lparr> dt_key = k, dt_generation = dq_nextGeneration q \<rparr>"
  shows "\<exists>q'. DeadlineQueue_schedule None k d q = (Inr t, q') \<and> dq_inv q' \<and>
     dq_flat q' = schedule_spec (dqo_resolution (dq_options q)) t d (dq_flat q) \<and>
     dq_options q' = dq_options q \<and> dq_nextGeneration q' = dq_nextGeneration q + 1"
proof -
  define b where "b = DeadlineQueue_quantize (dqo_resolution (dq_options q)) d"
  define e where "e = \<lparr> dx_token = t, dx_deadline = d \<rparr>"
  define em where "em = (if map_of (dq_buckets q) b = None then om_update b [] (dq_buckets q) else dq_buckets q)"
  have bi: "bm_inv (dq_buckets q)" and dk: "distinct (map dl_key (dq_flat q))" using inv by (simp_all add: dq_inv_def)
  have so: "om_sorted (dq_buckets q)" using bi by (simp add: bm_inv_def)
  have push: "bm_push b e em = bm_push b e (dq_buckets q)"
    using so by (simp add: em_def bm_push_def bm_bucket_def map_of_om_update om_update_update)
  define pu where "pu = bm_push b e (dq_buckets q)"
  have pi: "bm_inv pu" "bm_flat pu = flat_insert (b, e) (dq_flat q)"
    using bm_inv_push[OF bi] bm_flat_push[OF so] by (simp_all add: pu_def dq_flat_def)
  define nl where "nl = \<lparr> loc_bucketDeadline = b, loc_entry = e \<rparr>"
  define f where "f = filter (\<lambda>x. dl_key x \<noteq> k) (dq_flat q)"
  have tk: "dt_key t = k" "dt_key (dx_token e) = k" by (simp_all add: t_def e_def)
  have keep: "dq_inv (q\<lparr> dq_buckets := bs, dq_entries := AList.update k nl (dq_entries q), dq_nextGeneration := dq_nextGeneration q + 1 \<rparr>)"
    if bs: "bm_inv bs" "bm_flat bs = flat_insert (b, e) f" for bs
  proof -
    have "distinct (map dl_key f)" using dk by (simp add: f_def distinct_map_filter)
    then have "distinct (map dl_key (flat_insert (b, e) f))" unfolding distinct_flat_insert by (auto simp: f_def tk)
    moreover have "map_of (AList.update k nl (dq_entries q)) k' = Some l \<longleftrightarrow>
        dt_key (dx_token (loc_entry l)) = k' \<and> (loc_bucketDeadline l, loc_entry l) \<in> insert (b, e) (set f)" for k' l
      using dq_index[OF inv, of k' l] tk by (cases l) (auto simp: update_conv' nl_def f_def)
    ultimately show ?thesis
      using inv g bs by (auto simp: dq_inv_def dq_flat_def distinct_update b_def e_def t_def f_def)
  qed
  have spec: "schedule_spec (dqo_resolution (dq_options q)) t d (dq_flat q) = flat_insert (b, e) f"
    by (simp add: schedule_spec_def f_def b_def e_def tk)
  show ?thesis
  proof (cases "map_of (dq_entries q) k")
    case None
    have "f = dq_flat q" using dq_index_None[OF inv None] by (auto simp: f_def filter_id_conv)
    then have "dq_inv (q\<lparr> dq_buckets := pu, dq_entries := AList.update k nl (dq_entries q), dq_nextGeneration := dq_nextGeneration q + 1 \<rparr>)"
      using keep[OF pi(1)] pi(2) by simp
    with None g \<open>f = dq_flat q\<close> pi(2) show ?thesis
      by (simp add: DeadlineQueue_schedule_def Let_def b_def[symmetric] t_def[symmetric] e_def[symmetric] em_def[symmetric] push
          pu_def[symmetric] nl_def[symmetric] spec) (simp add: dq_flat_def)
  next
    case (Some old)
    define o' where "o' = (loc_bucketDeadline old, loc_entry old)"
    have o: "o' \<in> set (dq_flat q)" "dl_key o' = k" using dq_index[OF inv] Some by (auto simp: o'_def)
    have "dt_generation (dx_token (snd o')) < dq_nextGeneration q" using inv o by (simp add: dq_inv_def)
    then have ne: "o' \<noteq> (b, e)" by (auto simp: e_def t_def)
    have in': "(loc_bucketDeadline old, loc_entry old) \<in> set (bm_flat pu)" using o by (simp add: pi o'_def)
    from bm_erase_flat[OF pi(1) in'] obtain bs where bs: "bm_erase (loc_bucketDeadline old) (loc_entry old) pu = Some bs"
      "bm_inv bs" "bm_flat bs = remove1 o' (flat_insert (b, e) (dq_flat q))" by (auto simp: pi o'_def)
    have "bm_flat bs = filter (\<lambda>x. x \<noteq> o') (flat_insert (b, e) (dq_flat q))"
      using bs(3) distinct_flat_insert[of id "(b, e)" "dq_flat q"] dk o ne inv
      by (subst bs(3), subst distinct_remove1_removeAll)
         (auto simp: removeAll_filter_not_eq distinct_map dq_inv_def e_def t_def intro!: filter_cong)
    also have "\<dots> = flat_insert (b, e) (filter (\<lambda>x. x \<noteq> o') (dq_flat q))"
      using sorted_bm_flat[OF bi] ne by (intro filter_flat_insert) (auto simp: dq_flat_def)
    also have "filter (\<lambda>x. x \<noteq> o') (dq_flat q) = f"
      unfolding f_def using dq_flat_keys_inj[OF inv o(1)] o(2) by (intro filter_cong refl) metis
    finally have bf: "bm_flat bs = flat_insert (b, e) f" .
    have comm: "q\<lparr> dq_entries := AList.update k nl (dq_entries q), dq_buckets := bs, dq_nextGeneration := Suc (dq_nextGeneration q) \<rparr> =
       q\<lparr> dq_buckets := bs, dq_entries := AList.update k nl (dq_entries q), dq_nextGeneration := Suc (dq_nextGeneration q) \<rparr>" by simp
    with Some g bs(1) keep[OF bs(2) bf] bf show ?thesis
      by (simp add: DeadlineQueue_schedule_def Let_def b_def[symmetric] t_def[symmetric] e_def[symmetric] em_def[symmetric] push
          pu_def[symmetric] nl_def[symmetric] spec comm) (simp add: dq_flat_def)
  qed
qed

lemma dq_schedule_fails:
  assumes inv: "dq_inv q" and r: "DeadlineQueue_schedule fault k d q = (Inl e, q')"
  shows "q' = q \<and> (e = OverflowError \<and> dq_nextGeneration q = size_max \<or> e = BadAlloc \<and> fault \<noteq> None)"
proof (cases "dq_nextGeneration q = size_max")
  case True
  with r show ?thesis by (simp add: DeadlineQueue_schedule_def)
next
  case False
  then have g: "dq_nextGeneration q < size_max" using inv by (simp add: dq_inv_def)
  define t where "t = \<lparr> dt_key = k, dt_generation = dq_nextGeneration q \<rparr>"
  define b where "b = DeadlineQueue_quantize (dqo_resolution (dq_options q)) d"
  define en where "en = \<lparr> dx_token = t, dx_deadline = d \<rparr>"
  define em where "em = (if map_of (dq_buckets q) b = None then om_update b [] (dq_buckets q) else dq_buckets q)"
  have bi: "bm_inv (dq_buckets q)" using inv by (simp add: dq_inv_def)
  then have so: "om_sorted (dq_buckets q)" by (simp add: bm_inv_def)
  have r1: "(if map_of (dq_buckets q) b = None \<and> bm_bucket b em = [] then om_erase b em else em) = dq_buckets q"
    using so by (auto simp: em_def om_erase_update_fresh bm_bucket_def map_of_om_update)
  have push: "bm_push b en em = bm_push b en (dq_buckets q)"
    using so by (simp add: em_def bm_push_def bm_bucket_def map_of_om_update om_update_update)
  have r2: "bm_erase b en (bm_push b en (dq_buckets q)) = Some (dq_buckets q)"
  proof -
    have nin: "en \<notin> set (bm_bucket b (dq_buckets q))"
      using inv bm_flat_bucket[OF so, of b en] by (auto simp: dq_inv_def dq_flat_def en_def t_def)
    show ?thesis
    proof (cases "map_of (dq_buckets q) b")
      case None
      with so show ?thesis by (simp add: bm_erase_def bm_push_def map_of_om_update bm_bucket_def om_erase_update_fresh)
    next
      case (Some es)
      moreover have "es \<noteq> []" using Some bi map_of_SomeD by (fastforce simp: bm_inv_def)
      ultimately show ?thesis
        using so nin by (simp add: bm_erase_def bm_push_def map_of_om_update bm_bucket_def remove1_append om_update_update om_update_same)
    qed
  qed
  show ?thesis
  proof (cases "fault = None \<or> map_of (dq_entries q) k \<noteq> None")
    case True
    have "fault = Some FailBucket \<and> map_of (dq_buckets q) b = None \<or> fault = Some FailEntry \<or>
       DeadlineQueue_schedule fault k d q = DeadlineQueue_schedule None k d q"
      using True by (cases fault; cases "the fault") (auto simp: DeadlineQueue_schedule_def Let_def b_def)
    moreover have "DeadlineQueue_schedule None k d q \<noteq> (Inl e, q')" using dq_schedule[OF inv g, of k d] by auto
    ultimately show ?thesis
      using r False r1
      by (auto simp: DeadlineQueue_schedule_def Let_def b_def[symmetric] t_def[symmetric] en_def[symmetric] em_def[symmetric] split: if_splits)
  next
    case False
    then show ?thesis
      using r g r1 r2
      by (auto simp: DeadlineQueue_schedule_def Let_def b_def[symmetric] t_def[symmetric] en_def[symmetric] em_def[symmetric] push
          split: if_splits)
  qed
qed

text \<open>The loop of \<open>advance\<close> hands out the front of the flat list.\<close>

lemma dq_ready_flat: "dq_inv q \<Longrightarrow> dq_ready now q \<longleftrightarrow> (\<exists>x xs. dq_flat q = x # xs \<and> fst x \<le> now)"
  by (auto simp: dq_ready_def dq_flat_def dq_inv_def bm_inv_def neq_Nil_conv split: list.splits)

lemma dq_advanceLoop:
  assumes "dq_inv q"
  shows "\<exists>q' n. DeadlineQueue_advanceLoop now ex q = (Inr (ex @ map snd (take n (dq_flat q))), q') \<and> dq_inv q' \<and>
     dq_flat q' = drop n (dq_flat q) \<and> dq_options q' = dq_options q \<and> dq_nextGeneration q' = dq_nextGeneration q \<and>
     n = min (dqo_maxExpiredPerAdvance (dq_options q) - length ex) (length (takeWhile (\<lambda>x. fst x \<le> now) (dq_flat q)))"
  using assms
proof (induction now ex q rule: DeadlineQueue_advanceLoop.induct)
  case (1 now ex q)
  show ?case
  proof (cases "length ex < dqo_maxExpiredPerAdvance (dq_options q) \<and> dq_ready now q")
    case False
    have "takeWhile (\<lambda>x. fst x \<le> now) (dq_flat q) = []" if "\<not> dq_ready now q"
      using that dq_ready_flat[OF 1(2), of now] by (cases "dq_flat q") auto
    with False 1(2) show ?thesis
      by (subst DeadlineQueue_advanceLoop.simps) (auto intro!: exI[of _ 0])
  next
    case True
    then obtain first es rest where b: "dq_buckets q = (first, es) # rest" "first \<le> now"
      by (auto simp: dq_ready_def split: list.splits)
    have bi: "bm_inv (dq_buckets q)" using 1(2) by (simp add: dq_inv_def)
    from bm_pop[OF bi b(1)] obtain en others where p: "es = en # others"
      "dq_flat q = (first, en) # bm_flat (if others = [] then rest else (first, others) # rest)"
      "bm_inv (if others = [] then rest else (first, others) # rest)" by (auto simp: dq_flat_def)
    define bs where "bs = (if others = [] then rest else (first, others) # rest)"
    define key where "key = dt_key (dx_token en)"
    define q1 where "q1 = q\<lparr> dq_buckets := bs, dq_entries := AList.delete key (dq_entries q) \<rparr>"
    have fl: "dq_flat q = (first, en) # bm_flat bs" using p by (simp add: bs_def)
    have m: "map_of (dq_entries q) key = Some \<lparr> loc_bucketDeadline = first, loc_entry = en \<rparr>"
      using dq_index[OF 1(2), of key "\<lparr> loc_bucketDeadline = first, loc_entry = en \<rparr>"] fl by (simp add: key_def)
    have "\<forall>x \<in> set (bm_flat bs). dl_key x \<noteq> key"
      using 1(2) fl by (auto simp: dq_inv_def key_def image_iff)
    then have "bm_flat bs = filter (\<lambda>x. dl_key x \<noteq> key) (dq_flat q)" by (simp add: fl filter_id_conv key_def)
    from dq_inv_filtered[OF 1(2) p(3)[folded bs_def] this] have i: "dq_inv q1" by (simp add: q1_def)
    have st: "DeadlineQueue_advanceLoop now ex q = DeadlineQueue_advanceLoop now (ex @ [en]) q1"
      using True b p m by (subst DeadlineQueue_advanceLoop.simps) (simp add: Let_def key_def[symmetric] bs_def[symmetric] q1_def)
    have "\<exists>q' n. DeadlineQueue_advanceLoop now (ex @ [en]) q1 = (Inr ((ex @ [en]) @ map snd (take n (dq_flat q1))), q') \<and> dq_inv q' \<and>
     dq_flat q' = drop n (dq_flat q1) \<and> dq_options q' = dq_options q1 \<and> dq_nextGeneration q' = dq_nextGeneration q1 \<and>
     n = min (dqo_maxExpiredPerAdvance (dq_options q1) - length (ex @ [en])) (length (takeWhile (\<lambda>x. fst x \<le> now) (dq_flat q1)))"
      using i 1(1)[OF True b(1) refl p(1) key_def] m unfolding q1_def bs_def by simp
    then obtain q' n where "DeadlineQueue_advanceLoop now ex q = (Inr (ex @ en # map snd (take n (bm_flat bs))), q')" "dq_inv q'"
     "dq_flat q' = drop n (bm_flat bs)" "dq_options q' = dq_options q" "dq_nextGeneration q' = dq_nextGeneration q"
     "n = min (dqo_maxExpiredPerAdvance (dq_options q) - Suc (length ex)) (length (takeWhile (\<lambda>x. fst x \<le> now) (bm_flat bs)))"
      by (auto simp: st q1_def dq_flat_def)
    with True b(2) show ?thesis by (intro exI[of _ q'] exI[of _ "Suc n"]) (auto simp: fl)
  qed
qed

lemma dq_advance:
  assumes inv: "dq_inv q"
  shows "\<exists>r q'. DeadlineQueue_advance now q = (Inr r, q') \<and> dq_inv q' \<and>
     (\<exists>ready. advance_spec (dqo_maxExpiredPerAdvance (dq_options q)) now (dq_flat q) = (ready, dq_flat q') \<and>
        dar_expired r = map snd ready) \<and>
     dar_readyRemaining r = (\<exists>x \<in> set (dq_flat q'). fst x \<le> now) \<and>
     dq_options q' = dq_options q \<and> dq_nextGeneration q' = dq_nextGeneration q"
proof -
  have front: "dq_ready now p \<longleftrightarrow> (\<exists>x \<in> set (dq_flat p). fst x \<le> now)" if "dq_inv p" for p
  proof -
    have s: "sorted (map fst (dq_flat p))" using that sorted_bm_flat by (auto simp: dq_inv_def dq_flat_def)
    show ?thesis using dq_ready_flat[OF that, of now] s by (cases "dq_flat p") auto
  qed
  show ?thesis
  proof (cases "dq_ready now q")
    case False
    then have "takeWhile (\<lambda>x. fst x \<le> now) (dq_flat q) = []"
      using front[OF inv] by (cases "dq_flat q") auto
    with False inv front[OF inv] show ?thesis
      by (auto simp: DeadlineQueue_advance_def dq_ready_def advance_spec_def split: list.splits)
  next
    case True
    then obtain first es rest where b: "dq_buckets q = (first, es) # rest" "first \<le> now"
      by (auto simp: dq_ready_def split: list.splits)
    from dq_advanceLoop[OF inv, of now "[]"] obtain q' n where
      l: "DeadlineQueue_advanceLoop now [] q = (Inr (map snd (take n (dq_flat q))), q')" and i: "dq_inv q'"
      and f: "dq_flat q' = drop n (dq_flat q)" "dq_options q' = dq_options q" "dq_nextGeneration q' = dq_nextGeneration q"
      and n: "n = min (dqo_maxExpiredPerAdvance (dq_options q)) (length (takeWhile (\<lambda>x. fst x \<le> now) (dq_flat q)))"
      by auto
    show ?thesis
      using b i f front[OF i] by (simp add: DeadlineQueue_advance_def l advance_spec_def n[symmetric])
  qed
qed

section \<open>The interface of a deadline service\<close>

text \<open>
  What a client of a deadline index relies on, whatever its representation: \<open>pending\<close> are the live
  tokens, \<open>horizon\<close> the next generation. The lemma shows
  for every run of calls that a token is consumed at most once, by an expiry or by a successful
  cancel, and never while it is still pending.
\<close>

datatype deadline_call = Schedule nat timestamp | Cancel DeadlineToken | Advance timestamp

datatype deadline_log =
    Scheduled DeadlineToken
  | Cancelled DeadlineToken bool
  | Expired "DeadlineExpiration list"
  | Failed cpp_error

fun deadline_run :: "(nat \<Rightarrow> timestamp \<Rightarrow> 'q \<Rightarrow> DeadlineToken outcome \<times> 'q) \<Rightarrow>
    (DeadlineToken \<Rightarrow> 'q \<Rightarrow> bool outcome \<times> 'q) \<Rightarrow> (timestamp \<Rightarrow> 'q \<Rightarrow> DeadlineAdvanceResult outcome \<times> 'q) \<Rightarrow>
    deadline_call list \<Rightarrow> 'q \<Rightarrow> deadline_log list \<times> 'q" where
  "deadline_run schedule cancel advance [] q = ([], q)"
| "deadline_run schedule cancel advance (c # cs) q =
     (case (case c of
        Schedule k d \<Rightarrow> (case schedule k d q of (Inl e, q1) \<Rightarrow> (Failed e, q1) | (Inr t, q1) \<Rightarrow> (Scheduled t, q1))
      | Cancel t \<Rightarrow> (case cancel t q of (Inl e, q1) \<Rightarrow> (Failed e, q1) | (Inr b, q1) \<Rightarrow> (Cancelled t b, q1))
      | Advance now \<Rightarrow> (case advance now q of (Inl e, q1) \<Rightarrow> (Failed e, q1) | (Inr r, q1) \<Rightarrow> (Expired (dar_expired r), q1)))
      of (l, q1) \<Rightarrow> (case deadline_run schedule cancel advance cs q1 of (ls, q2) \<Rightarrow> (l # ls, q2)))"

fun consumed :: "deadline_log list \<Rightarrow> DeadlineToken list" where
  "consumed [] = []"
| "consumed (Expired xs # ls) = map dx_token xs @ consumed ls"
| "consumed (Cancelled t b # ls) = (if b then t # consumed ls else consumed ls)"
| "consumed (_ # ls) = consumed ls"

locale deadline_service =
  fixes inv :: "'q \<Rightarrow> bool"
    and pending :: "'q \<Rightarrow> DeadlineToken set"
    and horizon :: "'q \<Rightarrow> nat"
    and schedule :: "nat \<Rightarrow> timestamp \<Rightarrow> 'q \<Rightarrow> DeadlineToken outcome \<times> 'q"
    and cancel :: "DeadlineToken \<Rightarrow> 'q \<Rightarrow> bool outcome \<times> 'q"
    and advance :: "timestamp \<Rightarrow> 'q \<Rightarrow> DeadlineAdvanceResult outcome \<times> 'q"
  assumes below: "inv q \<Longrightarrow> t \<in> pending q \<Longrightarrow> dt_generation t < horizon q"
    and sched: "inv q \<Longrightarrow> schedule k d q = (Inr t, q') \<Longrightarrow> inv q' \<and> dt_generation t = horizon q \<and>
        horizon q' = Suc (horizon q) \<and> pending q' \<subseteq> insert t (pending q)"
    and sched_fail: "inv q \<Longrightarrow> schedule k d q = (Inl e, q') \<Longrightarrow> q' = q"
    and canc: "inv q \<Longrightarrow> \<exists>b q'. cancel t q = (Inr b, q') \<and> inv q' \<and> horizon q' = horizon q \<and>
        b = (t \<in> pending q) \<and> pending q' = pending q - {t}"
    and adv: "inv q \<Longrightarrow> \<exists>r q'. advance now q = (Inr r, q') \<and> inv q' \<and> horizon q' = horizon q \<and>
        distinct (map dx_token (dar_expired r)) \<and> dx_token ` set (dar_expired r) \<subseteq> pending q \<and>
        pending q' = pending q - dx_token ` set (dar_expired r)"
begin

lemma run_at_most_once:
  "inv q \<Longrightarrow> deadline_run schedule cancel advance cs q = (ls, q') \<Longrightarrow>
     inv q' \<and> horizon q \<le> horizon q' \<and> distinct (consumed ls) \<and>
     set (consumed ls) \<inter> pending q' = {} \<and>
     set (consumed ls) \<subseteq> pending q \<union> {t. horizon q \<le> dt_generation t} \<and>
     pending q' \<subseteq> pending q \<union> {t. horizon q \<le> dt_generation t}"
proof (induction cs arbitrary: q ls)
  case (Cons c cs)
  note b = below[OF Cons.prems(1)]
  obtain l q1 ms where run: "deadline_run schedule cancel advance cs q1 = (ms, q')" and ls: "ls = l # ms"
    and head: "(l, q1) = (case c of
        Schedule k d \<Rightarrow> (case schedule k d q of (Inl e, q1) \<Rightarrow> (Failed e, q1) | (Inr t, q1) \<Rightarrow> (Scheduled t, q1))
      | Cancel t \<Rightarrow> (case cancel t q of (Inl e, q1) \<Rightarrow> (Failed e, q1) | (Inr b, q1) \<Rightarrow> (Cancelled t b, q1))
      | Advance now \<Rightarrow> (case advance now q of (Inl e, q1) \<Rightarrow> (Failed e, q1) | (Inr r, q1) \<Rightarrow> (Expired (dar_expired r), q1)))"
    using Cons.prems(2) by (auto split: prod.splits)
  show ?case
  proof (cases c)
    case (Schedule k d)
    show ?thesis
    proof (cases "fst (schedule k d q)")
      case (Inl e)
      with Schedule head have "q1 = q" "l = Failed e"
        using sched_fail[OF Cons.prems(1), of k d e] by (auto split: prod.splits)
      with Cons.IH[OF _ run] Cons.prems(1) ls show ?thesis by simp
    next
      case (Inr t)
      with Schedule head have s: "schedule k d q = (Inr t, q1)" "l = Scheduled t" by (auto split: prod.splits)
      note i = sched[OF Cons.prems(1) s(1)]
      from Cons.IH[OF _ run] i have "inv q' \<and> horizon q1 \<le> horizon q' \<and> distinct (consumed ms) \<and>
        set (consumed ms) \<inter> pending q' = {}" and
        sub: "set (consumed ms) \<union> pending q' \<subseteq> pending q1 \<union> {t. horizon q1 \<le> dt_generation t}"
        by auto
      moreover have "pending q1 \<union> {t. horizon q1 \<le> dt_generation t} \<subseteq>
          pending q \<union> {t. horizon q \<le> dt_generation t}" using i by auto
      ultimately show ?thesis using i ls s(2) by (auto dest: subsetD)
    qed
  next
    case (Cancel t)
    from canc[OF Cons.prems(1), of t] obtain q2 where i: "cancel t q = (Inr (t \<in> pending q), q2)" "inv q2"
      "horizon q2 = horizon q" "pending q2 = pending q - {t}" by blast
    with head Cancel have l: "q1 = q2" "l = Cancelled t (t \<in> pending q)" by simp_all
    have old: "t \<in> pending q \<Longrightarrow> dt_generation t < horizon q" using b by blast
    note h = Cons.IH[OF i(2) run[unfolded l(1)]]
    have "t \<in> pending q \<Longrightarrow> t \<notin> set (consumed ms) \<and> t \<notin> pending q'" using h old i(3,4) by fastforce
    with h i(3,4) ls l(2) show ?thesis by auto
  next
    case (Advance now)
    from adv[OF Cons.prems(1), of now] obtain r q2 where i: "advance now q = (Inr r, q2)" "inv q2" "horizon q2 = horizon q"
      "distinct (map dx_token (dar_expired r))" "dx_token ` set (dar_expired r) \<subseteq> pending q"
      "pending q2 = pending q - dx_token ` set (dar_expired r)" by blast
    with head Advance have l: "q1 = q2" "l = Expired (dar_expired r)" by simp_all
    have old: "t \<in> dx_token ` set (dar_expired r) \<Longrightarrow> dt_generation t < horizon q" for t using b i(5) by blast
    note h = Cons.IH[OF i(2) run[unfolded l(1)]]
    have "t \<in> dx_token ` set (dar_expired r) \<Longrightarrow> t \<notin> set (consumed ms) \<and> t \<notin> pending q'" for t
      using h old i(3,6) by fastforce
    then have dis: "dx_token ` set (dar_expired r) \<inter> (set (consumed ms) \<union> pending q') = {}" by blast
    have c: "consumed ls = map dx_token (dar_expired r) @ consumed ms" by (simp add: ls l(2))
    have "distinct (consumed ls)" "set (consumed ls) \<inter> pending q' = {}"
      using h dis i(4) by (auto simp: c)
    moreover have "set (consumed ls) \<subseteq> pending q \<union> {t. horizon q \<le> dt_generation t}"
      "pending q' \<subseteq> pending q \<union> {t. horizon q \<le> dt_generation t}"
      using h i(3,5,6) by (auto simp: c)
    ultimately show ?thesis using h i(3) by simp
  qed
qed simp

end

interpretation deadlines: deadline_service dq_inv "\<lambda>q. (dx_token \<circ> snd) ` set (dq_flat q)" dq_nextGeneration
    "DeadlineQueue_schedule None" DeadlineQueue_cancel DeadlineQueue_advance
proof unfold_locales
  fix q q' :: DeadlineQueue and k :: nat and d :: timestamp and t :: DeadlineToken
  assume inv: "dq_inv q" and s: "DeadlineQueue_schedule None k d q = (Inr t, q')"
  have "dq_nextGeneration q < size_max"
    using inv s by (auto simp: dq_inv_def DeadlineQueue_schedule_def intro: le_neq_implies_less split: if_splits)
  with dq_schedule[OF inv, of k d] s
  show "dq_inv q' \<and> dt_generation t = dq_nextGeneration q \<and> dq_nextGeneration q' = Suc (dq_nextGeneration q) \<and>
      (dx_token \<circ> snd) ` set (dq_flat q') \<subseteq> insert t ((dx_token \<circ> snd) ` set (dq_flat q))"
    by (auto simp: schedule_spec_def)
next
  fix q :: DeadlineQueue and t :: DeadlineToken
  assume "dq_inv q"
  from dq_cancel[OF this, of t] show "\<exists>b q'. DeadlineQueue_cancel t q = (Inr b, q') \<and> dq_inv q' \<and> dq_nextGeneration q' = dq_nextGeneration q \<and>
     b = (t \<in> (dx_token \<circ> snd) ` set (dq_flat q)) \<and> (dx_token \<circ> snd) ` set (dq_flat q') = (dx_token \<circ> snd) ` set (dq_flat q) - {t}"
    by (fastforce simp: cancel_spec_def)
next
  fix q :: DeadlineQueue and now :: timestamp
  assume inv: "dq_inv q"
  from dq_advance[OF inv, of now] obtain r q' n where a: "DeadlineQueue_advance now q = (Inr r, q')" "dq_inv q'"
    "dq_nextGeneration q' = dq_nextGeneration q" and n: "dar_expired r = map snd (take n (dq_flat q))" "dq_flat q' = drop n (dq_flat q)"
    by (auto simp: advance_spec_def Let_def)
  have "distinct (map (dt_key \<circ> (dx_token \<circ> snd)) (dq_flat q))" using inv by (simp add: dq_inv_def comp_def)
  then have "distinct (map dt_key (map (dx_token \<circ> snd) (dq_flat q)))" by simp
  then have "distinct (map (dx_token \<circ> snd) (dq_flat q))" by (simp only: distinct_map)
  then have d: "distinct (map (dx_token \<circ> snd) (take n (dq_flat q)) @ map (dx_token \<circ> snd) (drop n (dq_flat q)))"
    by (metis append_take_drop_id map_append)
  have u: "set (map (dx_token \<circ> snd) (dq_flat q)) =
      set (map (dx_token \<circ> snd) (take n (dq_flat q))) \<union> set (map (dx_token \<circ> snd) (drop n (dq_flat q)))"
    by (metis append_take_drop_id map_append set_append)
  show "\<exists>r q'. DeadlineQueue_advance now q = (Inr r, q') \<and> dq_inv q' \<and> dq_nextGeneration q' = dq_nextGeneration q \<and>
     distinct (map dx_token (dar_expired r)) \<and> dx_token ` set (dar_expired r) \<subseteq> (dx_token \<circ> snd) ` set (dq_flat q) \<and>
     (dx_token \<circ> snd) ` set (dq_flat q') = (dx_token \<circ> snd) ` set (dq_flat q) - dx_token ` set (dar_expired r)"
    using a d u by (intro exI[of _ r] exI[of _ q']) (auto simp: n image_comp)
next
  fix q :: DeadlineQueue and t :: DeadlineToken
  assume "dq_inv q" "t \<in> (dx_token \<circ> snd) ` set (dq_flat q)"
  then show "dt_generation t < dq_nextGeneration q" unfolding dq_inv_def by fastforce
qed (auto dest: dq_schedule_fails)

section \<open>Properties\<close>

definition demo_queue :: DeadlineQueue where
  "demo_queue = \<lparr> dq_options = \<lparr> dqo_resolution = 10, dqo_maxExpiredPerAdvance = 2 \<rparr>, dq_nextGeneration = 1,
     dq_buckets = [], dq_entries = [] \<rparr>"

lemmas dq_eval = demo_queue_def DeadlineQueue_schedule_def DeadlineQueue_cancel_def DeadlineQueue_eraseLocation_def
  DeadlineQueue_advance_def DeadlineQueue_advanceLoop.simps DeadlineQueue_quantize_def dq_ready_def tdiv_def
  DeadlineToken_valid_def bm_push_def bm_bucket_def bm_erase_def om_erase_def size_max_def ts_max_def Let_def

lemma demo_queue_inv: "dq_inv demo_queue"
  by (simp add: dq_inv_def demo_queue_def bm_inv_def dq_flat_def size_max_def)

text \<open>C8. The bucket map with its key index implements one list ordered by quantized deadline, first in
  first out among equal deadlines: \<open>schedule\<close> replaces the entry of its key, \<open>cancel\<close> removes exactly its
  token, \<open>advance\<close> hands out the ready front up to its budget. All of them return and keep the
  invariant.\<close>

theorem deadline_queue_refines:
  assumes "dq_inv q"
  shows "(dq_nextGeneration q < size_max \<longrightarrow>
      (\<exists>q'. DeadlineQueue_schedule None k d q = (Inr \<lparr> dt_key = k, dt_generation = dq_nextGeneration q \<rparr>, q') \<and> dq_inv q' \<and>
         dq_flat q' = schedule_spec (dqo_resolution (dq_options q))
           \<lparr> dt_key = k, dt_generation = dq_nextGeneration q \<rparr> d (dq_flat q))) \<and>
    (\<exists>b q'. DeadlineQueue_cancel t q = (Inr b, q') \<and> dq_inv q' \<and> (b, dq_flat q') = cancel_spec t (dq_flat q)) \<and>
    (\<exists>r q' ready. DeadlineQueue_advance now q = (Inr r, q') \<and> dq_inv q' \<and>
       advance_spec (dqo_maxExpiredPerAdvance (dq_options q)) now (dq_flat q) = (ready, dq_flat q') \<and>
       dar_expired r = map snd ready \<and> dar_readyRemaining r = (\<exists>x \<in> set (dq_flat q'). fst x \<le> now))"
  using dq_schedule[OF assms, of k d] dq_cancel[OF assms, of t] dq_advance[OF assms, of now] by blast

theorem deadline_queue_refines_witness:
  "\<exists>q'. DeadlineQueue_schedule None 7 95 demo_queue = (Inr \<lparr> dt_key = 7, dt_generation = 1 \<rparr>, q') \<and>
     dq_flat q' = [(100, \<lparr> dx_token = \<lparr> dt_key = 7, dt_generation = 1 \<rparr>, dx_deadline = 95 \<rparr>)]"
  using conjunct1[OF deadline_queue_refines[OF demo_queue_inv, of 7 95]] by (simp add: dq_eval dq_flat_def)

text \<open>C9. A token is consumed at most once: in every run of \<open>schedule\<close>, \<open>cancel\<close> and \<open>advance\<close> calls, the
  tokens that expire together with those that \<open>cancel\<close> reports as removed are pairwise distinct, and
  none of them is still queued at the end.\<close>

theorem deadline_at_most_once:
  assumes "dq_inv q" "deadline_run (DeadlineQueue_schedule None) DeadlineQueue_cancel DeadlineQueue_advance cs q = (ls, q')"
  shows "distinct (consumed ls) \<and> set (consumed ls) \<inter> (dx_token \<circ> snd) ` set (dq_flat q') = {}"
  using deadlines.run_at_most_once[OF assms] by blast

definition demo_calls :: "deadline_call list" where
  "demo_calls = [Schedule 7 95, Schedule 8 12, Schedule 7 33, Cancel \<lparr> dt_key = 7, dt_generation = 1 \<rparr>, Advance 40,
     Advance 200, Cancel \<lparr> dt_key = 7, dt_generation = 3 \<rparr>]"

theorem deadline_at_most_once_witness:
  "\<exists>ls q'. deadline_run (DeadlineQueue_schedule None) DeadlineQueue_cancel DeadlineQueue_advance demo_calls demo_queue = (ls, q') \<and>
     map dt_generation (consumed ls) = [2, 3] \<and> distinct (consumed ls)"
proof -
  obtain ls q' where r: "deadline_run (DeadlineQueue_schedule None) DeadlineQueue_cancel DeadlineQueue_advance demo_calls demo_queue = (ls, q')"
    by fastforce
  then have g: "map dt_generation (consumed ls) = [2, 3]" by (auto simp: dq_eval demo_calls_def)
  show ?thesis
    by (intro exI conjI, rule r, rule g, rule conjunct1[OF deadline_at_most_once[OF demo_queue_inv r]])
qed

text \<open>C10. \<open>schedule\<close> has the strong exception guarantee: when an allocation fails at any of its three
  allocation points, or the generation space is exhausted, the queue is exactly as before.\<close>

theorem deadline_schedule_strong_guarantee:
  assumes "dq_inv q" "DeadlineQueue_schedule fault k d q = (Inl e, q')"
  shows "q' = q \<and> (e = OverflowError \<and> dq_nextGeneration q = size_max \<or> e = BadAlloc \<and> fault \<noteq> None)"
  by (rule dq_schedule_fails[OF assms])

theorem deadline_schedule_strong_guarantee_witness:
  "DeadlineQueue_schedule (Some FailIndex) 7 95 demo_queue = (Inl BadAlloc, demo_queue)"
proof -
  obtain q' where r: "DeadlineQueue_schedule (Some FailIndex) 7 95 demo_queue = (Inl BadAlloc, q')"
    by (simp add: dq_eval)
  with deadline_schedule_strong_guarantee[OF demo_queue_inv r] show ?thesis by simp
qed

text \<open>C11. \<open>advance\<close> never fires early, stays within its budget, and when it reports nothing ready it
  leaves only deadlines that are less than one resolution overdue.\<close>

theorem deadline_advance_timing:
  assumes inv: "dq_inv q" and range: "\<forall>x \<in> set (dq_flat q). dx_deadline (snd x) \<le> ts_max"
    and r: "DeadlineQueue_advance now q = (Inr r, q')"
  shows "(\<forall>x \<in> set (dar_expired r). dx_deadline x \<le> now) \<and>
    length (dar_expired r) \<le> dqo_maxExpiredPerAdvance (dq_options q) \<and>
    (\<not> dar_readyRemaining r \<longrightarrow> (\<forall>x \<in> set (dq_flat q'). now < dx_deadline (snd x) + dqo_resolution (dq_options q)))"
proof -
  define n where "n = min (dqo_maxExpiredPerAdvance (dq_options q)) (length (takeWhile (\<lambda>x. fst x \<le> now) (dq_flat q)))"
  from dq_advance[OF inv, of now] r have a: "dar_expired r = map snd (take n (dq_flat q))" "dq_flat q' = drop n (dq_flat q)"
    "dar_readyRemaining r = (\<exists>x \<in> set (dq_flat q'). fst x \<le> now)"
    by (auto simp: advance_spec_def n_def Let_def)
  have b: "\<forall>x \<in> set (dq_flat q). dx_deadline (snd x) \<le> fst x \<and> fst x < dx_deadline (snd x) + dqo_resolution (dq_options q)"
    using inv range quantize_ceiling(1,2) unfolding dq_inv_def by metis
  have "take n (dq_flat q) = take n (takeWhile (\<lambda>x. fst x \<le> now) (dq_flat q))"
    by (metis n_def min.cobounded2 min.absorb1 take_take takeWhile_eq_take)
  then have "\<forall>x \<in> set (take n (dq_flat q)). fst x \<le> now" by (metis in_set_takeD set_takeWhileD)
  then have "\<forall>x \<in> set (dar_expired r). dx_deadline x \<le> now"
    using b unfolding a(1) by (fastforce dest: in_set_takeD)
  moreover have "now < dx_deadline (snd x) + dqo_resolution (dq_options q)"
    if "\<not> dar_readyRemaining r" "x \<in> set (dq_flat q')" for x
  proof -
    have "now < fst x" "x \<in> set (dq_flat q)" using that by (auto simp: a dest: in_set_dropD)
    with b show ?thesis by fastforce
  qed
  moreover have "length (dar_expired r) \<le> dqo_maxExpiredPerAdvance (dq_options q)" by (simp add: a(1) n_def)
  ultimately show ?thesis by blast
qed

theorem deadline_advance_timing_witness:
  "\<exists>r q'. DeadlineQueue_advance 40 (snd (DeadlineQueue_schedule None 7 33 demo_queue)) = (Inr r, q') \<and>
     map dx_deadline (dar_expired r) = [33] \<and> (\<forall>x \<in> set (dar_expired r). dx_deadline x \<le> 40)"
proof -
  let ?q = "snd (DeadlineQueue_schedule None 7 33 demo_queue)"
  have i: "dq_inv ?q" using dq_schedule[OF demo_queue_inv, of 7 33] by (auto simp: demo_queue_def size_max_def)
  have m: "\<forall>x \<in> set (dq_flat ?q). dx_deadline (snd x) \<le> ts_max" by (simp add: dq_eval dq_flat_def)
  obtain r q' where r: "DeadlineQueue_advance 40 ?q = (Inr r, q')" "map dx_deadline (dar_expired r) = [33]"
    by (simp add: dq_eval)
  have "\<forall>x \<in> set (dar_expired r). dx_deadline x \<le> 40"
    using deadline_advance_timing[OF i m r(1)] by (rule conjunct1)
  with r show ?thesis by (intro exI[of _ r] exI[of _ q'] conjI)
qed

end
