(* ===== verification/Dispatch.thy ===== *)
theory Dispatch
  imports Gamenet_Prelude
begin

text \<open>
  The result vocabulary of cross-thread calls and the transport endpoint interface:
  \<open>src/include/gamenet/core/net/PostResult.h\<close>, \<open>core/DispatchResult.h\<close> and
  \<open>transport/TransportEndpoint.h\<close>. A \<open>shared_ptr\<close> to an endpoint is its identity and its session id.
\<close>

datatype PostResult = PostAccepted | PostQueueFull | PostOwnerUnavailable | PostShutdown

datatype DispatchResult =
    Accepted
  | QueueFull
  | OwnerUnavailable
  | Shutdown
  | EndpointClosed
  | EndpointOverloaded
  | PolicyRejected

fun dispatchResult :: "PostResult \<Rightarrow> DispatchResult" where
  "dispatchResult PostAccepted = Accepted"
| "dispatchResult PostQueueFull = QueueFull"
| "dispatchResult PostOwnerUnavailable = OwnerUnavailable"
| "dispatchResult PostShutdown = Shutdown"

datatype CloseReason = Normal | GoingAway | ProtocolError | Replaced | IdleTimeout | Overloaded

datatype EndpointResult = EpAccepted | EpClosed | EpWrongThread | EpOwnerUnavailable | EpOverloaded

record Endpoint =
  ep_ref :: nat
  ep_id :: nat

text \<open>The fallback \<open>requestClose\<close> of the interface. The executor's two answers and the result of
  \<open>close\<close> are its arguments.\<close>

definition TransportEndpoint_requestClose :: "bool \<Rightarrow> bool \<Rightarrow> EndpointResult \<Rightarrow> DispatchResult" where
  "TransportEndpoint_requestClose inOwnerThread available closed =
     (if \<not> inOwnerThread then (if available then PolicyRejected else OwnerUnavailable)
      else case closed of
        EpAccepted \<Rightarrow> Accepted
      | EpClosed \<Rightarrow> EndpointClosed
      | EpOwnerUnavailable \<Rightarrow> OwnerUnavailable
      | EpOverloaded \<Rightarrow> EndpointOverloaded
      | EpWrongThread \<Rightarrow> PolicyRejected)"

lemma dispatchResult_Accepted: "dispatchResult r = Accepted \<longleftrightarrow> r = PostAccepted"
  by (cases r) auto

end
