(* ===== verification/SessionManager.thy ===== *)
theory SessionManager
  imports DeadlineQueue Dispatch
begin

text \<open>
  Player sessions and their manager: \<open>src/src/game_session/PlayerSession.cc\<close>, \<open>SessionManager.cc\<close> and
  their headers. A \<open>shared_ptr<PlayerSession>\<close> is the address of the session in \<open>sm_store\<close>, so that
  both indexes, results and bindings share one object as in the code; sessions stay in the store after
  they leave the indexes. \<open>ps_currentGeneration\<close> is the shared \<open>SessionBinding::State\<close> of the session.
  \<open>sm_closes\<close> is the trace of \<open>requestClose\<close> calls. All operations run on the owner loop; a posted
  closure is a \<open>SessionTask\<close> and the executor's answer to \<open>post\<close> is an argument. Allocation failures
  of the two hash maps are not modelled.
\<close>

section \<open>Data\<close>

type_synonym PlayerId = string

datatype SessionState = Authenticating | Online | Offline

record SessionBinding =
  sb_sessionId :: nat
  sb_transportId :: nat
  sb_generation :: nat
  sb_state :: "nat option"

record PlayerSession =
  ps_sessionId :: nat
  ps_playerId :: PlayerId
  ps_state :: SessionState
  ps_endpoint :: Endpoint
  ps_lastActivity :: timestamp
  ps_generation :: nat
  ps_currentGeneration :: nat
  ps_idleDeadline :: DeadlineToken

datatype DuplicateLoginPolicy = ReplaceExisting | RejectNew

datatype AuthenticateStatus = Created | Existing | Rebound | Rejected

record AuthenticateResult =
  ar_status :: AuthenticateStatus
  ar_session :: "nat option"
  ar_dispatch :: DispatchResult

record IdleExpirationResult =
  ier_expired :: nat
  ier_readyRemaining :: bool

record SessionManagerOptions =
  smo_duplicateLogin :: DuplicateLoginPolicy
  smo_idleTimeout :: duration
  smo_idleDeadlineResolution :: duration
  smo_maxIdleExpirationsPerAdvance :: nat

datatype LifecycleState = LcRunning | LcShutdown

record SessionManager =
  sm_lifetime :: DispatchResult
  sm_lifecycle :: LifecycleState
  sm_options :: SessionManagerOptions
  sm_idleDeadlines :: DeadlineQueue
  sm_nextSessionId :: nat
  sm_nextBindingGeneration :: nat
  sm_byPlayer :: "(PlayerId \<times> nat) list"
  sm_byTransport :: "(nat \<times> nat) list"
  sm_store :: "PlayerSession list"
  sm_closes :: "(Endpoint \<times> CloseReason) list"

section \<open>Sessions and bindings\<close>

definition SessionBinding_tracked :: "SessionBinding \<Rightarrow> bool" where
  "SessionBinding_tracked b \<longleftrightarrow> sb_state b \<noteq> None \<and> sb_generation b \<noteq> 0"

definition SessionBinding_isCurrent :: "PlayerSession list \<Rightarrow> SessionBinding \<Rightarrow> bool" where
  "SessionBinding_isCurrent store b \<longleftrightarrow>
     \<not> SessionBinding_tracked b \<or> ps_currentGeneration (store ! the (sb_state b)) = sb_generation b"

definition PlayerSession_new ::
    "nat \<Rightarrow> PlayerId \<Rightarrow> Endpoint option \<Rightarrow> nat \<Rightarrow> timestamp \<Rightarrow> PlayerSession outcome" where
  "PlayerSession_new sessionId playerId endpoint generation now =
     (case endpoint of
        None \<Rightarrow> Inl InvalidArgument
      | Some ep \<Rightarrow>
          if playerId = [] \<or> generation = 0 then Inl InvalidArgument
          else Inr \<lparr> ps_sessionId = sessionId, ps_playerId = playerId, ps_state = Authenticating,
                     ps_endpoint = ep, ps_lastActivity = now, ps_generation = generation,
                     ps_currentGeneration = generation, ps_idleDeadline = DeadlineToken_null \<rparr>)"

definition PlayerSession_transportId :: "PlayerSession \<Rightarrow> nat" where
  "PlayerSession_transportId s = ep_id (ps_endpoint s)"

definition PlayerSession_binding :: "nat \<Rightarrow> PlayerSession \<Rightarrow> SessionBinding" where
  "PlayerSession_binding addr s =
     \<lparr> sb_sessionId = ps_sessionId s, sb_transportId = PlayerSession_transportId s,
       sb_generation = ps_generation s, sb_state = Some addr \<rparr>"

definition PlayerSession_markOnline :: "timestamp \<Rightarrow> PlayerSession \<Rightarrow> PlayerSession" where
  "PlayerSession_markOnline now s = s\<lparr> ps_state := Online, ps_lastActivity := now \<rparr>"

definition PlayerSession_markOffline :: "PlayerSession \<Rightarrow> PlayerSession" where
  "PlayerSession_markOffline s = s\<lparr> ps_currentGeneration := 0, ps_state := Offline \<rparr>"

definition PlayerSession_rebind ::
    "Endpoint option \<Rightarrow> nat \<Rightarrow> timestamp \<Rightarrow> PlayerSession \<Rightarrow> unit outcome \<times> PlayerSession" where
  "PlayerSession_rebind endpoint generation now s =
     (case endpoint of
        None \<Rightarrow> (Inl InvalidArgument, s)
      | Some ep \<Rightarrow>
          if generation = 0 then (Inl InvalidArgument, s)
          else (Inr (), PlayerSession_markOnline now
                  (s\<lparr> ps_endpoint := ep, ps_generation := generation, ps_currentGeneration := generation \<rparr>)))"

definition PlayerSession_refreshBinding :: "nat \<Rightarrow> timestamp \<Rightarrow> PlayerSession \<Rightarrow> PlayerSession" where
  "PlayerSession_refreshBinding generation now s =
     PlayerSession_markOnline now (s\<lparr> ps_generation := generation, ps_currentGeneration := generation \<rparr>)"

definition PlayerSession_heartbeat :: "timestamp \<Rightarrow> PlayerSession \<Rightarrow> PlayerSession" where
  "PlayerSession_heartbeat now s = s\<lparr> ps_lastActivity := now \<rparr>"

section \<open>The manager\<close>

definition LifetimeState_revoke :: "DispatchResult \<Rightarrow> SessionManager \<Rightarrow> SessionManager" where
  "LifetimeState_revoke r m = (if sm_lifetime m = Accepted then m\<lparr> sm_lifetime := r \<rparr> else m)"

definition SessionManager_new :: "SessionManagerOptions \<Rightarrow> SessionManager outcome" where
  "SessionManager_new opts =
     (case DeadlineQueue_new \<lparr> dqo_resolution = smo_idleDeadlineResolution opts,
              dqo_maxExpiredPerAdvance = smo_maxIdleExpirationsPerAdvance opts \<rparr> of
        Inl e \<Rightarrow> Inl e
      | Inr q \<Rightarrow>
          if smo_idleTimeout opts \<le> 0 then Inl InvalidArgument
          else Inr \<lparr> sm_lifetime = Accepted, sm_lifecycle = LcRunning, sm_options = opts,
                     sm_idleDeadlines = q, sm_nextSessionId = 1, sm_nextBindingGeneration = 1,
                     sm_byPlayer = [], sm_byTransport = [], sm_store = [], sm_closes = [] \<rparr>)"

definition SessionManager_destroy :: "SessionManager \<Rightarrow> SessionManager" where
  "SessionManager_destroy m = LifetimeState_revoke OwnerUnavailable m"

abbreviation sm_session :: "SessionManager \<Rightarrow> nat \<Rightarrow> PlayerSession" where
  "sm_session m addr \<equiv> sm_store m ! addr"

definition sm_modify :: "nat \<Rightarrow> (PlayerSession \<Rightarrow> PlayerSession) \<Rightarrow> SessionManager \<Rightarrow> SessionManager" where
  "sm_modify addr f m = m\<lparr> sm_store := (sm_store m)[addr := f (sm_session m addr)] \<rparr>"

definition SessionManager_closeEndpoint :: "Endpoint option \<Rightarrow> CloseReason \<Rightarrow> SessionManager \<Rightarrow> SessionManager" where
  "SessionManager_closeEndpoint endpoint reason m =
     (case endpoint of None \<Rightarrow> m | Some ep \<Rightarrow> m\<lparr> sm_closes := sm_closes m @ [(ep, reason)] \<rparr>)"

text \<open>The statement \<open>session->idleDeadline_ = idleDeadlines_->schedule(transportId, deadline)\<close>.\<close>

definition SessionManager_armIdle :: "nat \<Rightarrow> timestamp \<Rightarrow> SessionManager \<Rightarrow> unit outcome \<times> SessionManager" where
  "SessionManager_armIdle addr deadline m =
     (case DeadlineQueue_schedule None (PlayerSession_transportId (sm_session m addr)) deadline (sm_idleDeadlines m) of
        (Inl e, q) \<Rightarrow> (Inl e, m\<lparr> sm_idleDeadlines := q \<rparr>)
      | (Inr token, q) \<Rightarrow>
          (Inr (), sm_modify addr (\<lambda>s. s\<lparr> ps_idleDeadline := token \<rparr>) (m\<lparr> sm_idleDeadlines := q \<rparr>)))"

definition SessionManager_findByPlayer :: "PlayerId \<Rightarrow> SessionManager \<Rightarrow> nat option" where
  "SessionManager_findByPlayer playerId m = map_of (sm_byPlayer m) playerId"

definition SessionManager_findByTransport :: "nat \<Rightarrow> SessionManager \<Rightarrow> nat option" where
  "SessionManager_findByTransport transportId m = map_of (sm_byTransport m) transportId"

definition SessionManager_size :: "SessionManager \<Rightarrow> nat" where
  "SessionManager_size m = length (sm_byPlayer m)"

definition rejected :: "nat option \<Rightarrow> DispatchResult \<Rightarrow> AuthenticateResult" where
  "rejected session dispatch = \<lparr> ar_status = Rejected, ar_session = session, ar_dispatch = dispatch \<rparr>"

text \<open>The three branches of \<open>authenticate\<close> that bind: a new session, the same transport again, and
  a transport that replaces the current one.\<close>

definition authenticate_create ::
    "PlayerId \<Rightarrow> Endpoint \<Rightarrow> timestamp \<Rightarrow> SessionManager \<Rightarrow> AuthenticateResult outcome \<times> SessionManager" where
  "authenticate_create playerId endpoint now m =
     (let m1 = m\<lparr> sm_nextSessionId := u64_inc (sm_nextSessionId m),
                  sm_nextBindingGeneration := u64_inc (sm_nextBindingGeneration m) \<rparr>
      in case PlayerSession_new (sm_nextSessionId m) playerId (Some endpoint) (sm_nextBindingGeneration m) now of
           Inl e \<Rightarrow> (Inl e, m1)
         | Inr s \<Rightarrow>
             let addr = length (sm_store m1);
                 m2 = m1\<lparr> sm_store := sm_store m1 @ [PlayerSession_markOnline now s] \<rparr>
             in case SessionManager_armIdle addr (now + smo_idleTimeout (sm_options m2)) m2 of
                  (Inl e, m3) \<Rightarrow> (Inl e, m3)
                | (Inr _, m3) \<Rightarrow>
                    (Inr \<lparr> ar_status = Created, ar_session = Some addr, ar_dispatch = Accepted \<rparr>,
                     m3\<lparr> sm_byTransport := AList.update (PlayerSession_transportId (sm_session m3 addr)) addr (sm_byTransport m3),
                         sm_byPlayer := AList.update (ps_playerId (sm_session m3 addr)) addr (sm_byPlayer m3) \<rparr>))"

definition authenticate_refresh ::
    "nat \<Rightarrow> timestamp \<Rightarrow> SessionManager \<Rightarrow> AuthenticateResult outcome \<times> SessionManager" where
  "authenticate_refresh addr now m =
     (let m1 = sm_modify addr (PlayerSession_refreshBinding (sm_nextBindingGeneration m) now)
                 (m\<lparr> sm_nextBindingGeneration := u64_inc (sm_nextBindingGeneration m) \<rparr>)
      in case SessionManager_armIdle addr (now + smo_idleTimeout (sm_options m1)) m1 of
           (Inl e, m2) \<Rightarrow> (Inl e, m2)
         | (Inr _, m2) \<Rightarrow> (Inr \<lparr> ar_status = Existing, ar_session = Some addr, ar_dispatch = Accepted \<rparr>, m2))"

definition authenticate_rebind ::
    "nat \<Rightarrow> Endpoint \<Rightarrow> timestamp \<Rightarrow> SessionManager \<Rightarrow> AuthenticateResult outcome \<times> SessionManager" where
  "authenticate_rebind addr endpoint now m =
     (let previousEndpoint = ps_endpoint (sm_session m addr) in
      case DeadlineQueue_cancel (ps_idleDeadline (sm_session m addr)) (sm_idleDeadlines m) of
        (Inl e, q) \<Rightarrow> (Inl e, m\<lparr> sm_idleDeadlines := q \<rparr>)
      | (Inr _, q) \<Rightarrow>
          let m1 = m\<lparr> sm_idleDeadlines := q,
                      sm_byTransport := AList.delete (PlayerSession_transportId (sm_session m addr)) (sm_byTransport m),
                      sm_nextBindingGeneration := u64_inc (sm_nextBindingGeneration m) \<rparr>
          in case PlayerSession_rebind (Some endpoint) (sm_nextBindingGeneration m) now (sm_session m addr) of
               (Inl e, s) \<Rightarrow> (Inl e, sm_modify addr (\<lambda>_. s) m1)
             | (Inr _, s) \<Rightarrow>
                 let m2 = sm_modify addr (\<lambda>_. s) m1
                 in case SessionManager_armIdle addr (now + smo_idleTimeout (sm_options m2)) m2 of
                      (Inl e, m3) \<Rightarrow> (Inl e, m3)
                    | (Inr _, m3) \<Rightarrow>
                        (Inr \<lparr> ar_status = Rebound, ar_session = Some addr, ar_dispatch = Accepted \<rparr>,
                         SessionManager_closeEndpoint (Some previousEndpoint) Replaced
                           (m3\<lparr> sm_byTransport := AList.update (PlayerSession_transportId (sm_session m3 addr)) addr
                                                    (sm_byTransport m3) \<rparr>)))"

definition SessionManager_authenticate ::
    "PlayerId \<Rightarrow> Endpoint option \<Rightarrow> timestamp \<Rightarrow> SessionManager \<Rightarrow> AuthenticateResult outcome \<times> SessionManager" where
  "SessionManager_authenticate playerId endpoint now m =
     (if sm_lifecycle m \<noteq> LcRunning then (Inr (rejected None Shutdown), m)
      else case endpoint of
        None \<Rightarrow> (Inr (rejected None PolicyRejected), m)
      | Some ep \<Rightarrow>
          if playerId = [] then (Inr (rejected None PolicyRejected), m)
          else if (case map_of (sm_byTransport m) (ep_id ep) of
                     None \<Rightarrow> False
                   | Some bound \<Rightarrow> \<not> (ps_playerId (sm_session m bound) = playerId \<and> ps_endpoint (sm_session m bound) = ep))
          then (Inr (rejected None PolicyRejected),
                if ps_endpoint (sm_session m (the (map_of (sm_byTransport m) (ep_id ep)))) \<noteq> ep
                then SessionManager_closeEndpoint (Some ep) ProtocolError m else m)
          else case map_of (sm_byPlayer m) playerId of
                 None \<Rightarrow> authenticate_create playerId ep now m
               | Some addr \<Rightarrow>
                   if PlayerSession_transportId (sm_session m addr) = ep_id ep then authenticate_refresh addr now m
                   else if smo_duplicateLogin (sm_options m) = RejectNew
                   then (Inr (rejected (Some addr) PolicyRejected), m)
                   else authenticate_rebind addr ep now m)"

definition SessionManager_eraseSession :: "nat \<Rightarrow> SessionManager \<Rightarrow> unit outcome \<times> SessionManager" where
  "SessionManager_eraseSession addr m =
     (let s = sm_session m addr in
      case DeadlineQueue_cancel (ps_idleDeadline s) (sm_idleDeadlines m) of
        (Inl e, q) \<Rightarrow> (Inl e, m\<lparr> sm_idleDeadlines := q \<rparr>)
      | (Inr _, q) \<Rightarrow>
          (Inr (), sm_modify addr (\<lambda>s. PlayerSession_markOffline (s\<lparr> ps_idleDeadline := DeadlineToken_null \<rparr>))
             (m\<lparr> sm_idleDeadlines := q,
                 sm_byTransport := AList.delete (PlayerSession_transportId s) (sm_byTransport m),
                 sm_byPlayer := (if map_of (sm_byPlayer m) (ps_playerId s) = Some addr
                                 then AList.delete (ps_playerId s) (sm_byPlayer m) else sm_byPlayer m) \<rparr>)))"

definition SessionManager_offline :: "nat \<Rightarrow> SessionManager \<Rightarrow> bool outcome \<times> SessionManager" where
  "SessionManager_offline transportId m =
     (if sm_lifecycle m \<noteq> LcRunning then (Inr False, m)
      else case map_of (sm_byTransport m) transportId of
        None \<Rightarrow> (Inr False, m)
      | Some addr \<Rightarrow>
          if PlayerSession_transportId (sm_session m addr) \<noteq> transportId then (Inr False, m)
          else case SessionManager_eraseSession addr m of
                 (Inl e, m1) \<Rightarrow> (Inl e, m1)
               | (Inr _, m1) \<Rightarrow> (Inr True, m1))"

definition SessionManager_heartbeat :: "nat \<Rightarrow> timestamp \<Rightarrow> SessionManager \<Rightarrow> bool outcome \<times> SessionManager" where
  "SessionManager_heartbeat transportId now m =
     (if sm_lifecycle m \<noteq> LcRunning then (Inr False, m)
      else case SessionManager_findByTransport transportId m of
        None \<Rightarrow> (Inr False, m)
      | Some addr \<Rightarrow>
          if PlayerSession_transportId (sm_session m addr) \<noteq> transportId then (Inr False, m)
          else case SessionManager_armIdle addr (now + smo_idleTimeout (sm_options m))
                      (sm_modify addr (PlayerSession_heartbeat now) m) of
                 (Inl e, m1) \<Rightarrow> (Inl e, m1)
               | (Inr _, m1) \<Rightarrow> (Inr True, m1))"

text \<open>The loop of \<open>expireIdleBatch\<close> over the expirations.\<close>

fun expireIdleEach :: "timestamp \<Rightarrow> DeadlineExpiration list \<Rightarrow> nat \<Rightarrow> SessionManager \<Rightarrow> nat outcome \<times> SessionManager" where
  "expireIdleEach now [] expired m = (Inr expired, m)"
| "expireIdleEach now (x # xs) expired m =
     (case SessionManager_findByTransport (dt_key (dx_token x)) m of
        None \<Rightarrow> expireIdleEach now xs expired m
      | Some addr \<Rightarrow>
          if ps_idleDeadline (sm_session m addr) \<noteq> dx_token x then expireIdleEach now xs expired m
          else if now - ps_lastActivity (sm_session m addr) < smo_idleTimeout (sm_options m)
          then (case SessionManager_armIdle addr (ps_lastActivity (sm_session m addr) + smo_idleTimeout (sm_options m)) m of
                  (Inl e, m1) \<Rightarrow> (Inl e, m1)
                | (Inr _, m1) \<Rightarrow> expireIdleEach now xs expired m1)
          else (case SessionManager_eraseSession addr m of
                  (Inl e, m1) \<Rightarrow> (Inl e, m1)
                | (Inr _, m1) \<Rightarrow>
                    expireIdleEach now xs (expired + 1)
                      (SessionManager_closeEndpoint (Some (ps_endpoint (sm_session m addr))) IdleTimeout m1)))"

definition SessionManager_expireIdleBatch ::
    "timestamp \<Rightarrow> SessionManager \<Rightarrow> IdleExpirationResult outcome \<times> SessionManager" where
  "SessionManager_expireIdleBatch now m =
     (if sm_lifecycle m \<noteq> LcRunning then (Inr \<lparr> ier_expired = 0, ier_readyRemaining = False \<rparr>, m)
      else case DeadlineQueue_advance now (sm_idleDeadlines m) of
        (Inl e, q) \<Rightarrow> (Inl e, m\<lparr> sm_idleDeadlines := q \<rparr>)
      | (Inr ready, q) \<Rightarrow>
          (case expireIdleEach now (dar_expired ready) 0 (m\<lparr> sm_idleDeadlines := q \<rparr>) of
             (Inl e, m1) \<Rightarrow> (Inl e, m1)
           | (Inr n, m1) \<Rightarrow>
               (Inr \<lparr> ier_expired = n, ier_readyRemaining = dar_readyRemaining ready \<rparr>, m1)))"

text \<open>The do-while loop of \<open>expireIdle\<close>; \<open>None\<close> would be a loop that never ends.\<close>

partial_function (option) SessionManager_expireIdleLoop ::
    "timestamp \<Rightarrow> nat \<Rightarrow> SessionManager \<Rightarrow> (nat outcome \<times> SessionManager) option" where
  "SessionManager_expireIdleLoop now expired m =
     (case SessionManager_expireIdleBatch now m of
        (Inl e, m1) \<Rightarrow> Some (Inl e, m1)
      | (Inr batch, m1) \<Rightarrow>
          if ier_readyRemaining batch
          then SessionManager_expireIdleLoop now (expired + ier_expired batch) m1
          else Some (Inr (expired + ier_expired batch), m1))"

definition SessionManager_expireIdle :: "timestamp \<Rightarrow> SessionManager \<Rightarrow> (nat outcome \<times> SessionManager) option" where
  "SessionManager_expireIdle now m = SessionManager_expireIdleLoop now 0 m"

text \<open>The iteration order of the hash map is that of the association list.\<close>

definition SessionManager_shutdown :: "SessionManager \<Rightarrow> SessionManager" where
  "SessionManager_shutdown m =
     (if sm_lifecycle m = LcShutdown then m
      else let m1 = (LifetimeState_revoke Shutdown m)\<lparr> sm_lifecycle := LcShutdown \<rparr>;
               addrs = map snd (sm_byPlayer m1);
               endpoints = map (\<lambda>a. ps_endpoint (sm_session m1 a)) addrs;
               m2 = fold (\<lambda>a. sm_modify a PlayerSession_markOffline) addrs m1;
               m3 = m2\<lparr> sm_byTransport := [], sm_byPlayer := [],
                        sm_idleDeadlines := DeadlineQueue_clear (sm_idleDeadlines m2) \<rparr>
           in fold (\<lambda>ep. SessionManager_closeEndpoint (Some ep) GoingAway) endpoints m3)"

section \<open>Posted operations\<close>

datatype SessionTask =
    AuthenticateTask PlayerId "Endpoint option"
  | OfflineTask nat
  | HeartbeatTask nat

datatype TaskResult = AuthenticateDone AuthenticateResult | MutationDone DispatchResult

text \<open>What \<open>postAuthenticate\<close>, \<open>postOffline\<close> and \<open>postHeartbeat\<close> return; the closure is queued iff
  the executor accepted it.\<close>

definition SessionManager_post :: "PostResult \<Rightarrow> SessionManager \<Rightarrow> DispatchResult" where
  "SessionManager_post posted m = (if sm_lifetime m \<noteq> Accepted then sm_lifetime m else dispatchResult posted)"

text \<open>A queued closure when it runs, and what it hands to the callback. \<open>alive\<close> is whether
  \<open>lifetime.lock()\<close> still finds the manager.\<close>

definition refuseTask :: "SessionTask \<Rightarrow> DispatchResult \<Rightarrow> TaskResult" where
  "refuseTask task r =
     (case task of AuthenticateTask _ _ \<Rightarrow> AuthenticateDone (rejected None r) | _ \<Rightarrow> MutationDone r)"

definition SessionManager_runTask ::
    "bool \<Rightarrow> timestamp \<Rightarrow> SessionTask \<Rightarrow> SessionManager \<Rightarrow> TaskResult outcome \<times> SessionManager" where
  "SessionManager_runTask alive now task m =
     (if \<not> alive then (Inr (refuseTask task OwnerUnavailable), m)
      else if sm_lifetime m \<noteq> Accepted then (Inr (refuseTask task (sm_lifetime m)), m)
      else case task of
        AuthenticateTask playerId endpoint \<Rightarrow>
          (case SessionManager_authenticate playerId endpoint now m of
             (Inl e, m1) \<Rightarrow> (Inl e, m1) | (Inr r, m1) \<Rightarrow> (Inr (AuthenticateDone r), m1))
      | OfflineTask transportId \<Rightarrow>
          (case SessionManager_offline transportId m of
             (Inl e, m1) \<Rightarrow> (Inl e, m1)
           | (Inr b, m1) \<Rightarrow> (Inr (MutationDone (if b then Accepted else PolicyRejected)), m1))
      | HeartbeatTask transportId \<Rightarrow>
          (case SessionManager_heartbeat transportId now m of
             (Inl e, m1) \<Rightarrow> (Inl e, m1)
           | (Inr b, m1) \<Rightarrow> (Inr (MutationDone (if b then Accepted else PolicyRejected)), m1)))"

end
