(* ===== verification/GameCommandQueue.thy ===== *)
theory GameCommandQueue
  imports SessionManager
begin

text \<open>
  The bounded command queue between the network loops and the logic loop:
  \<open>src/src/game_logic/GameCommandQueue.cc\<close> and \<open>include/gamenet/game_logic/GameCommand.h\<close>. Every
  operation holds the queue's mutex for its whole body, so that a concurrent execution is a sequence of
  the steps below. \<open>time_point{}\<close> is 0 and the clock is an argument. The Boolean arguments of \<open>submit\<close>
  and \<open>drain\<close> say whether the allocation of that call throws.
\<close>

section \<open>Data\<close>

datatype CommandPriority = LowPriority | NormalPriority | HighPriority

record GameCommand =
  gc_sessionId :: nat
  gc_transportId :: nat
  gc_binding :: SessionBinding
  gc_messageId :: nat
  gc_requestId :: nat
  gc_priority :: CommandPriority
  gc_payload :: bytes
  gc_enqueuedAt :: timestamp

datatype SubmitResult = SubmitAccepted | SubmitQueueFull | PayloadTooLarge | Stopped | StaleBinding

record QueueLimits =
  ql_maxCommands :: nat
  ql_maxQueuedBytes :: nat
  ql_maxPayloadBytes :: nat

record QueueSnapshot =
  qs_depth :: nat
  qs_queuedBytes :: nat
  qs_depthHighWatermark :: nat
  qs_bytesHighWatermark :: nat
  qs_accepted :: nat
  qs_rejectedFull :: nat
  qs_rejectedPayload :: nat
  qs_rejectedStopped :: nat
  qs_rejectedStale :: nat
  qs_droppedStale :: nat
  qs_droppedOnStop :: nat
  qs_droppedBytesOnStop :: nat
  qs_accepting :: bool

record QueueDiscardSummary =
  qd_droppedCommands :: nat
  qd_droppedBytes :: nat

record GameCommandQueue =
  cq_limits :: QueueLimits
  cq_queue :: "GameCommand list"
  cq_queuedBytes :: nat
  cq_depthHighWatermark :: nat
  cq_bytesHighWatermark :: nat
  cq_accepted :: nat
  cq_rejectedFull :: nat
  cq_rejectedPayload :: nat
  cq_rejectedStopped :: nat
  cq_droppedOnStop :: nat
  cq_droppedBytesOnStop :: nat
  cq_accepting :: bool

section \<open>Operations\<close>

definition GameCommandQueue_new :: "QueueLimits \<Rightarrow> GameCommandQueue outcome" where
  "GameCommandQueue_new limits =
     (if ql_maxCommands limits = 0 \<or> ql_maxQueuedBytes limits = 0 \<or> ql_maxPayloadBytes limits = 0 \<or>
         ql_maxPayloadBytes limits > ql_maxQueuedBytes limits
      then Inl InvalidArgument
      else Inr \<lparr> cq_limits = limits, cq_queue = [], cq_queuedBytes = 0, cq_depthHighWatermark = 0,
                 cq_bytesHighWatermark = 0, cq_accepted = 0, cq_rejectedFull = 0, cq_rejectedPayload = 0,
                 cq_rejectedStopped = 0, cq_droppedOnStop = 0, cq_droppedBytesOnStop = 0, cq_accepting = True \<rparr>)"

text \<open>The time stamp that \<open>submit\<close> gives to a command that has none.\<close>

definition submit_stamp :: "timestamp \<Rightarrow> GameCommand \<Rightarrow> GameCommand" where
  "submit_stamp now command = (if gc_enqueuedAt command = 0 then command\<lparr> gc_enqueuedAt := now \<rparr> else command)"

definition GameCommandQueue_submit ::
    "bool \<Rightarrow> timestamp \<Rightarrow> GameCommand \<Rightarrow> GameCommandQueue \<Rightarrow> SubmitResult outcome \<times> GameCommandQueue" where
  "GameCommandQueue_submit pushFails now command q =
     (let bytes = length (gc_payload command) in
      if \<not> cq_accepting q then (Inr Stopped, q\<lparr> cq_rejectedStopped := u64_inc (cq_rejectedStopped q) \<rparr>)
      else if bytes > ql_maxPayloadBytes (cq_limits q)
      then (Inr PayloadTooLarge, q\<lparr> cq_rejectedPayload := u64_inc (cq_rejectedPayload q) \<rparr>)
      else if length (cq_queue q) \<ge> ql_maxCommands (cq_limits q) \<or>
              bytes > sz_sub (ql_maxQueuedBytes (cq_limits q)) (cq_queuedBytes q)
      then (Inr SubmitQueueFull, q\<lparr> cq_rejectedFull := u64_inc (cq_rejectedFull q) \<rparr>)
      else let command' = submit_stamp now command;
               q1 = q\<lparr> cq_queuedBytes := sz_add (cq_queuedBytes q) bytes \<rparr>
           in if pushFails then (Inl BadAlloc, q1)
              else let q2 = q1\<lparr> cq_queue := cq_queue q1 @ [command'], cq_accepted := u64_inc (cq_accepted q1) \<rparr>
                   in (Inr SubmitAccepted,
                       q2\<lparr> cq_depthHighWatermark := max (cq_depthHighWatermark q2) (length (cq_queue q2)),
                           cq_bytesHighWatermark := max (cq_bytesHighWatermark q2) (cq_queuedBytes q2) \<rparr>))"

text \<open>The loop of \<open>drain\<close>; it never meets an empty queue because \<open>count\<close> is at most the size.\<close>

fun drainLoop :: "nat \<Rightarrow> GameCommandQueue \<Rightarrow> GameCommand list \<times> GameCommandQueue" where
  "drainLoop 0 q = ([], q)"
| "drainLoop (Suc n) q =
     (case cq_queue q of
        [] \<Rightarrow> ([], q)
      | front # rest \<Rightarrow>
          (case drainLoop n (q\<lparr> cq_queuedBytes := sz_sub (cq_queuedBytes q) (length (gc_payload front)),
                               cq_queue := rest \<rparr>) of
             (result, q') \<Rightarrow> (front # result, q')))"

definition GameCommandQueue_drain ::
    "bool \<Rightarrow> nat \<Rightarrow> GameCommandQueue \<Rightarrow> GameCommand list outcome \<times> GameCommandQueue" where
  "GameCommandQueue_drain reserveFails maxCommands q =
     (let count = min maxCommands (length (cq_queue q)) in
      if reserveFails then (Inl BadAlloc, q)
      else case drainLoop count q of (result, q') \<Rightarrow> (Inr result, q'))"

definition GameCommandQueue_snapshot :: "GameCommandQueue \<Rightarrow> QueueSnapshot" where
  "GameCommandQueue_snapshot q =
     \<lparr> qs_depth = length (cq_queue q), qs_queuedBytes = cq_queuedBytes q,
       qs_depthHighWatermark = cq_depthHighWatermark q, qs_bytesHighWatermark = cq_bytesHighWatermark q,
       qs_accepted = cq_accepted q, qs_rejectedFull = cq_rejectedFull q, qs_rejectedPayload = cq_rejectedPayload q,
       qs_rejectedStopped = cq_rejectedStopped q, qs_rejectedStale = 0, qs_droppedStale = 0,
       qs_droppedOnStop = cq_droppedOnStop q, qs_droppedBytesOnStop = cq_droppedBytesOnStop q,
       qs_accepting = cq_accepting q \<rparr>"

definition GameCommandQueue_close :: "GameCommandQueue \<Rightarrow> GameCommandQueue" where
  "GameCommandQueue_close q = q\<lparr> cq_accepting := False \<rparr>"

definition GameCommandQueue_closeAndDiscard :: "GameCommandQueue \<Rightarrow> QueueDiscardSummary \<times> GameCommandQueue" where
  "GameCommandQueue_closeAndDiscard q =
     (let summary = \<lparr> qd_droppedCommands = length (cq_queue q), qd_droppedBytes = cq_queuedBytes q \<rparr>
      in (summary,
          q\<lparr> cq_accepting := False,
             cq_droppedOnStop := sz_add (cq_droppedOnStop q) (qd_droppedCommands summary),
             cq_droppedBytesOnStop := sz_add (cq_droppedBytesOnStop q) (qd_droppedBytes summary),
             cq_queue := [], cq_queuedBytes := 0 \<rparr>))"

section \<open>Runs and their accounting\<close>

text \<open>A step of some thread, and what an observer of the calls records: the commands accepted (as they
  were stamped), drained and discarded, and the bytes of submissions that threw.\<close>

datatype command_op =
    Submit bool timestamp GameCommand
  | Drain bool nat
  | Close
  | CloseAndDiscard

record command_log =
  lg_accepted :: "GameCommand list"
  lg_drained :: "GameCommand list"
  lg_dropped :: "GameCommand list"
  lg_leaked :: nat

fun command_step :: "command_op \<Rightarrow> GameCommandQueue \<times> command_log \<Rightarrow> GameCommandQueue \<times> command_log" where
  "command_step (Submit pushFails now c) (q, l) =
     (case GameCommandQueue_submit pushFails now c q of
        (Inr r, q') \<Rightarrow> (q', if r = SubmitAccepted then l\<lparr> lg_accepted := lg_accepted l @ [submit_stamp now c] \<rparr> else l)
      | (Inl _, q') \<Rightarrow> (q', l\<lparr> lg_leaked := lg_leaked l + length (gc_payload c) \<rparr>))"
| "command_step (Drain reserveFails n) (q, l) =
     (case GameCommandQueue_drain reserveFails n q of
        (Inr cs, q') \<Rightarrow> (q', l\<lparr> lg_drained := lg_drained l @ cs \<rparr>)
      | (Inl _, q') \<Rightarrow> (q', l))"
| "command_step Close (q, l) = (GameCommandQueue_close q, l)"
| "command_step CloseAndDiscard (q, l) =
     (snd (GameCommandQueue_closeAndDiscard q), l\<lparr> lg_dropped := lg_dropped l @ cq_queue q, lg_leaked := 0 \<rparr>)"

definition command_run :: "command_op list \<Rightarrow> GameCommandQueue \<Rightarrow> GameCommandQueue \<times> command_log" where
  "command_run ops q = fold command_step ops (q, \<lparr> lg_accepted = [], lg_drained = [], lg_dropped = [], lg_leaked = 0 \<rparr>)"

abbreviation commands_bytes :: "GameCommand list \<Rightarrow> nat" where
  "commands_bytes cs \<equiv> sum_list (map (\<lambda>c. length (gc_payload c)) cs)"

text \<open>The invariant, with the bytes that failed submissions left behind.\<close>

definition cq_inv :: "nat \<Rightarrow> GameCommandQueue \<Rightarrow> bool" where
  "cq_inv leaked q \<longleftrightarrow>
     cq_queuedBytes q = commands_bytes (cq_queue q) + leaked \<and>
     cq_queuedBytes q \<le> ql_maxQueuedBytes (cq_limits q) \<and> ql_maxQueuedBytes (cq_limits q) \<le> size_max \<and>
     length (cq_queue q) \<le> ql_maxCommands (cq_limits q) \<and>
     length (cq_queue q) \<le> cq_depthHighWatermark q \<and> cq_depthHighWatermark q \<le> ql_maxCommands (cq_limits q) \<and>
     commands_bytes (cq_queue q) \<le> cq_bytesHighWatermark q \<and> cq_bytesHighWatermark q \<le> ql_maxQueuedBytes (cq_limits q) \<and>
     (\<forall>c \<in> set (cq_queue q). length (gc_payload c) \<le> ql_maxPayloadBytes (cq_limits q))"

lemma GameCommandQueue_new_inv:
  "GameCommandQueue_new lim = Inr q \<Longrightarrow> ql_maxQueuedBytes lim \<le> size_max \<Longrightarrow> cq_inv 0 q \<and> cq_limits q = lim"
  by (auto simp: GameCommandQueue_new_def cq_inv_def split: if_splits)

lemma submit_stamp_payload [simp]: "gc_payload (submit_stamp now c) = gc_payload c"
  by (simp add: submit_stamp_def)

text \<open>\<open>submit\<close> admits exactly the commands that fit; neither of its sums wraps.\<close>

lemma cq_submit:
  assumes "cq_inv k q"
  shows "GameCommandQueue_submit pushFails now c q =
    (if \<not> cq_accepting q then (Inr Stopped, q\<lparr> cq_rejectedStopped := u64_inc (cq_rejectedStopped q) \<rparr>)
     else if length (gc_payload c) > ql_maxPayloadBytes (cq_limits q)
     then (Inr PayloadTooLarge, q\<lparr> cq_rejectedPayload := u64_inc (cq_rejectedPayload q) \<rparr>)
     else if length (cq_queue q) \<ge> ql_maxCommands (cq_limits q) \<or>
        commands_bytes (cq_queue q) + k + length (gc_payload c) > ql_maxQueuedBytes (cq_limits q)
     then (Inr SubmitQueueFull, q\<lparr> cq_rejectedFull := u64_inc (cq_rejectedFull q) \<rparr>)
     else if pushFails then (Inl BadAlloc, q\<lparr> cq_queuedBytes := cq_queuedBytes q + length (gc_payload c) \<rparr>)
     else (Inr SubmitAccepted,
        q\<lparr> cq_queuedBytes := cq_queuedBytes q + length (gc_payload c), cq_queue := cq_queue q @ [submit_stamp now c],
           cq_accepted := u64_inc (cq_accepted q),
           cq_depthHighWatermark := max (cq_depthHighWatermark q) (Suc (length (cq_queue q))),
           cq_bytesHighWatermark := max (cq_bytesHighWatermark q) (cq_queuedBytes q + length (gc_payload c)) \<rparr>))"
proof -
  have b: "cq_queuedBytes q = commands_bytes (cq_queue q) + k" "cq_queuedBytes q \<le> ql_maxQueuedBytes (cq_limits q)"
    "ql_maxQueuedBytes (cq_limits q) \<le> size_max"
    using assms by (simp_all add: cq_inv_def)
  then have "length (gc_payload c) > sz_sub (ql_maxQueuedBytes (cq_limits q)) (cq_queuedBytes q) \<longleftrightarrow>
      commands_bytes (cq_queue q) + k + length (gc_payload c) > ql_maxQueuedBytes (cq_limits q)"
    by auto
  moreover have "sz_add (cq_queuedBytes q) (length (gc_payload c)) = cq_queuedBytes q + length (gc_payload c)"
    if "\<not> commands_bytes (cq_queue q) + k + length (gc_payload c) > ql_maxQueuedBytes (cq_limits q)"
    using that b by (intro sz_add_small) linarith
  ultimately show ?thesis by (simp add: GameCommandQueue_submit_def Let_def)
qed

lemma cq_drainLoop:
  "cq_inv k q \<Longrightarrow> n \<le> length (cq_queue q) \<Longrightarrow>
    drainLoop n q = (take n (cq_queue q),
      q\<lparr> cq_queuedBytes := commands_bytes (drop n (cq_queue q)) + k, cq_queue := drop n (cq_queue q) \<rparr>) \<and>
    cq_inv k (q\<lparr> cq_queuedBytes := commands_bytes (drop n (cq_queue q)) + k, cq_queue := drop n (cq_queue q) \<rparr>)"
proof (induction n arbitrary: q)
  case 0
  then show ?case by (cases q) (simp add: cq_inv_def)
next
  case (Suc n)
  then obtain c cs where q: "cq_queue q = c # cs" by (cases "cq_queue q") auto
  let ?q = "q\<lparr> cq_queuedBytes := sz_sub (cq_queuedBytes q) (length (gc_payload c)), cq_queue := cs \<rparr>"
  have i: "cq_inv k ?q" using Suc.prems(1) by (auto simp: cq_inv_def q)
  have "n \<le> length (cq_queue ?q)" using Suc.prems(2) by (simp add: q)
  from Suc.IH[OF i this] show ?case by (simp add: q)
qed

lemma cq_drain:
  assumes "cq_inv k q"
  shows "GameCommandQueue_drain reserveFails n q =
      (if reserveFails then (Inl BadAlloc, q)
       else (Inr (take n (cq_queue q)),
             q\<lparr> cq_queuedBytes := commands_bytes (drop n (cq_queue q)) + k, cq_queue := drop n (cq_queue q) \<rparr>)) \<and>
    cq_inv k (snd (GameCommandQueue_drain reserveFails n q))"
proof -
  have e: "take (min n (length xs)) xs = take n xs" "drop (min n (length xs)) xs = drop n xs" for xs :: "GameCommand list"
    by (simp_all add: min_def)
  show ?thesis
    using cq_drainLoop[OF assms, of "min n (length (cq_queue q))"] assms unfolding e
    by (simp add: GameCommandQueue_drain_def)
qed

lemma cq_closeAndDiscard: "cq_inv k q \<Longrightarrow> cq_inv 0 (snd (GameCommandQueue_closeAndDiscard q))"
  by (auto simp: GameCommandQueue_closeAndDiscard_def cq_inv_def)

definition log_ok :: "GameCommandQueue \<Rightarrow> command_log \<Rightarrow> bool" where
  "log_ok q l \<longleftrightarrow> cq_inv (lg_leaked l) q \<and> lg_accepted l = lg_drained l @ lg_dropped l @ cq_queue q \<and>
     (lg_dropped l \<noteq> [] \<longrightarrow> cq_queue q = [] \<and> \<not> cq_accepting q) \<and>
     cq_accepted q = length (lg_accepted l) mod 2 ^ 64 \<and> cq_droppedOnStop q = length (lg_dropped l) mod 2 ^ 64"

lemma command_step_ok:
  assumes "log_ok q l" "command_step op (q, l) = (q', l')"
  shows "log_ok q' l' \<and> cq_limits q' = cq_limits q"
proof (cases op)
  case (Submit f now c)
  have i: "cq_inv (lg_leaked l) q" using assms(1) by (simp add: log_ok_def)
  show ?thesis
    using assms unfolding Submit command_step.simps cq_submit[OF i]
    by (auto simp: log_ok_def cq_inv_def u64_inc_mod[simplified] split: if_splits)
next
  case (Drain f n)
  have i: "cq_inv (lg_leaked l) q" using assms(1) by (simp add: log_ok_def)
  show ?thesis
  proof (cases f)
    case True
    then show ?thesis using assms cq_drain[OF i, of f n] Drain by simp
  next
    case False
    with cq_drain[OF i, of f n] assms Drain show ?thesis by (auto simp: log_ok_def)
  qed
next
  case Close
  then show ?thesis using assms by (auto simp: log_ok_def GameCommandQueue_close_def cq_inv_def)
next
  case CloseAndDiscard
  then show ?thesis using assms cq_closeAndDiscard[of "lg_leaked l" q]
    by (auto simp: log_ok_def GameCommandQueue_closeAndDiscard_def sz_add_mod[simplified])
qed

lemma command_fold_ok: "log_ok q l \<Longrightarrow> fold command_step ops (q, l) = (q', l') \<Longrightarrow> log_ok q' l' \<and> cq_limits q' = cq_limits q"
proof (induction ops arbitrary: q l)
  case (Cons op ops)
  obtain q1 l1 where s: "command_step op (q, l) = (q1, l1)" by fastforce
  from Cons.IH[of q1 l1] command_step_ok[OF Cons.prems(1) s] Cons.prems(2) s show ?case by simp
qed simp

lemma command_run_ok:
  assumes new: "GameCommandQueue_new limits = Inr q0" and "ql_maxQueuedBytes limits \<le> size_max" and run: "command_run ops q0 = (q, l)"
  shows "log_ok q l \<and> cq_limits q = limits"
proof -
  note n = GameCommandQueue_new_inv[OF assms(1,2)]
  have "cq_queue q0 = [] \<and> cq_accepted q0 = 0 \<and> cq_droppedOnStop q0 = 0"
    using new by (auto simp: GameCommandQueue_new_def split: if_splits)
  with n have "log_ok q0 \<lparr> lg_accepted = [], lg_drained = [], lg_dropped = [], lg_leaked = 0 \<rparr>"
    by (simp add: log_ok_def)
  from command_fold_ok[OF this run[unfolded command_run_def]] n show ?thesis by simp
qed

section \<open>Properties\<close>

definition demo_limits :: QueueLimits where
  "demo_limits = \<lparr> ql_maxCommands = 3, ql_maxQueuedBytes = 6, ql_maxPayloadBytes = 4 \<rparr>"

definition demo_command :: "nat \<Rightarrow> bytes \<Rightarrow> GameCommand" where
  "demo_command n p = \<lparr> gc_sessionId = 1, gc_transportId = 7,
     gc_binding = \<lparr> sb_sessionId = 1, sb_transportId = 7, sb_generation = 3, sb_state = Some 0 \<rparr>,
     gc_messageId = n, gc_requestId = n, gc_priority = NormalPriority, gc_payload = p, gc_enqueuedAt = 1 \<rparr>"

definition demo_command_queue :: GameCommandQueue where
  "demo_command_queue = \<lparr> cq_limits = demo_limits, cq_queue = [], cq_queuedBytes = 0, cq_depthHighWatermark = 0,
     cq_bytesHighWatermark = 0, cq_accepted = 0, cq_rejectedFull = 0, cq_rejectedPayload = 0,
     cq_rejectedStopped = 0, cq_droppedOnStop = 0, cq_droppedBytesOnStop = 0, cq_accepting = True \<rparr>"

lemma demo_command_queue_new: "GameCommandQueue_new demo_limits = Inr demo_command_queue"
  by (simp add: GameCommandQueue_new_def demo_limits_def demo_command_queue_def)

lemmas cq_eval = demo_limits_def demo_command_def demo_command_queue_def GameCommandQueue_submit_def GameCommandQueue_drain_def
  GameCommandQueue_close_def GameCommandQueue_closeAndDiscard_def submit_stamp_def u64_inc_def sz_add_def sz_sub_def

text \<open>C17. Conservation and order of commands, for every interleaving of submissions, drains and closes of a
  new queue: the accepted commands, as stamped, are exactly the drained ones followed by the discarded
  ones followed by the queued ones, in order. Depth and queued bytes stay within the limits, and the
  byte counter is the size of the queued payloads plus the payloads of submissions that threw since the
  last discard (which \<open>submit\<close> has counted before \<open>push_back\<close> throws).\<close>

theorem command_queue_conservation:
  assumes "GameCommandQueue_new limits = Inr q0" "ql_maxQueuedBytes limits \<le> size_max" "command_run ops q0 = (q, l)"
  shows "lg_accepted l = lg_drained l @ lg_dropped l @ cq_queue q \<and>
    cq_queuedBytes q = commands_bytes (cq_queue q) + lg_leaked l \<and>
    cq_queuedBytes q \<le> ql_maxQueuedBytes limits \<and> length (cq_queue q) \<le> ql_maxCommands limits \<and>
    (\<forall>c \<in> set (cq_queue q). length (gc_payload c) \<le> ql_maxPayloadBytes limits) \<and>
    length (cq_queue q) \<le> cq_depthHighWatermark q \<and> cq_depthHighWatermark q \<le> ql_maxCommands limits \<and>
    cq_accepted q = length (lg_accepted l) mod 2 ^ 64 \<and> cq_droppedOnStop q = length (lg_dropped l) mod 2 ^ 64"
proof -
  from command_run_ok[OF assms(1-3)] show ?thesis
    unfolding log_ok_def cq_inv_def by (elim conjE) simp
qed

theorem command_queue_conservation_witness:
  "\<exists>q l. command_run [Submit False 5 (demo_command 9 ''abc''), Submit True 6 (demo_command 2 ''x''), Submit False 7 (demo_command 3 ''yz''),
       Submit False 8 (demo_command 4 ''w''), Drain False 1, CloseAndDiscard] demo_command_queue = (q, l) \<and>
     lg_accepted l = lg_drained l @ lg_dropped l @ cq_queue q \<and> lg_drained l = [demo_command 9 ''abc''] \<and>
     lg_dropped l = [demo_command 3 ''yz''] \<and> cq_rejectedFull q = 1"
proof -
  let ?ops = "[Submit False 5 (demo_command 9 ''abc''), Submit True 6 (demo_command 2 ''x''), Submit False 7 (demo_command 3 ''yz''),
       Submit False 8 (demo_command 4 ''w''), Drain False 1, CloseAndDiscard]"
  obtain q l where r: "command_run ?ops demo_command_queue = (q, l)" by fastforce
  then have f: "lg_drained l = [demo_command 9 ''abc'']" "lg_dropped l = [demo_command 3 ''yz'']" "cq_rejectedFull q = 1"
    by (auto simp: command_run_def cq_eval)
  have m: "ql_maxQueuedBytes demo_limits \<le> size_max" by (simp add: demo_limits_def size_max_def)
  from command_queue_conservation[OF demo_command_queue_new m r] r f show ?thesis by blast
qed



end
