(* ===== verification/Session_Invariants.thy ===== *)
theory Session_Invariants
  imports SessionManager
begin

text \<open>
  The invariant of the session manager and that every operation keeps it: the player index and the
  transport index are inverse to each other on the indexed sessions, and the deadline queue, read as a
  finite map from transport to entry, holds exactly the idle deadlines of the indexed sessions. The
  relation \<open>bind_step\<close> bounds how an operation may change the generation that a binding compares with.
\<close>

section \<open>The deadline queue as a map\<close>

definition dq_lookup :: "DeadlineQueue \<Rightarrow> nat \<Rightarrow> DeadlineExpiration option" where
  "dq_lookup q k = map_option loc_entry (map_of (dq_entries q) k)"

lemma dq_lookup_iff:
  assumes "dq_inv q"
  shows "dq_lookup q k = Some x \<longleftrightarrow> dt_key (dx_token x) = k \<and> (\<exists>t. (t, x) \<in> set (dq_flat q))"
proof
  assume "dq_lookup q k = Some x"
  then obtain l where "map_of (dq_entries q) k = Some l" "loc_entry l = x" by (auto simp: dq_lookup_def)
  with dq_index[OF assms, of k l] show "dt_key (dx_token x) = k \<and> (\<exists>t. (t, x) \<in> set (dq_flat q))" by auto
next
  assume "dt_key (dx_token x) = k \<and> (\<exists>t. (t, x) \<in> set (dq_flat q))"
  then obtain t where "dt_key (dx_token x) = k" "(t, x) \<in> set (dq_flat q)" by auto
  with dq_index[OF assms, of k "\<lparr> loc_bucketDeadline = t, loc_entry = x \<rparr>"] show "dq_lookup q k = Some x"
    by (simp add: dq_lookup_def)
qed

lemma dq_lookup_eqI:
  assumes "dq_inv q" "\<And>k x. (dt_key (dx_token x) = k \<and> (\<exists>t. (t, x) \<in> set (dq_flat q))) \<longleftrightarrow> f k = Some x"
  shows "dq_lookup q = f"
proof
  fix k
  have "dq_lookup q k = Some x \<longleftrightarrow> f k = Some x" for x using dq_lookup_iff[OF assms(1), of k x] assms(2)[of x k] by simp
  then show "dq_lookup q k = f k" by (metis option.exhaust)
qed

lemma dq_lookup_key: "dq_inv q \<Longrightarrow> dq_lookup q k = Some x \<Longrightarrow> dt_key (dx_token x) = k"
  by (simp add: dq_lookup_iff)

lemma dq_lookup_schedule:
  assumes "dq_inv q" "dq_nextGeneration q < size_max"
  obtains t q' where "DeadlineQueue_schedule None k d q = (Inr t, q')" "dq_inv q'" "dt_key t = k"
    "dq_lookup q' = (dq_lookup q)(k \<mapsto> \<lparr> dx_token = t, dx_deadline = d \<rparr>)" "dq_options q' = dq_options q"
    "dq_nextGeneration q' = Suc (dq_nextGeneration q)"
proof -
  define t where "t = \<lparr> dt_key = k, dt_generation = dq_nextGeneration q \<rparr>"
  from dq_schedule[OF assms, of k d] obtain q' where q': "DeadlineQueue_schedule None k d q = (Inr t, q')" "dq_inv q'"
    "dq_flat q' = schedule_spec (dqo_resolution (dq_options q)) t d (dq_flat q)" "dq_options q' = dq_options q"
    "dq_nextGeneration q' = Suc (dq_nextGeneration q)"
    by (auto simp: t_def)
  have "dq_lookup q' = (dq_lookup q)(k \<mapsto> \<lparr> dx_token = t, dx_deadline = d \<rparr>)"
  proof (rule dq_lookup_eqI[OF q'(2)])
    fix k' x
    show "(dt_key (dx_token x) = k' \<and> (\<exists>t. (t, x) \<in> set (dq_flat q'))) \<longleftrightarrow>
        ((dq_lookup q)(k \<mapsto> \<lparr> dx_token = t, dx_deadline = d \<rparr>)) k' = Some x"
      using dq_lookup_iff[OF assms(1), of k' x] by (auto simp: q'(3) schedule_spec_def t_def)
  qed
  with q' show ?thesis by (intro that[of t q']) (auto simp: t_def)
qed

lemma dq_lookup_cancel:
  assumes "dq_inv q" "dq_lookup q (dt_key t) = Some x" "dx_token x = t"
  obtains q' where "DeadlineQueue_cancel t q = (Inr True, q')" "dq_inv q'"
    "dq_lookup q' = (dq_lookup q)(dt_key t := None)" "dq_options q' = dq_options q" "dq_nextGeneration q' = dq_nextGeneration q"
proof -
  from dq_cancel[OF assms(1), of t] obtain b q' where q': "DeadlineQueue_cancel t q = (Inr b, q')" "dq_inv q'"
    "b = (t \<in> (\<lambda>x. dx_token (snd x)) ` set (dq_flat q))" "dq_flat q' = filter (\<lambda>x. dx_token (snd x) \<noteq> t) (dq_flat q)"
    "dq_options q' = dq_options q" "dq_nextGeneration q' = dq_nextGeneration q" by (auto simp: cancel_spec_def)
  have x: "\<exists>s. (s, x) \<in> set (dq_flat q)" using assms dq_lookup_iff[OF assms(1)] by blast
  then have b using assms(3) q'(3) by force
  have uniq: "dx_token y = t" if "(s, y) \<in> set (dq_flat q)" "dt_key (dx_token y) = dt_key t" for s y
    using dq_flat_keys_inj[OF assms(1) that(1)] x that assms(3) by fastforce
  have "dq_lookup q' = (dq_lookup q)(dt_key t := None)"
  proof (rule dq_lookup_eqI[OF q'(2)])
    fix k' y
    show "(dt_key (dx_token y) = k' \<and> (\<exists>s. (s, y) \<in> set (dq_flat q'))) \<longleftrightarrow> ((dq_lookup q)(dt_key t := None)) k' = Some y"
      using dq_lookup_iff[OF assms(1), of k' y] uniq by (auto simp: q'(4))
  qed
  with q' \<open>b\<close> show ?thesis by (intro that[of q']) auto
qed

lemma dq_cancel_absent:
  assumes "dq_inv q" "dq_lookup q (dt_key t) = None"
  shows "DeadlineQueue_cancel t q = (Inr False, q)"
  using assms by (auto simp: DeadlineQueue_cancel_def dq_lookup_def)

lemma dq_lookup_advance:
  assumes inv: "dq_inv q"
  obtains r q' where "DeadlineQueue_advance now q = (Inr r, q')" "dq_inv q'" "dq_options q' = dq_options q"
    "dq_nextGeneration q' = dq_nextGeneration q" "distinct (map (\<lambda>x. dt_key (dx_token x)) (dar_expired r))"
    "\<And>x. x \<in> set (dar_expired r) \<Longrightarrow> dq_lookup q (dt_key (dx_token x)) = Some x \<and>
       (\<exists>b. (b, x) \<in> set (dq_flat q) \<and> b \<le> now)"
    "\<And>k. dq_lookup q' k = (if k \<in> (\<lambda>x. dt_key (dx_token x)) ` set (dar_expired r) then None else dq_lookup q k)"
    "dar_readyRemaining r = (\<exists>x \<in> set (dq_flat q'). fst x \<le> now)"
    "length (dar_expired r) + length (dq_flat q') = length (dq_flat q)"
    "dar_readyRemaining r \<Longrightarrow> dar_expired r \<noteq> []"
proof -
  define n where "n = min (dqo_maxExpiredPerAdvance (dq_options q)) (length (takeWhile (\<lambda>x. fst x \<le> now) (dq_flat q)))"
  from dq_advance[OF inv, of now] obtain r q' ready where q': "DeadlineQueue_advance now q = (Inr r, q')" "dq_inv q'" "dq_options q' = dq_options q"
    "dq_nextGeneration q' = dq_nextGeneration q"
    and s: "advance_spec (dqo_maxExpiredPerAdvance (dq_options q)) now (dq_flat q) = (ready, dq_flat q')" "dar_expired r = map snd ready"
    and rr: "dar_readyRemaining r = (\<exists>x \<in> set (dq_flat q'). fst x \<le> now)" by blast
  have e: "dar_expired r = map snd (take n (dq_flat q))" "dq_flat q' = drop n (dq_flat q)"
    using s by (auto simp: advance_spec_def n_def Let_def)
  have d: "distinct (map dl_key (take n (dq_flat q)) @ map dl_key (drop n (dq_flat q)))"
    using inv by (metis append_take_drop_id map_append dq_inv_def)
  have "take n (dq_flat q) = take n (takeWhile (\<lambda>x. fst x \<le> now) (dq_flat q))"
    by (metis n_def min.cobounded2 min.absorb1 take_take takeWhile_eq_take)
  then have due: "\<forall>x \<in> set (take n (dq_flat q)). fst x \<le> now" by (metis in_set_takeD set_takeWhileD)
  have n: "n \<le> length (dq_flat q)" unfolding n_def by (metis length_takeWhile_le min.coboundedI2)
  show ?thesis
  proof (rule that[OF q'])
    show "distinct (map (\<lambda>x. dt_key (dx_token x)) (dar_expired r))" using d by (simp add: e comp_def)
    show "dq_lookup q (dt_key (dx_token x)) = Some x \<and> (\<exists>b. (b, x) \<in> set (dq_flat q) \<and> b \<le> now)"
      if "x \<in> set (dar_expired r)" for x
      using that due dq_lookup_iff[OF inv, of "dt_key (dx_token x)" x] by (fastforce simp: e dest: in_set_takeD)
    show "dq_lookup q' k = (if k \<in> (\<lambda>x. dt_key (dx_token x)) ` set (dar_expired r) then None else dq_lookup q k)" for k
    proof -
      have "dq_lookup q' = (\<lambda>k. if k \<in> (\<lambda>x. dt_key (dx_token x)) ` set (dar_expired r) then None else dq_lookup q k)"
      proof (rule dq_lookup_eqI[OF q'(2)])
        fix k y
        have u: "set (dq_flat q) = set (take n (dq_flat q)) \<union> set (drop n (dq_flat q))" by (metis append_take_drop_id set_append)
        have dis: "dl_key ` set (take n (dq_flat q)) \<inter> dl_key ` set (drop n (dq_flat q)) = {}" using d by simp
        have ex: "(\<lambda>x. dt_key (dx_token x)) ` set (dar_expired r) = dl_key ` set (take n (dq_flat q))"
          by (simp add: e image_image)
        show "(dt_key (dx_token y) = k \<and> (\<exists>s. (s, y) \<in> set (dq_flat q'))) \<longleftrightarrow>
            (if k \<in> (\<lambda>x. dt_key (dx_token x)) ` set (dar_expired r) then None else dq_lookup q k) = Some y"
        proof (cases "k \<in> dl_key ` set (take n (dq_flat q))")
          case True
          then have "dt_key (dx_token y) \<noteq> k" if "(s, y) \<in> set (drop n (dq_flat q))" for s
            using dis imageI[OF that, of dl_key] by auto
          with True show ?thesis unfolding ex e(2) by auto
        next
          case False
          then have "dt_key (dx_token y) = k \<Longrightarrow> (s, y) \<notin> set (take n (dq_flat q))" for s by force
          then have "dt_key (dx_token y) = k \<Longrightarrow> (\<exists>s. (s, y) \<in> set (dq_flat q)) \<longleftrightarrow> (\<exists>s. (s, y) \<in> set (drop n (dq_flat q)))"
            unfolding u by blast
          with dq_lookup_iff[OF inv, of k y] show ?thesis unfolding ex e(2) if_not_P[OF False] by metis
        qed
      qed
      then show ?thesis by simp
    qed
    show "dar_readyRemaining r = (\<exists>x \<in> set (dq_flat q'). fst x \<le> now)" by (rule rr)
    show "length (dar_expired r) + length (dq_flat q') = length (dq_flat q)" using n by (simp add: e)
    show "dar_expired r \<noteq> []" if rdy: "dar_readyRemaining r"
    proof -
      obtain x where x: "x \<in> set (dq_flat q)" "fst x \<le> now"
        using rdy unfolding rr e(2) by (blast dest: in_set_dropD)
      moreover have "sorted (map fst (dq_flat q))" using inv sorted_bm_flat unfolding dq_inv_def dq_flat_def by blast
      ultimately have "takeWhile (\<lambda>x. fst x \<le> now) (dq_flat q) \<noteq> []" by (cases "dq_flat q") auto
      moreover have "0 < dqo_maxExpiredPerAdvance (dq_options q)" using inv by (simp add: dq_inv_def)
      ultimately have "n \<noteq> 0" by (simp add: n_def)
      with n x(1) show ?thesis by (cases "dq_flat q") (auto simp: e)
    qed
  qed
qed

lemma dq_clear:
  assumes "dq_inv q"
  shows "dq_inv (DeadlineQueue_clear q)" "dq_lookup (DeadlineQueue_clear q) = (\<lambda>_. None)" "dq_flat (DeadlineQueue_clear q) = []"
  using assms by (auto simp: dq_inv_def DeadlineQueue_clear_def dq_lookup_def bm_inv_def dq_flat_def)

section \<open>Invariant\<close>

text \<open>The deadline a bound session is waiting for.\<close>

definition idle_entry :: "SessionManager \<Rightarrow> nat \<Rightarrow> DeadlineExpiration" where
  "idle_entry m a = \<lparr> dx_token = ps_idleDeadline (sm_session m a),
     dx_deadline = ps_lastActivity (sm_session m a) + smo_idleTimeout (sm_options m) \<rparr>"

text \<open>The part of the invariant on the two indexes and the bindings, over the maps they denote: they
  are inverse to each other, an indexed session is online with its own generation current, and a
  session outside the indexes has no current generation.\<close>

definition idx_ok :: "(PlayerId \<rightharpoonup> nat) \<Rightarrow> (nat \<rightharpoonup> nat) \<Rightarrow> PlayerSession list \<Rightarrow> nat \<Rightarrow> bool" where
  "idx_ok bp bt st g \<longleftrightarrow>
     (\<forall>p a. bp p = Some a \<longrightarrow> a < length st \<and> ps_playerId (st ! a) = p \<and> bt (PlayerSession_transportId (st ! a)) = Some a) \<and>
     (\<forall>t a. bt t = Some a \<longrightarrow> a < length st \<and> PlayerSession_transportId (st ! a) = t \<and> bp (ps_playerId (st ! a)) = Some a \<and>
        ps_state (st ! a) = Online \<and> ps_currentGeneration (st ! a) = ps_generation (st ! a) \<and> 0 < ps_generation (st ! a)) \<and>
     (\<forall>a < length st. (\<forall>t. bt t \<noteq> Some a) \<longrightarrow> ps_currentGeneration (st ! a) = 0) \<and>
     (\<forall>a < length st. ps_generation (st ! a) < g) \<and> 0 < g"

definition sm_indexed :: "SessionManager \<Rightarrow> bool" where
  "sm_indexed m \<longleftrightarrow> distinct (map fst (sm_byPlayer m)) \<and> distinct (map fst (sm_byTransport m)) \<and>
     idx_ok (map_of (sm_byPlayer m)) (map_of (sm_byTransport m)) (sm_store m) (sm_nextBindingGeneration m) \<and>
     (sm_lifecycle m = LcShutdown \<longrightarrow> sm_byPlayer m = [] \<and> sm_byTransport m = [])"

lemma idx_ok_touch:
  assumes "idx_ok bp bt st g" "ps_playerId s = ps_playerId (st ! a)" "ps_endpoint s = ps_endpoint (st ! a)"
    and "ps_state s = ps_state (st ! a)" "ps_currentGeneration s = ps_currentGeneration (st ! a)" "ps_generation s = ps_generation (st ! a)"
  shows "idx_ok bp bt (st[a := s]) g"
proof -
  have "ps_playerId (st[a := s] ! i) = ps_playerId (st ! i) \<and> ps_endpoint (st[a := s] ! i) = ps_endpoint (st ! i) \<and>
      ps_state (st[a := s] ! i) = ps_state (st ! i) \<and> ps_currentGeneration (st[a := s] ! i) = ps_currentGeneration (st ! i) \<and>
      ps_generation (st[a := s] ! i) = ps_generation (st ! i)" for i
    using assms(2-6) by (cases "a < length st"; cases "i = a") (auto simp: list_update_beyond)
  with assms(1) show ?thesis by (simp add: idx_ok_def PlayerSession_transportId_def)
qed

text \<open>Every bound transport has exactly its session's deadline queued; \<open>away\<close> are the keys that an
  expiry has taken out of the queue and not yet handled.\<close>

definition sm_armed :: "nat set \<Rightarrow> SessionManager \<Rightarrow> bool" where
  "sm_armed away m \<longleftrightarrow> dq_inv (sm_idleDeadlines m) \<and> 0 < smo_idleTimeout (sm_options m) \<and>
     dq_options (sm_idleDeadlines m) = \<lparr> dqo_resolution = smo_idleDeadlineResolution (sm_options m),
        dqo_maxExpiredPerAdvance = smo_maxIdleExpirationsPerAdvance (sm_options m) \<rparr> \<and>
     (\<forall>t. dq_lookup (sm_idleDeadlines m) t =
        (if t \<in> away then None else map_option (idle_entry m) (map_of (sm_byTransport m) t)))"

definition sm_inv :: "SessionManager \<Rightarrow> bool" where
  "sm_inv m \<longleftrightarrow> sm_indexed m \<and> sm_armed {} m"

text \<open>Room for one more generation in both counters.\<close>

definition sm_fresh :: "SessionManager \<Rightarrow> bool" where
  "sm_fresh m \<longleftrightarrow> dq_nextGeneration (sm_idleDeadlines m) < size_max \<and> sm_nextBindingGeneration m < size_max"

lemma sm_indexedD:
  assumes "sm_indexed m"
  shows "map_of (sm_byPlayer m) p = Some a \<Longrightarrow> a < length (sm_store m) \<and> ps_playerId (sm_session m a) = p \<and>
        map_of (sm_byTransport m) (PlayerSession_transportId (sm_session m a)) = Some a"
    and "map_of (sm_byTransport m) t = Some a \<Longrightarrow> a < length (sm_store m) \<and>
        PlayerSession_transportId (sm_session m a) = t \<and> map_of (sm_byPlayer m) (ps_playerId (sm_session m a)) = Some a \<and>
        ps_state (sm_session m a) = Online \<and> ps_currentGeneration (sm_session m a) = ps_generation (sm_session m a) \<and>
        0 < ps_generation (sm_session m a)"
  using assms unfolding sm_indexed_def idx_ok_def by blast+

lemma sm_armedD:
  assumes "sm_armed K m" "map_of (sm_byTransport m) t = Some a" "t \<notin> K"
  shows "dq_lookup (sm_idleDeadlines m) t = Some (idle_entry m a)" "dt_key (ps_idleDeadline (sm_session m a)) = t"
proof -
  show l: "dq_lookup (sm_idleDeadlines m) t = Some (idle_entry m a)" using assms by (simp add: sm_armed_def)
  from dq_lookup_key[OF _ l] assms(1) show "dt_key (ps_idleDeadline (sm_session m a)) = t"
    by (simp add: sm_armed_def idle_entry_def)
qed

section \<open>Arming a deadline\<close>

lemma armIdle_ok:
  assumes q: "dq_inv (sm_idleDeadlines m)" "dq_nextGeneration (sm_idleDeadlines m) < size_max" and a: "a < length (sm_store m)"
  defines "t \<equiv> PlayerSession_transportId (sm_session m a)"
  obtains token q' where "SessionManager_armIdle a d m = (Inr (), m\<lparr> sm_idleDeadlines := q',
        sm_store := (sm_store m)[a := (sm_session m a)\<lparr> ps_idleDeadline := token \<rparr>] \<rparr>)"
    "dq_inv q'" "dt_key token = t" "dq_options q' = dq_options (sm_idleDeadlines m)"
    "dq_lookup q' = (dq_lookup (sm_idleDeadlines m))(t \<mapsto> \<lparr> dx_token = token, dx_deadline = d \<rparr>)"
    "dq_nextGeneration q' = Suc (dq_nextGeneration (sm_idleDeadlines m))"
proof -
  from dq_lookup_schedule[OF q, of t d] obtain token q' where s: "DeadlineQueue_schedule None t d (sm_idleDeadlines m) = (Inr token, q')"
    "dq_inv q'" "dt_key token = t" "dq_lookup q' = (dq_lookup (sm_idleDeadlines m))(t \<mapsto> \<lparr> dx_token = token, dx_deadline = d \<rparr>)"
    "dq_options q' = dq_options (sm_idleDeadlines m)" "dq_nextGeneration q' = Suc (dq_nextGeneration (sm_idleDeadlines m))" .
  then show ?thesis
    by (intro that[of token q']) (auto simp: SessionManager_armIdle_def sm_modify_def t_def)
qed

text \<open>Arming the deadline of a session that both indexes agree on.\<close>

lemma armIdle_inv:
  assumes ix: "sm_indexed m" and q: "dq_inv (sm_idleDeadlines m)" "dq_nextGeneration (sm_idleDeadlines m) < size_max"
    and o: "0 < smo_idleTimeout (sm_options m)" "dq_options (sm_idleDeadlines m) = \<lparr> dqo_resolution = smo_idleDeadlineResolution (sm_options m),
        dqo_maxExpiredPerAdvance = smo_maxIdleExpirationsPerAdvance (sm_options m) \<rparr>"
    and bound: "map_of (sm_byTransport m) t = Some a"
    and rest: "\<And>t'. t' \<noteq> t \<Longrightarrow> dq_lookup (sm_idleDeadlines m) t' =
       (if t' \<in> K then None else map_option (idle_entry m) (map_of (sm_byTransport m) t'))"
    and d: "d = ps_lastActivity (sm_session m a) + smo_idleTimeout (sm_options m)"
  shows "\<exists>m'. SessionManager_armIdle a d m = (Inr (), m') \<and> sm_indexed m' \<and> sm_armed (K - {t}) m' \<and>
     sm_closes m' = sm_closes m \<and> sm_byTransport m' = sm_byTransport m \<and> sm_byPlayer m' = sm_byPlayer m \<and>
     sm_options m' = sm_options m \<and> sm_lifecycle m' = sm_lifecycle m \<and> sm_lifetime m' = sm_lifetime m \<and>
     (\<exists>token. sm_store m' = (sm_store m)[a := (sm_session m a)\<lparr> ps_idleDeadline := token \<rparr>])"
proof -
  note a = sm_indexedD(2)[OF ix bound]
  from armIdle_ok[OF q conjunct1[OF a], of d] obtain token q' where
    r: "SessionManager_armIdle a d m = (Inr (), m\<lparr> sm_idleDeadlines := q',
        sm_store := (sm_store m)[a := (sm_session m a)\<lparr> ps_idleDeadline := token \<rparr>] \<rparr>)"
    and q': "dq_inv q'" "dq_options q' = dq_options (sm_idleDeadlines m)"
    "dq_lookup q' = (dq_lookup (sm_idleDeadlines m))(t \<mapsto> \<lparr> dx_token = token, dx_deadline = d \<rparr>)"
    using a by metis
  let ?m = "m\<lparr> sm_idleDeadlines := q', sm_store := (sm_store m)[a := (sm_session m a)\<lparr> ps_idleDeadline := token \<rparr>] \<rparr>"
  have s: "sm_session ?m i = (if i = a then (sm_session m a)\<lparr> ps_idleDeadline := token \<rparr> else sm_session m i)"
    if "i < length (sm_store m)" for i using that by (simp add: nth_list_update)
  have "sm_indexed ?m"
    using ix idx_ok_touch[of _ _ "sm_store m" _ "(sm_session m a)\<lparr> ps_idleDeadline := token \<rparr>" a] by (simp add: sm_indexed_def)
  moreover have "dq_lookup q' t' = (if t' \<in> K - {t} then None else map_option (idle_entry ?m) (map_of (sm_byTransport m) t'))" for t'
  proof (cases "t' = t")
    case True
    with a show ?thesis by (simp add: q'(3) bound idle_entry_def d)
  next
    case False
    have "map_option (idle_entry ?m) (map_of (sm_byTransport m) t') = map_option (idle_entry m) (map_of (sm_byTransport m) t')"
    proof (rule option.map_cong0)
      fix b assume "b \<in> set_option (map_of (sm_byTransport m) t')"
      then have "b \<noteq> a \<and> b < length (sm_store m)" using sm_indexedD(2)[OF ix, of t' b] a False by auto
      then show "idle_entry ?m b = idle_entry m b" by (simp add: idle_entry_def)
    qed
    with False rest show ?thesis by (simp add: q'(3))
  qed
  ultimately show ?thesis using r q' o by (auto simp: sm_armed_def)
qed

section \<open>The indexes under each operation\<close>

lemma idx_ok_create:
  assumes "idx_ok bp bt st g" "bp p = None" "bt t = None"
    and "ps_playerId s = p" "PlayerSession_transportId s = t" "ps_state s = Online" "ps_currentGeneration s = g" "ps_generation s = g"
  shows "idx_ok (bp(p \<mapsto> length st)) (bt(t \<mapsto> length st)) (st @ [s]) (Suc g)"
proof -
  note i = assms(1)[unfolded idx_ok_def]
  have old: "(st @ [s]) ! a = st ! a" if "a < length st" for a using that by (simp add: nth_append)
  have b1: "\<And>p a. bp p = Some a \<Longrightarrow> a < length st \<and> ps_playerId (st ! a) = p \<and> bt (PlayerSession_transportId (st ! a)) = Some a"
    and b2: "\<And>t a. bt t = Some a \<Longrightarrow> a < length st \<and> PlayerSession_transportId (st ! a) = t \<and> bp (ps_playerId (st ! a)) = Some a \<and>
        ps_state (st ! a) = Online \<and> ps_currentGeneration (st ! a) = ps_generation (st ! a) \<and> 0 < ps_generation (st ! a)"
    using i by blast+
  show ?thesis unfolding idx_ok_def
  proof (intro conjI allI impI)
    fix q a assume "(bp(p \<mapsto> length st)) q = Some a"
    then consider "q = p" "a = length st" | "q \<noteq> p" "bp q = Some a" by (auto split: if_splits)
    then show "a < length (st @ [s])" "ps_playerId ((st @ [s]) ! a) = q" "(bt(t \<mapsto> length st)) (PlayerSession_transportId ((st @ [s]) ! a)) = Some a"
      using assms b1[of q a] by (cases; force simp: old)+
  next
    fix u a assume "(bt(t \<mapsto> length st)) u = Some a"
    then consider "u = t" "a = length st" | "u \<noteq> t" "bt u = Some a" by (auto split: if_splits)
    then show "a < length (st @ [s])" "PlayerSession_transportId ((st @ [s]) ! a) = u"
      "(bp(p \<mapsto> length st)) (ps_playerId ((st @ [s]) ! a)) = Some a" "ps_state ((st @ [s]) ! a) = Online"
      "ps_currentGeneration ((st @ [s]) ! a) = ps_generation ((st @ [s]) ! a)" "0 < ps_generation ((st @ [s]) ! a)"
      using assms b2[of u a] i by (cases; force simp: old)+
  next
    fix a assume l: "a < length (st @ [s])" and n: "\<forall>u. (bt(t \<mapsto> length st)) u \<noteq> Some a"
    have "a \<noteq> length st" using n[rule_format, of t] by auto
    then have "a < length st" using l by simp
    moreover have "\<forall>u. bt u \<noteq> Some a" using assms(3) n by (metis fun_upd_other option.distinct(1))
    ultimately show "ps_currentGeneration ((st @ [s]) ! a) = 0" using i by (simp add: old)
  next
    fix a assume "a < length (st @ [s])"
    then show "ps_generation ((st @ [s]) ! a) < Suc g" using i assms(8) by (cases "a < length st") (auto simp: old less_Suc_eq nth_append)
  qed simp
qed

lemma idx_ok_rebind:
  assumes ok: "idx_ok bp bt st g" and t: "bt t = Some a" and n: "u = t \<or> bt u = None"
    and s: "ps_playerId s = ps_playerId (st ! a)" "PlayerSession_transportId s = u" "ps_state s = Online"
      "ps_currentGeneration s = g" "ps_generation s = g"
  shows "idx_ok bp (bt(t := None, u \<mapsto> a)) (st[a := s]) (Suc g)"
proof -
  note i = ok[unfolded idx_ok_def]
  have b1: "\<And>p a. bp p = Some a \<Longrightarrow> a < length st \<and> ps_playerId (st ! a) = p \<and> bt (PlayerSession_transportId (st ! a)) = Some a"
    and b2: "\<And>t a. bt t = Some a \<Longrightarrow> a < length st \<and> PlayerSession_transportId (st ! a) = t \<and> bp (ps_playerId (st ! a)) = Some a \<and>
        ps_state (st ! a) = Online \<and> ps_currentGeneration (st ! a) = ps_generation (st ! a) \<and> 0 < ps_generation (st ! a)"
    using i by blast+
  have a: "a < length st" using b2[OF t] by simp
  have only: "bt v = Some a \<Longrightarrow> v = t" for v using b2[of v a] b2[OF t] by auto
  have st: "st[a := s] ! b = (if b = a then s else st ! b)" if "b < length st" for b using that by (simp add: nth_list_update)
  show ?thesis unfolding idx_ok_def
  proof (intro conjI allI impI)
    fix q b assume "bp q = Some b"
    note q = b1[OF this]
    show "b < length (st[a := s])" using q by simp
    show "ps_playerId (st[a := s] ! b) = q" using q s by (auto simp: st)
    show "(bt(t := None, u \<mapsto> a)) (PlayerSession_transportId (st[a := s] ! b)) = Some b"
      using q s n t by (cases "b = a") (auto simp: st)
  next
    fix v b assume "(bt(t := None, u \<mapsto> a)) v = Some b"
    then consider "v = u" "b = a" | "v \<noteq> u" "v \<noteq> t" "bt v = Some b" "b \<noteq> a" using only by (auto split: if_splits)
    then show "b < length (st[a := s])" "PlayerSession_transportId (st[a := s] ! b) = v"
      "bp (ps_playerId (st[a := s] ! b)) = Some b" "ps_state (st[a := s] ! b) = Online"
      "ps_currentGeneration (st[a := s] ! b) = ps_generation (st[a := s] ! b)" "0 < ps_generation (st[a := s] ! b)"
      using s a b2[of v b] b2[OF t] i by (cases; simp add: st)+
  next
    fix b assume b: "b < length (st[a := s])" "\<forall>v. (bt(t := None, u \<mapsto> a)) v \<noteq> Some b"
    have "b \<noteq> a" using b(2)[rule_format, of u] by auto
    moreover have "bt v \<noteq> Some b" for v
      using b(2)[rule_format, of v] n t \<open>b \<noteq> a\<close> by (auto split: if_splits)
    ultimately show "ps_currentGeneration (st[a := s] ! b) = 0" using i b(1) by (simp add: st)
  next
    fix b assume "b < length (st[a := s])"
    then show "ps_generation (st[a := s] ! b) < Suc g" using i s(5) by (auto simp: st less_Suc_eq)
  qed simp
qed

lemma idx_ok_erase:
  assumes ok: "idx_ok bp bt st g" and t: "bt t = Some a" and s: "ps_currentGeneration s = 0" "ps_generation s = ps_generation (st ! a)"
  shows "idx_ok (bp(ps_playerId (st ! a) := None)) (bt(t := None)) (st[a := s]) g"
proof -
  note i = ok[unfolded idx_ok_def]
  have b1: "\<And>p a. bp p = Some a \<Longrightarrow> a < length st \<and> ps_playerId (st ! a) = p \<and> bt (PlayerSession_transportId (st ! a)) = Some a"
    and b2: "\<And>t a. bt t = Some a \<Longrightarrow> a < length st \<and> PlayerSession_transportId (st ! a) = t \<and> bp (ps_playerId (st ! a)) = Some a \<and>
        ps_state (st ! a) = Online \<and> ps_currentGeneration (st ! a) = ps_generation (st ! a) \<and> 0 < ps_generation (st ! a)"
    using i by blast+
  note a = b2[OF t]
  have st: "st[a := s] ! b = (if b = a then s else st ! b)" if "b < length st" for b using that by (simp add: nth_list_update)
  show ?thesis unfolding idx_ok_def
  proof (intro conjI allI impI)
    fix q b assume "(bp(ps_playerId (st ! a) := None)) q = Some b"
    then have q: "bp q = Some b" "q \<noteq> ps_playerId (st ! a)" by (auto split: if_splits)
    then have "b \<noteq> a" using b1[OF q(1)] by auto
    then show "b < length (st[a := s])" "ps_playerId (st[a := s] ! b) = q" "(bt(t := None)) (PlayerSession_transportId (st[a := s] ! b)) = Some b"
      using b1[OF q(1)] t by (auto simp: st)
  next
    fix v b assume "(bt(t := None)) v = Some b"
    then have v: "bt v = Some b" "v \<noteq> t" by (auto split: if_splits)
    then have ne: "b \<noteq> a" using b2[OF v(1)] a by auto
    then have "ps_playerId (st ! b) \<noteq> ps_playerId (st ! a)" using b2[OF v(1)] a by auto
    with ne show "b < length (st[a := s])" "PlayerSession_transportId (st[a := s] ! b) = v"
      "(bp(ps_playerId (st ! a) := None)) (ps_playerId (st[a := s] ! b)) = Some b" "ps_state (st[a := s] ! b) = Online"
      "ps_currentGeneration (st[a := s] ! b) = ps_generation (st[a := s] ! b)" "0 < ps_generation (st[a := s] ! b)"
      using b2[OF v(1)] by (simp_all add: st)
  next
    fix b assume b: "b < length (st[a := s])" "\<forall>v. (bt(t := None)) v \<noteq> Some b"
    have "b \<noteq> a \<Longrightarrow> bt v \<noteq> Some b" for v using b(2)[rule_format, of v] t by (auto split: if_splits)
    then show "ps_currentGeneration (st[a := s] ! b) = 0" using i b(1) s by (simp add: st)
  next
    fix b assume "b < length (st[a := s])"
    then show "ps_generation (st[a := s] ! b) < g" using i s(2) by (auto simp: st)
  qed (use i in simp)
qed

section \<open>The operations keep the invariant\<close>

text \<open>How an operation may change the current generations of existing sessions: keep them, clear
  them, or issue a generation that was not handed out before.\<close>

definition bind_step :: "SessionManager \<Rightarrow> SessionManager \<Rightarrow> bool" where
  "bind_step m m' \<longleftrightarrow> length (sm_store m) \<le> length (sm_store m') \<and> sm_nextBindingGeneration m \<le> sm_nextBindingGeneration m' \<and>
     (\<forall>a < length (sm_store m). ps_currentGeneration (sm_session m' a) = ps_currentGeneration (sm_session m a) \<or>
        ps_currentGeneration (sm_session m' a) = 0 \<or> sm_nextBindingGeneration m \<le> ps_currentGeneration (sm_session m' a))"

lemma bind_step_refl [simp]: "bind_step m m"
  by (simp add: bind_step_def)

lemma bind_step_trans: "bind_step a b \<Longrightarrow> bind_step b c \<Longrightarrow> bind_step a c"
proof -
  assume ab: "bind_step a b" and bc: "bind_step b c"
  have "ps_currentGeneration (sm_session c i) = ps_currentGeneration (sm_session a i) \<or>
      ps_currentGeneration (sm_session c i) = 0 \<or> sm_nextBindingGeneration a \<le> ps_currentGeneration (sm_session c i)"
    if "i < length (sm_store a)" for i
  proof -
    have "i < length (sm_store b)" using ab that by (simp add: bind_step_def)
    with ab bc that show ?thesis unfolding bind_step_def by (metis le_trans)
  qed
  with ab bc show ?thesis by (simp add: bind_step_def)
qed

lemma armIdle_reindex:
  "SessionManager_armIdle a d (m\<lparr> sm_byTransport := bt, sm_byPlayer := bp \<rparr>) =
     (case SessionManager_armIdle a d m of (r, m') \<Rightarrow> (r, m'\<lparr> sm_byTransport := bt, sm_byPlayer := bp \<rparr>))"
proof (cases "DeadlineQueue_schedule None (PlayerSession_transportId (sm_session m a)) d (sm_idleDeadlines m)")
  case (Pair r q)
  then show ?thesis by (cases r) (simp_all add: SessionManager_armIdle_def sm_modify_def)
qed

lemma armIdle_keys:
  assumes "SessionManager_armIdle a d m = (r, m')"
  shows "sm_byTransport m' = sm_byTransport m" "sm_byPlayer m' = sm_byPlayer m" "sm_nextBindingGeneration m' = sm_nextBindingGeneration m"
    "ps_playerId (sm_session m' i) = ps_playerId (sm_session m i)" "ps_endpoint (sm_session m' i) = ps_endpoint (sm_session m i)"
    "ps_currentGeneration (sm_session m' i) = ps_currentGeneration (sm_session m i)"
    "length (sm_store m') = length (sm_store m)"
proof -
  obtain t q where m': "m' = m\<lparr> sm_idleDeadlines := q \<rparr> \<or> m' = sm_modify a (\<lambda>s. s\<lparr> ps_idleDeadline := t \<rparr>) (m\<lparr> sm_idleDeadlines := q \<rparr>)"
    using assms by (auto simp: SessionManager_armIdle_def split: prod.splits sum.splits)
  then show "sm_byTransport m' = sm_byTransport m" "sm_byPlayer m' = sm_byPlayer m" "sm_nextBindingGeneration m' = sm_nextBindingGeneration m"
    "length (sm_store m') = length (sm_store m)"
    by (auto simp: sm_modify_def)
  from m' show "ps_playerId (sm_session m' i) = ps_playerId (sm_session m i)" "ps_endpoint (sm_session m' i) = ps_endpoint (sm_session m i)"
    "ps_currentGeneration (sm_session m' i) = ps_currentGeneration (sm_session m i)"
    by (cases "a < length (sm_store m)"; cases "i = a"; auto simp: sm_modify_def list_update_beyond)+
qed

lemma sm_create:
  assumes inv: "sm_inv m" and fr: "sm_fresh m" and run: "sm_lifecycle m = LcRunning" and p: "p \<noteq> []"
    and new: "map_of (sm_byPlayer m) p = None" "map_of (sm_byTransport m) (ep_id ep) = None"
  defines "a \<equiv> length (sm_store m)"
  shows "\<exists>m'. authenticate_create p ep now m = (Inr \<lparr> ar_status = Created, ar_session = Some a, ar_dispatch = Accepted \<rparr>, m') \<and>
     sm_inv m' \<and> bind_step m m' \<and> sm_closes m' = sm_closes m \<and>
     map_of (sm_byPlayer m') = (map_of (sm_byPlayer m))(p \<mapsto> a) \<and> map_of (sm_byTransport m') = (map_of (sm_byTransport m))(ep_id ep \<mapsto> a) \<and>
     ps_endpoint (sm_session m' a) = ep \<and> ps_lastActivity (sm_session m' a) = now"
proof -
  define g where "g = sm_nextBindingGeneration m"
  have g0: "0 < g" and gi: "u64_inc g = Suc g" using inv fr
    by (auto simp: g_def sm_inv_def sm_indexed_def idx_ok_def sm_fresh_def size_max_def intro!: u64_inc_small)
  define s where "s = \<lparr> ps_sessionId = sm_nextSessionId m, ps_playerId = p, ps_state = Online, ps_endpoint = ep, ps_lastActivity = now,
     ps_generation = g, ps_currentGeneration = g, ps_idleDeadline = DeadlineToken_null \<rparr>"
  define m2 where "m2 = m\<lparr> sm_nextSessionId := u64_inc (sm_nextSessionId m), sm_nextBindingGeneration := Suc g, sm_store := sm_store m @ [s] \<rparr>"
  define mi where "mi = m2\<lparr> sm_byTransport := AList.update (ep_id ep) a (sm_byTransport m2), sm_byPlayer := AList.update p a (sm_byPlayer m2) \<rparr>"
  define d where "d = now + smo_idleTimeout (sm_options m)"
  have ts: "PlayerSession_transportId s = ep_id ep" by (simp add: s_def PlayerSession_transportId_def)
  have ix: "sm_indexed mi"
    using inv run idx_ok_create[of "map_of (sm_byPlayer m)" "map_of (sm_byTransport m)" "sm_store m" g p "ep_id ep" s] ts new
    by (auto simp: sm_inv_def sm_indexed_def mi_def m2_def distinct_update update_conv' a_def g_def s_def)
  have ar: "sm_armed {} m" using inv by (simp add: sm_inv_def)
  have old: "map_of (sm_byTransport m) t = Some b \<Longrightarrow> idle_entry mi b = idle_entry m b" for t b
    using inv by (auto simp: sm_inv_def sm_indexed_def idx_ok_def idle_entry_def mi_def m2_def nth_append)
  have rest: "dq_lookup (sm_idleDeadlines mi) t' = (if t' \<in> {} then None else map_option (idle_entry mi) (map_of (sm_byTransport mi) t'))"
    if "t' \<noteq> ep_id ep" for t'
    using ar that old[of t'] by (cases "map_of (sm_byTransport m) t'") (auto simp: sm_armed_def mi_def m2_def update_conv')
  have "\<exists>m'. SessionManager_armIdle a d mi = (Inr (), m') \<and> sm_indexed m' \<and> sm_armed ({} - {ep_id ep}) m' \<and>
     sm_closes m' = sm_closes mi \<and> sm_byTransport m' = sm_byTransport mi \<and> sm_byPlayer m' = sm_byPlayer mi \<and>
     sm_options m' = sm_options mi \<and> sm_lifecycle m' = sm_lifecycle mi \<and> sm_lifetime m' = sm_lifetime mi \<and>
     (\<exists>token. sm_store m' = (sm_store mi)[a := (sm_session mi a)\<lparr> ps_idleDeadline := token \<rparr>])"
    using ar fr by (intro armIdle_inv[OF ix _ _ _ _ _ rest])
      (auto simp: mi_def m2_def sm_armed_def sm_fresh_def update_conv' d_def a_def s_def)
  then obtain m' token where m': "SessionManager_armIdle a d mi = (Inr (), m')" "sm_indexed m'" "sm_armed {} m'"
     "sm_closes m' = sm_closes m" "sm_byTransport m' = sm_byTransport mi" "sm_byPlayer m' = sm_byPlayer mi"
     "sm_store m' = (sm_store mi)[a := (sm_session mi a)\<lparr> ps_idleDeadline := token \<rparr>]"
    by (auto simp: mi_def m2_def)
  have mid: "sm_session mi a = s" "length (sm_store mi) = Suc a" by (simp_all add: mi_def m2_def a_def)
  obtain m3 where m3: "SessionManager_armIdle a d m2 = (Inr (), m3)" "m' = m3\<lparr> sm_byTransport := sm_byTransport mi, sm_byPlayer := sm_byPlayer mi \<rparr>"
    using m'(1) armIdle_reindex[of a d _ _ m2] by (auto simp: mi_def split: prod.splits)
  have k: "PlayerSession_transportId (sm_session m3 a) = ep_id ep" "ps_playerId (sm_session m3 a) = p"
    "sm_byTransport m3 = sm_byTransport m2" "sm_byPlayer m3 = sm_byPlayer m2"
    using armIdle_keys[OF m3(1)] by (simp_all add: PlayerSession_transportId_def m2_def a_def s_def)
  have "authenticate_create p ep now m = (Inr \<lparr> ar_status = Created, ar_session = Some a, ar_dispatch = Accepted \<rparr>, m')"
    using p g0 gi m3 k
    by (simp add: authenticate_create_def PlayerSession_new_def PlayerSession_markOnline_def g_def[symmetric] s_def[symmetric]
        m2_def[symmetric] a_def[symmetric] Let_def mi_def)
       (simp add: m2_def s_def d_def a_def)
  moreover have "bind_step m m'"
    using armIdle_keys[OF m'(1)] by (auto simp: bind_step_def mi_def m2_def a_def g_def nth_append)
  moreover have "map_of (sm_byPlayer m') = (map_of (sm_byPlayer m))(p \<mapsto> a)"
    "map_of (sm_byTransport m') = (map_of (sm_byTransport m))(ep_id ep \<mapsto> a)"
    unfolding m'(5,6) by (simp_all add: mi_def m2_def update_conv')
  moreover have "sm_session m' a = s\<lparr> ps_idleDeadline := token \<rparr>" using m'(7) mid by simp
  then have "ps_endpoint (sm_session m' a) = ep" "ps_lastActivity (sm_session m' a) = now" by (simp_all add: s_def)
  ultimately show ?thesis using m'(2-4) unfolding sm_inv_def by blast
qed

lemma sm_inv_parts: "sm_inv m \<Longrightarrow> sm_indexed m \<and> sm_armed {} m \<and> dq_inv (sm_idleDeadlines m) \<and> 0 < smo_idleTimeout (sm_options m)"
  by (simp add: sm_inv_def sm_armed_def)

lemma sm_closeEndpoint_inv [simp]:
  "sm_indexed (SessionManager_closeEndpoint ep r m) = sm_indexed m"
  "sm_armed K (SessionManager_closeEndpoint ep r m) = sm_armed K m"
  "bind_step m0 (SessionManager_closeEndpoint ep r m) = bind_step m0 m"
proof -
  have "idle_entry (m\<lparr> sm_closes := c \<rparr>) = idle_entry m" for c by (simp add: fun_eq_iff idle_entry_def)
  then show "sm_indexed (SessionManager_closeEndpoint ep r m) = sm_indexed m"
    "sm_armed K (SessionManager_closeEndpoint ep r m) = sm_armed K m"
    "bind_step m0 (SessionManager_closeEndpoint ep r m) = bind_step m0 m"
    by (simp_all add: SessionManager_closeEndpoint_def sm_indexed_def sm_armed_def bind_step_def split: option.split)
qed

lemma sm_closeEndpoint_simps [simp]:
  "sm_closes (SessionManager_closeEndpoint (Some ep) r m) = sm_closes m @ [(ep, r)]"
  "sm_byPlayer (SessionManager_closeEndpoint e r m) = sm_byPlayer m"
  "sm_byTransport (SessionManager_closeEndpoint e r m) = sm_byTransport m"
  "sm_store (SessionManager_closeEndpoint e r m) = sm_store m"
  "sm_options (SessionManager_closeEndpoint e r m) = sm_options m"
  "sm_lifecycle (SessionManager_closeEndpoint e r m) = sm_lifecycle m"
  "sm_lifetime (SessionManager_closeEndpoint e r m) = sm_lifetime m"
  "sm_idleDeadlines (SessionManager_closeEndpoint e r m) = sm_idleDeadlines m"
  "sm_nextBindingGeneration (SessionManager_closeEndpoint e r m) = sm_nextBindingGeneration m"
  by (simp_all add: SessionManager_closeEndpoint_def split: option.split)

text \<open>A session that moves to another transport, or stays on its own with a new generation, and is
  armed again.\<close>

lemma sm_rearm:
  assumes ix: "sm_indexed m" and ar: "sm_armed {} m" and fr: "sm_fresh m" and run: "sm_lifecycle m = LcRunning"
    and t: "map_of (sm_byTransport m) t = Some a" and u: "u = t \<or> map_of (sm_byTransport m) u = None"
    and s: "ps_playerId s = ps_playerId (sm_session m a)" "PlayerSession_transportId s = u" "ps_state s = Online"
      "ps_currentGeneration s = sm_nextBindingGeneration m" "ps_generation s = sm_nextBindingGeneration m"
      "ps_lastActivity s = now"
    and mi: "mi = m\<lparr> sm_idleDeadlines := q, sm_byTransport := bt, sm_nextBindingGeneration := Suc (sm_nextBindingGeneration m),
              sm_store := (sm_store m)[a := s] \<rparr>"
    and bt: "map_of bt = (map_of (sm_byTransport m))(t := None, u \<mapsto> a)" "distinct (map fst bt)"
    and q: "dq_inv q" "dq_options q = dq_options (sm_idleDeadlines m)" "dq_nextGeneration q = dq_nextGeneration (sm_idleDeadlines m)"
      "\<And>k. k \<noteq> u \<Longrightarrow> dq_lookup q k = ((dq_lookup (sm_idleDeadlines m))(t := None)) k"
  shows "\<exists>m'. SessionManager_armIdle a (now + smo_idleTimeout (sm_options m)) mi = (Inr (), m') \<and> sm_inv m' \<and> bind_step m m' \<and>
     sm_closes m' = sm_closes m \<and> sm_byTransport m' = bt \<and> sm_byPlayer m' = sm_byPlayer m \<and>
     (\<exists>token. sm_store m' = (sm_store m)[a := s\<lparr> ps_idleDeadline := token \<rparr>])"
proof -
  note a = sm_indexedD(2)[OF ix t]
  have ixi: "sm_indexed mi"
    using ix run bt idx_ok_rebind[of "map_of (sm_byPlayer m)" "map_of (sm_byTransport m)" "sm_store m" "sm_nextBindingGeneration m" t a u s] t u s
    by (simp add: sm_indexed_def mi)
  have bound: "map_of (sm_byTransport mi) u = Some a" by (simp add: mi bt)
  have only: "map_of (sm_byTransport m) k = Some a \<Longrightarrow> k = t" for k using sm_indexedD(2)[OF ix, of k a] a by auto
  have rest: "dq_lookup (sm_idleDeadlines mi) k = (if k \<in> {} then None else map_option (idle_entry mi) (map_of (sm_byTransport mi) k))"
    if k: "k \<noteq> u" for k
  proof (cases "k = t")
    case True
    with k q(4)[OF k] show ?thesis by (simp add: mi bt)
  next
    case False
    have "idle_entry mi b = idle_entry m b" if "map_of (sm_byTransport m) k = Some b" for b
    proof -
      have "b \<noteq> a" using that only[of k] False by blast
      then show ?thesis by (simp add: idle_entry_def mi)
    qed
    with k False q(4)[OF k] ar show ?thesis by (cases "map_of (sm_byTransport m) k") (auto simp: mi bt sm_armed_def)
  qed
  have d: "now + smo_idleTimeout (sm_options m) = ps_lastActivity (sm_session mi a) + smo_idleTimeout (sm_options mi)"
    using a s by (simp add: mi)
  have "\<exists>m'. SessionManager_armIdle a (now + smo_idleTimeout (sm_options m)) mi = (Inr (), m') \<and> sm_indexed m' \<and> sm_armed ({} - {u}) m' \<and>
     sm_closes m' = sm_closes mi \<and> sm_byTransport m' = sm_byTransport mi \<and> sm_byPlayer m' = sm_byPlayer mi \<and>
     sm_options m' = sm_options mi \<and> sm_lifecycle m' = sm_lifecycle mi \<and> sm_lifetime m' = sm_lifetime mi \<and>
     (\<exists>token. sm_store m' = (sm_store mi)[a := (sm_session mi a)\<lparr> ps_idleDeadline := token \<rparr>])"
    using ar fr q by (intro armIdle_inv[OF ixi _ _ _ _ bound rest d]) (simp_all add: mi sm_armed_def sm_fresh_def)
  then obtain m' token where m': "SessionManager_armIdle a (now + smo_idleTimeout (sm_options m)) mi = (Inr (), m')" "sm_indexed m'" "sm_armed {} m'"
     "sm_closes m' = sm_closes m" "sm_byTransport m' = bt" "sm_byPlayer m' = sm_byPlayer m"
     "sm_store m' = (sm_store m)[a := s\<lparr> ps_idleDeadline := token \<rparr>]"
    using a by (auto simp: mi)
  have "bind_step m m'"
    using armIdle_keys(3)[OF m'(1)] m'(7) s a by (auto simp: bind_step_def nth_list_update mi)
  with m' show ?thesis unfolding sm_inv_def by blast
qed

lemma nextGeneration_inc: "sm_fresh m \<Longrightarrow> u64_inc (sm_nextBindingGeneration m) = Suc (sm_nextBindingGeneration m)"
  by (simp add: sm_fresh_def size_max_def u64_inc_small)

lemma sm_refresh:
  assumes inv: "sm_inv m" and fr: "sm_fresh m" and run: "sm_lifecycle m = LcRunning"
    and p: "map_of (sm_byPlayer m) p = Some a"
  shows "\<exists>m'. authenticate_refresh a now m = (Inr \<lparr> ar_status = Existing, ar_session = Some a, ar_dispatch = Accepted \<rparr>, m') \<and>
     sm_inv m' \<and> bind_step m m' \<and> sm_closes m' = sm_closes m \<and> sm_byPlayer m' = sm_byPlayer m \<and>
     map_of (sm_byTransport m') = map_of (sm_byTransport m) \<and>
     ps_generation (sm_session m' a) = sm_nextBindingGeneration m \<and> ps_endpoint (sm_session m' a) = ps_endpoint (sm_session m a)"
proof -
  note i = inv[unfolded sm_inv_def]
  define t where "t = PlayerSession_transportId (sm_session m a)"
  have t: "map_of (sm_byTransport m) t = Some a" "a < length (sm_store m)"
    using sm_indexedD(1)[OF conjunct1[OF i] p] by (simp_all add: t_def)
  define s where "s = PlayerSession_refreshBinding (sm_nextBindingGeneration m) now (sm_session m a)"
  have s: "ps_playerId s = ps_playerId (sm_session m a)" "PlayerSession_transportId s = t" "ps_state s = Online"
      "ps_currentGeneration s = sm_nextBindingGeneration m" "ps_generation s = sm_nextBindingGeneration m" "ps_lastActivity s = now"
      "ps_endpoint s = ps_endpoint (sm_session m a)"
    by (simp_all add: s_def PlayerSession_refreshBinding_def PlayerSession_markOnline_def t_def PlayerSession_transportId_def)
  define mi where "mi = m\<lparr> sm_idleDeadlines := sm_idleDeadlines m, sm_byTransport := sm_byTransport m,
      sm_nextBindingGeneration := Suc (sm_nextBindingGeneration m), sm_store := (sm_store m)[a := s] \<rparr>"
  have "sm_modify a (PlayerSession_refreshBinding (sm_nextBindingGeneration m) now)
        (m\<lparr> sm_nextBindingGeneration := u64_inc (sm_nextBindingGeneration m) \<rparr>) = mi"
    by (simp add: sm_modify_def mi_def s_def nextGeneration_inc[OF fr])
  moreover have "\<exists>m'. SessionManager_armIdle a (now + smo_idleTimeout (sm_options m)) mi = (Inr (), m') \<and> sm_inv m' \<and> bind_step m m' \<and>
     sm_closes m' = sm_closes m \<and> sm_byTransport m' = sm_byTransport m \<and> sm_byPlayer m' = sm_byPlayer m \<and>
     (\<exists>token. sm_store m' = (sm_store m)[a := s\<lparr> ps_idleDeadline := token \<rparr>])"
    using i t s(1-6) fr run
    by (intro sm_rearm[OF _ _ fr run t(1), where u = t and s = s and q = "sm_idleDeadlines m"])
       (auto simp: mi_def sm_armed_def sm_indexed_def)
  ultimately show ?thesis
    using t s by (auto simp: authenticate_refresh_def Let_def mi_def)
qed

lemma sm_rebind:
  assumes inv: "sm_inv m" and fr: "sm_fresh m" and run: "sm_lifecycle m = LcRunning"
    and p: "map_of (sm_byPlayer m) p = Some a" and new: "map_of (sm_byTransport m) (ep_id ep) = None"
  shows "\<exists>m'. authenticate_rebind a ep now m = (Inr \<lparr> ar_status = Rebound, ar_session = Some a, ar_dispatch = Accepted \<rparr>, m') \<and>
     sm_inv m' \<and> bind_step m m' \<and> sm_closes m' = sm_closes m @ [(ps_endpoint (sm_session m a), Replaced)] \<and> sm_byPlayer m' = sm_byPlayer m \<and>
     map_of (sm_byTransport m') = (map_of (sm_byTransport m))(PlayerSession_transportId (sm_session m a) := None, ep_id ep \<mapsto> a) \<and>
     ps_generation (sm_session m' a) = sm_nextBindingGeneration m \<and> ps_endpoint (sm_session m' a) = ep"
proof -
  note i = inv[unfolded sm_inv_def]
  define t where "t = PlayerSession_transportId (sm_session m a)"
  have t: "map_of (sm_byTransport m) t = Some a" "a < length (sm_store m)"
    using sm_indexedD(1)[OF conjunct1[OF i] p] by (simp_all add: t_def)
  note l = sm_armedD[OF conjunct2[OF i] t(1), simplified]
  from dq_lookup_cancel[of "sm_idleDeadlines m" "ps_idleDeadline (sm_session m a)" "idle_entry m a"] l i
  obtain q where q: "DeadlineQueue_cancel (ps_idleDeadline (sm_session m a)) (sm_idleDeadlines m) = (Inr True, q)" "dq_inv q"
    "dq_lookup q = (dq_lookup (sm_idleDeadlines m))(t := None)" "dq_options q = dq_options (sm_idleDeadlines m)"
    "dq_nextGeneration q = dq_nextGeneration (sm_idleDeadlines m)"
    by (auto simp: sm_armed_def idle_entry_def)
  have g: "sm_nextBindingGeneration m \<noteq> 0" using i by (simp add: sm_indexed_def idx_ok_def)
  define s where "s = PlayerSession_markOnline now ((sm_session m a)\<lparr> ps_endpoint := ep, ps_generation := sm_nextBindingGeneration m,
      ps_currentGeneration := sm_nextBindingGeneration m \<rparr>)"
  have s: "ps_playerId s = ps_playerId (sm_session m a)" "PlayerSession_transportId s = ep_id ep" "ps_state s = Online"
      "ps_currentGeneration s = sm_nextBindingGeneration m" "ps_generation s = sm_nextBindingGeneration m" "ps_lastActivity s = now"
      "ps_endpoint s = ep"
    by (simp_all add: s_def PlayerSession_markOnline_def PlayerSession_transportId_def)
  have r: "PlayerSession_rebind (Some ep) (sm_nextBindingGeneration m) now (sm_session m a) = (Inr (), s)"
    using g by (simp add: PlayerSession_rebind_def s_def)
  define bt where "bt = AList.update (ep_id ep) a (AList.delete t (sm_byTransport m))"
  define m2 where "m2 = m\<lparr> sm_idleDeadlines := q, sm_byTransport := AList.delete t (sm_byTransport m),
      sm_nextBindingGeneration := Suc (sm_nextBindingGeneration m), sm_store := (sm_store m)[a := s] \<rparr>"
  define mi where "mi = m\<lparr> sm_idleDeadlines := q, sm_byTransport := bt,
      sm_nextBindingGeneration := Suc (sm_nextBindingGeneration m), sm_store := (sm_store m)[a := s] \<rparr>"
  have "\<exists>m'. SessionManager_armIdle a (now + smo_idleTimeout (sm_options m)) mi = (Inr (), m') \<and> sm_inv m' \<and> bind_step m m' \<and>
     sm_closes m' = sm_closes m \<and> sm_byTransport m' = bt \<and> sm_byPlayer m' = sm_byPlayer m \<and>
     (\<exists>token. sm_store m' = (sm_store m)[a := s\<lparr> ps_idleDeadline := token \<rparr>])"
    using i t s(1-6) new q
    by (intro sm_rearm[OF _ _ fr run t(1), where u = "ep_id ep" and s = s and q = q])
       (auto simp: mi_def bt_def sm_indexed_def update_conv' delete_conv' distinct_update distinct_delete)
  then obtain m' token where m': "SessionManager_armIdle a (now + smo_idleTimeout (sm_options m)) mi = (Inr (), m')" "sm_inv m'" "bind_step m m'"
     "sm_closes m' = sm_closes m" "sm_byTransport m' = bt" "sm_byPlayer m' = sm_byPlayer m"
     "sm_store m' = (sm_store m)[a := s\<lparr> ps_idleDeadline := token \<rparr>]" by blast
  have "mi = m2\<lparr> sm_byTransport := bt, sm_byPlayer := sm_byPlayer m \<rparr>" by (simp add: mi_def m2_def)
  with m'(1) armIdle_reindex[of a "now + smo_idleTimeout (sm_options m)" "sm_byPlayer m" bt m2]
  obtain m3 where m3: "SessionManager_armIdle a (now + smo_idleTimeout (sm_options m)) m2 = (Inr (), m3)"
    "m' = m3\<lparr> sm_byTransport := bt, sm_byPlayer := sm_byPlayer m \<rparr>"
    by (auto split: prod.splits)
  have k: "PlayerSession_transportId (sm_session m3 a) = ep_id ep" "sm_byTransport m3 = AList.delete t (sm_byTransport m)"
    "sm_byPlayer m3 = sm_byPlayer m"
    using armIdle_keys[OF m3(1)] t s by (simp_all add: PlayerSession_transportId_def m2_def)
  have m'e: "m' = m3\<lparr> sm_byTransport := bt \<rparr>" using m3(2) k(3) by simp
  have m2e: "sm_modify a (\<lambda>_. s) (m\<lparr> sm_idleDeadlines := q, sm_byTransport := AList.delete t (sm_byTransport m),
      sm_nextBindingGeneration := Suc (sm_nextBindingGeneration m) \<rparr>) = m2" by (simp add: sm_modify_def m2_def)
  have o: "sm_options m2 = sm_options m" by (simp add: m2_def)
  have run': "authenticate_rebind a ep now m = (Inr \<lparr> ar_status = Rebound, ar_session = Some a, ar_dispatch = Accepted \<rparr>,
      SessionManager_closeEndpoint (Some (ps_endpoint (sm_session m a))) Replaced m')"
    by (simp add: authenticate_rebind_def q(1) r nextGeneration_inc[OF fr] t_def[symmetric] Let_def m2e o m3(1) k m'e bt_def)
  define f where "f = SessionManager_closeEndpoint (Some (ps_endpoint (sm_session m a))) Replaced m'"
  have "map_of (sm_byTransport f) = (map_of (sm_byTransport m))(t := None, ep_id ep \<mapsto> a)"
    by (simp add: f_def m'(5) bt_def update_conv' delete_conv')
  then show ?thesis
    using run' m'(2-7) t s by (intro exI[of _ f]) (simp add: f_def t_def sm_inv_def)
qed

lemma sm_erase:
  assumes ix: "sm_indexed m" and ar: "sm_armed K m" and t: "map_of (sm_byTransport m) t = Some a"
    and k: "dt_key (ps_idleDeadline (sm_session m a)) = t"
  shows "\<exists>m'. SessionManager_eraseSession a m = (Inr (), m') \<and> sm_indexed m' \<and> sm_armed (K - {t}) m' \<and> bind_step m m' \<and>
     map_of (sm_byTransport m') = (map_of (sm_byTransport m))(t := None) \<and>
     map_of (sm_byPlayer m') = (map_of (sm_byPlayer m))(ps_playerId (sm_session m a) := None) \<and>
     sm_closes m' = sm_closes m \<and> sm_options m' = sm_options m \<and> sm_lifecycle m' = sm_lifecycle m \<and> sm_lifetime m' = sm_lifetime m \<and>
     length (sm_store m') = length (sm_store m) \<and> sm_nextBindingGeneration m' = sm_nextBindingGeneration m \<and>
     (\<forall>b. b \<noteq> a \<longrightarrow> sm_session m' b = sm_session m b) \<and> ps_currentGeneration (sm_session m' a) = 0 \<and>
     dq_nextGeneration (sm_idleDeadlines m') = dq_nextGeneration (sm_idleDeadlines m) \<and>
     (t \<in> K \<longrightarrow> sm_idleDeadlines m' = sm_idleDeadlines m)"
proof -
  note a = sm_indexedD(2)[OF ix t]
  have q: "\<exists>b q. DeadlineQueue_cancel (ps_idleDeadline (sm_session m a)) (sm_idleDeadlines m) = (Inr b, q) \<and> dq_inv q \<and>
      dq_lookup q = (dq_lookup (sm_idleDeadlines m))(t := None) \<and> dq_options q = dq_options (sm_idleDeadlines m) \<and>
      dq_nextGeneration q = dq_nextGeneration (sm_idleDeadlines m) \<and> (t \<in> K \<longrightarrow> q = sm_idleDeadlines m)"
  proof (cases "t \<in> K")
    case True
    then have n: "dq_lookup (sm_idleDeadlines m) t = None" using ar by (simp add: sm_armed_def)
    have i: "dq_inv (sm_idleDeadlines m)" using ar by (simp add: sm_armed_def)
    have "DeadlineQueue_cancel (ps_idleDeadline (sm_session m a)) (sm_idleDeadlines m) = (Inr False, sm_idleDeadlines m)"
      using dq_cancel_absent[OF i] n k by simp
    with i n show ?thesis by (intro exI[of _ False]) (simp add: fun_upd_idem)
  next
    case False
    note l = sm_armedD(1)[OF ar t False]
    have "dq_inv (sm_idleDeadlines m)" using ar by (simp add: sm_armed_def)
    from dq_lookup_cancel[OF this, of "ps_idleDeadline (sm_session m a)" "idle_entry m a"] l k False show ?thesis
      by (metis DeadlineExpiration.select_convs(1) idle_entry_def)
  qed
  then obtain b q where q: "DeadlineQueue_cancel (ps_idleDeadline (sm_session m a)) (sm_idleDeadlines m) = (Inr b, q)" "dq_inv q"
      "dq_lookup q = (dq_lookup (sm_idleDeadlines m))(t := None)" "dq_options q = dq_options (sm_idleDeadlines m)"
      "dq_nextGeneration q = dq_nextGeneration (sm_idleDeadlines m)" "t \<in> K \<longrightarrow> q = sm_idleDeadlines m" by blast
  define s where "s = PlayerSession_markOffline ((sm_session m a)\<lparr> ps_idleDeadline := DeadlineToken_null \<rparr>)"
  have s: "ps_currentGeneration s = 0" "ps_generation s = ps_generation (sm_session m a)"
    by (simp_all add: s_def PlayerSession_markOffline_def)
  define m' where "m' = m\<lparr> sm_idleDeadlines := q, sm_byTransport := AList.delete t (sm_byTransport m),
      sm_byPlayer := AList.delete (ps_playerId (sm_session m a)) (sm_byPlayer m), sm_store := (sm_store m)[a := s] \<rparr>"
  have r: "SessionManager_eraseSession a m = (Inr (), m')"
    using a q(1) by (simp add: SessionManager_eraseSession_def Let_def sm_modify_def m'_def s_def)
  have ix': "sm_indexed m'"
    using ix idx_ok_erase[of "map_of (sm_byPlayer m)" "map_of (sm_byTransport m)" "sm_store m" "sm_nextBindingGeneration m" t a s] t s
    by (auto simp: sm_indexed_def m'_def delete_conv' distinct_delete)
  have other: "idle_entry m' b = idle_entry m b" if "map_of (sm_byTransport m) k = Some b" "k \<noteq> t" for k b
  proof -
    have "b \<noteq> a" using sm_indexedD(2)[OF ix that(1)] that(2) a by auto
    then show ?thesis by (simp add: idle_entry_def m'_def)
  qed
  have "dq_lookup q k = (if k \<in> K - {t} then None else map_option (idle_entry m') (map_of (sm_byTransport m') k))" for k
    using ar other[of k] by (cases "k = t"; cases "map_of (sm_byTransport m) k") (auto simp: q(3) m'_def delete_conv' sm_armed_def)
  then have "sm_armed (K - {t}) m'" using ar q by (simp add: sm_armed_def m'_def)
  moreover have "bind_step m m'" using a s by (auto simp: bind_step_def m'_def nth_list_update)
  ultimately show ?thesis using r ix' a s q(5,6) by (auto simp: m'_def delete_conv')
qed

lemma sm_offline:
  assumes inv: "sm_inv m"
  shows "\<exists>b m'. SessionManager_offline t m = (Inr b, m') \<and> sm_inv m' \<and> bind_step m m' \<and> sm_closes m' = sm_closes m \<and>
     b = (map_of (sm_byTransport m) t \<noteq> None) \<and> map_of (sm_byTransport m') = (map_of (sm_byTransport m))(t := None)"
proof (cases "map_of (sm_byTransport m) t")
  case None
  then have "(map_of (sm_byTransport m))(t := None) = map_of (sm_byTransport m)" by (simp add: fun_upd_idem)
  with None inv show ?thesis by (intro exI[of _ False]) (simp add: SessionManager_offline_def)
next
  case (Some a)
  note i = inv[unfolded sm_inv_def]
  have run: "sm_lifecycle m = LcRunning" using i Some by (cases "sm_lifecycle m") (auto simp: sm_indexed_def)
  note a = sm_indexedD(2)[OF conjunct1[OF i] Some]
  from sm_erase[OF conjunct1[OF i] conjunct2[OF i] Some sm_armedD(2)[OF conjunct2[OF i] Some]] run a Some show ?thesis
    by (auto simp: SessionManager_offline_def sm_inv_def)
qed

lemma sm_heartbeat:
  assumes inv: "sm_inv m" and fr: "sm_fresh m"
  shows "\<exists>b m'. SessionManager_heartbeat t now m = (Inr b, m') \<and> sm_inv m' \<and> bind_step m m' \<and> sm_closes m' = sm_closes m \<and>
     b = (map_of (sm_byTransport m) t \<noteq> None) \<and> sm_byTransport m' = sm_byTransport m \<and> sm_byPlayer m' = sm_byPlayer m \<and>
     (\<forall>a. map_of (sm_byTransport m) t = Some a \<longrightarrow> ps_lastActivity (sm_session m' a) = now)"
proof (cases "map_of (sm_byTransport m) t")
  case None
  with inv show ?thesis
    by (intro exI[of _ False]) (simp add: SessionManager_heartbeat_def SessionManager_findByTransport_def)
next
  case (Some a)
  note i = inv[unfolded sm_inv_def]
  have run: "sm_lifecycle m = LcRunning" using i Some by (cases "sm_lifecycle m") (auto simp: sm_indexed_def)
  note a = sm_indexedD(2)[OF conjunct1[OF i] Some]
  define mi where "mi = sm_modify a (PlayerSession_heartbeat now) m"
  have ixi: "sm_indexed mi"
    using i idx_ok_touch[of _ _ "sm_store m" _ "PlayerSession_heartbeat now (sm_session m a)" a]
    by (simp add: sm_indexed_def mi_def sm_modify_def PlayerSession_heartbeat_def)
  have bound: "map_of (sm_byTransport mi) t = Some a" using Some by (simp add: mi_def sm_modify_def)
  have rest: "dq_lookup (sm_idleDeadlines mi) k = (if k \<in> {} then None else map_option (idle_entry mi) (map_of (sm_byTransport mi) k))"
    if "k \<noteq> t" for k
  proof -
    have "idle_entry mi b = idle_entry m b" if "map_of (sm_byTransport m) k = Some b" for b
    proof -
      have "b \<noteq> a" using sm_indexedD(2)[OF conjunct1[OF i] that] \<open>k \<noteq> t\<close> a by auto
      then show ?thesis by (simp add: idle_entry_def mi_def sm_modify_def)
    qed
    then show ?thesis using i by (cases "map_of (sm_byTransport m) k") (auto simp: mi_def sm_modify_def sm_armed_def)
  qed
  have d: "now + smo_idleTimeout (sm_options m) = ps_lastActivity (sm_session mi a) + smo_idleTimeout (sm_options mi)"
    using a by (simp add: mi_def sm_modify_def PlayerSession_heartbeat_def)
  have "\<exists>m'. SessionManager_armIdle a (now + smo_idleTimeout (sm_options m)) mi = (Inr (), m') \<and> sm_indexed m' \<and> sm_armed ({} - {t}) m' \<and>
     sm_closes m' = sm_closes mi \<and> sm_byTransport m' = sm_byTransport mi \<and> sm_byPlayer m' = sm_byPlayer mi \<and>
     sm_options m' = sm_options mi \<and> sm_lifecycle m' = sm_lifecycle mi \<and> sm_lifetime m' = sm_lifetime mi \<and>
     (\<exists>token. sm_store m' = (sm_store mi)[a := (sm_session mi a)\<lparr> ps_idleDeadline := token \<rparr>])"
    using i fr by (intro armIdle_inv[OF ixi _ _ _ _ bound rest d]) (simp_all add: mi_def sm_modify_def sm_armed_def sm_fresh_def)
  then obtain m' token where m': "SessionManager_armIdle a (now + smo_idleTimeout (sm_options m)) mi = (Inr (), m')" "sm_indexed m'" "sm_armed {} m'"
     "sm_closes m' = sm_closes m" "sm_byTransport m' = sm_byTransport m" "sm_byPlayer m' = sm_byPlayer m"
     "sm_store m' = (sm_store mi)[a := (sm_session mi a)\<lparr> ps_idleDeadline := token \<rparr>]"
    by (auto simp: mi_def sm_modify_def)
  have "bind_step m m'"
    using armIdle_keys[OF m'(1)] a by (auto simp: bind_step_def mi_def sm_modify_def nth_list_update PlayerSession_heartbeat_def)
  moreover have "ps_lastActivity (sm_session m' a) = now"
    using m'(7) a by (simp add: mi_def sm_modify_def PlayerSession_heartbeat_def)
  ultimately show ?thesis
    using m' run a Some by (auto simp: SessionManager_heartbeat_def SessionManager_findByTransport_def mi_def[symmetric] sm_inv_def)
qed

section \<open>Authentication\<close>

lemma sm_authenticate:
  assumes inv: "sm_inv m" and fr: "sm_fresh m"
  shows "\<exists>r m'. SessionManager_authenticate p ep now m = (Inr r, m') \<and> sm_inv m' \<and> bind_step m m'"
proof (cases "sm_lifecycle m \<noteq> LcRunning \<or> ep = None \<or> p = []")
  case True
  with inv show ?thesis by (auto simp: SessionManager_authenticate_def split: option.splits)
next
  case False
  then obtain e where e: "ep = Some e" and run: "sm_lifecycle m = LcRunning" and p: "p \<noteq> []" by auto
  note i = inv[unfolded sm_inv_def]
  show ?thesis
  proof (cases "map_of (sm_byTransport m) (ep_id e)")
    case (Some b)
    note b = sm_indexedD(2)[OF conjunct1[OF i] Some]
    show ?thesis
    proof (cases "ps_playerId (sm_session m b) = p \<and> ps_endpoint (sm_session m b) = e")
      case True
      with b have "map_of (sm_byPlayer m) p = Some b" by simp
      with sm_refresh[OF inv fr run this, of now] True Some e run p b show ?thesis
        by (auto simp: SessionManager_authenticate_def)
    next
      case F: False
      with inv Some e run p show ?thesis by (auto simp: SessionManager_authenticate_def sm_inv_def)
    qed
  next
    case None
    show ?thesis
    proof (cases "map_of (sm_byPlayer m) p")
      case N: None
      with sm_create[OF inv fr run p N None, of now] None e run p show ?thesis by (auto simp: SessionManager_authenticate_def)
    next
      case (Some a)
      have "PlayerSession_transportId (sm_session m a) \<noteq> ep_id e"
        using sm_indexedD(1)[OF conjunct1[OF i] Some] None by auto
      with sm_rebind[OF inv fr run Some None, of now] None Some e run p inv show ?thesis
        by (auto simp: SessionManager_authenticate_def)
    qed
  qed
qed

end
