(* ===== verification/Session_Expiry.thy ===== *)
theory Session_Expiry
  imports Session_Invariants
begin

text \<open>
  Idle expiry, shutdown and runs of the session manager, and the properties of the session layer.
\<close>

section \<open>Idle expiry\<close>

abbreviation dx_key :: "DeadlineExpiration \<Rightarrow> nat" where
  "dx_key x \<equiv> dt_key (dx_token x)"

text \<open>The loop over the expirations of one batch erases the session of each of them: the branch that
  arms the deadline again is never taken, because a queued deadline is always the last activity plus
  the timeout.\<close>

lemma expireIdleEach_all:
  assumes "sm_indexed m" "sm_armed (dx_key ` set xs) m" "distinct (map dx_key xs)"
    and "\<forall>x \<in> set xs. dx_deadline x \<le> now \<and> (\<exists>a. map_of (sm_byTransport m) (dx_key x) = Some a \<and> idle_entry m a = x)"
  shows "\<exists>m'. expireIdleEach now xs n m = (Inr (n + length xs), m') \<and> sm_indexed m' \<and> sm_armed {} m' \<and> bind_step m m' \<and>
     sm_idleDeadlines m' = sm_idleDeadlines m \<and> sm_options m' = sm_options m \<and> sm_lifecycle m' = sm_lifecycle m \<and>
     map_of (sm_byTransport m') = (\<lambda>k. if k \<in> dx_key ` set xs then None else map_of (sm_byTransport m) k) \<and>
     (\<forall>k a. map_of (sm_byTransport m') k = Some a \<longrightarrow> sm_session m' a = sm_session m a) \<and>
     sm_closes m' = sm_closes m @ map (\<lambda>x. (ps_endpoint (sm_session m (the (map_of (sm_byTransport m) (dx_key x)))), IdleTimeout)) xs"
  using assms
proof (induction xs arbitrary: m n)
  case (Cons x xs)
  from Cons.prems(4)[rule_format, of x] obtain a where a: "map_of (sm_byTransport m) (dx_key x) = Some a" "idle_entry m a = x" "dx_deadline x \<le> now" by auto
  have tok: "ps_idleDeadline (sm_session m a) = dx_token x" using a(2) by (auto simp: idle_entry_def)
  have late: "\<not> now - ps_lastActivity (sm_session m a) < smo_idleTimeout (sm_options m)"
    using a(2,3) by (auto simp: idle_entry_def)
  from sm_erase[OF Cons.prems(1,2) a(1)] tok obtain m1 where e: "SessionManager_eraseSession a m = (Inr (), m1)" "sm_indexed m1"
     "sm_armed (dx_key ` set (x # xs) - {dx_key x}) m1" "bind_step m m1"
     "map_of (sm_byTransport m1) = (map_of (sm_byTransport m))(dx_key x := None)"
     "sm_closes m1 = sm_closes m" "sm_options m1 = sm_options m" "sm_lifecycle m1 = sm_lifecycle m"
     "\<forall>b. b \<noteq> a \<longrightarrow> sm_session m1 b = sm_session m b" "sm_idleDeadlines m1 = sm_idleDeadlines m" by auto
  define m2 where "m2 = SessionManager_closeEndpoint (Some (ps_endpoint (sm_session m a))) IdleTimeout m1"
  have keys: "dx_key ` set (x # xs) - {dx_key x} = dx_key ` set xs" using Cons.prems(3) by auto
  have m2: "sm_indexed m2" "sm_armed (dx_key ` set xs) m2" using e(2,3) keys by (simp_all add: m2_def)
  have other: "b \<noteq> a" if "map_of (sm_byTransport m) k = Some b" "k \<noteq> dx_key x" for k b
    using sm_indexedD(2)[OF Cons.prems(1) that(1)] sm_indexedD(2)[OF Cons.prems(1) a(1)] that(2) by auto
  have rest: "dx_deadline y \<le> now \<and> (\<exists>b. map_of (sm_byTransport m2) (dx_key y) = Some b \<and> idle_entry m2 b = y)" if y: "y \<in> set xs" for y
  proof -
    have ne: "dx_key y \<noteq> dx_key x" using Cons.prems(3) imageI[OF y, of dx_key] by auto
    from Cons.prems(4)[rule_format, of y] y obtain b where b: "map_of (sm_byTransport m) (dx_key y) = Some b" "idle_entry m b = y" "dx_deadline y \<le> now" by auto
    have "sm_session m2 b = sm_session m b" using other[OF b(1) ne] e(9) by (simp add: m2_def)
    then have "idle_entry m2 b = y" using b(2) e(7) by (simp add: idle_entry_def m2_def)
    with b ne show ?thesis by (simp add: m2_def e(5))
  qed
  from Cons.IH[OF m2 _ ballI[OF rest], of "n + 1"] Cons.prems(3) obtain m' where m': "expireIdleEach now xs (n + 1) m2 = (Inr (n + 1 + length xs), m')"
     "sm_indexed m'" "sm_armed {} m'" "bind_step m2 m'" "sm_idleDeadlines m' = sm_idleDeadlines m2" "sm_options m' = sm_options m2"
     "sm_lifecycle m' = sm_lifecycle m2"
     "map_of (sm_byTransport m') = (\<lambda>k. if k \<in> dx_key ` set xs then None else map_of (sm_byTransport m2) k)"
     "\<forall>k a. map_of (sm_byTransport m') k = Some a \<longrightarrow> sm_session m' a = sm_session m2 a"
     "sm_closes m' = sm_closes m2 @ map (\<lambda>x. (ps_endpoint (sm_session m2 (the (map_of (sm_byTransport m2) (dx_key x)))), IdleTimeout)) xs"
    by auto
  have run: "expireIdleEach now (x # xs) n m = (Inr (n + length (x # xs)), m')"
    using a(1) tok late e(1) m'(1) by (simp add: SessionManager_findByTransport_def m2_def)
  have bt: "map_of (sm_byTransport m') = (\<lambda>k. if k \<in> dx_key ` set (x # xs) then None else map_of (sm_byTransport m) k)"
    unfolding m'(8) by (auto simp: m2_def e(5))
  have keep: "sm_session m' b = sm_session m b" if "map_of (sm_byTransport m') k = Some b" for k b
  proof -
    have k: "map_of (sm_byTransport m) k = Some b" "k \<noteq> dx_key x" using that unfolding bt by (auto split: if_splits)
    then show ?thesis using m'(9) that other[OF k] e(9) by (auto simp: m2_def)
  qed
  have "ps_endpoint (sm_session m2 (the (map_of (sm_byTransport m2) (dx_key y)))) = ps_endpoint (sm_session m (the (map_of (sm_byTransport m) (dx_key y))))"
    if y: "y \<in> set xs" for y
  proof -
    have ne: "dx_key y \<noteq> dx_key x" using Cons.prems(3) imageI[OF y, of dx_key] by auto
    from Cons.prems(4)[rule_format, of y] y obtain b where "map_of (sm_byTransport m) (dx_key y) = Some b" by auto
    with other[OF this ne] ne e(9) show ?thesis by (simp add: m2_def e(5))
  qed
  then have cl: "sm_closes m' = sm_closes m @ map (\<lambda>x. (ps_endpoint (sm_session m (the (map_of (sm_byTransport m) (dx_key x)))), IdleTimeout)) (x # xs)"
    unfolding m'(10) by (simp add: m2_def e(6) a(1))
  have "bind_step m m'" using bind_step_trans[OF _ m'(4)] e(4) by (simp add: m2_def)
  with run bt keep cl m'(2,3,5-7) e(7,8,10) show ?case by (simp add: m2_def)
qed simp

text \<open>The times of the manager stay within the clock's range.\<close>

definition sm_times :: "SessionManager \<Rightarrow> bool" where
  "sm_times m \<longleftrightarrow> list_all (\<lambda>(t, a). ps_lastActivity (sm_session m a) + smo_idleTimeout (sm_options m) \<le> ts_max) (sm_byTransport m)"

lemma sm_times_iff:
  "sm_indexed m \<Longrightarrow> sm_times m \<longleftrightarrow> (\<forall>t a. map_of (sm_byTransport m) t = Some a \<longrightarrow>
     ps_lastActivity (sm_session m a) + smo_idleTimeout (sm_options m) \<le> ts_max)"
  by (auto simp: sm_times_def list_all_iff sm_indexed_def)

text \<open>Every queued entry belongs to a bound session.\<close>

lemma sm_flat_entry:
  assumes "sm_inv m" "(b, x) \<in> set (dq_flat (sm_idleDeadlines m))"
  shows "\<exists>a. map_of (sm_byTransport m) (dx_key x) = Some a \<and> x = idle_entry m a"
proof -
  have "dq_lookup (sm_idleDeadlines m) (dx_key x) = Some x"
    using assms sm_inv_parts[OF assms(1)] dq_lookup_iff by blast
  with assms(1) show ?thesis by (auto simp: sm_inv_def sm_armed_def)
qed

lemma sm_expireBatch:
  assumes inv: "sm_inv m" and tm: "sm_times m" and run: "sm_lifecycle m = LcRunning"
  shows "\<exists>r m' gone. SessionManager_expireIdleBatch now m = (Inr r, m') \<and> sm_inv m' \<and> sm_times m' \<and> bind_step m m' \<and>
     sm_options m' = sm_options m \<and> sm_lifecycle m' = LcRunning \<and> ier_expired r = length gone \<and> distinct gone \<and>
     (\<forall>k \<in> set gone. \<exists>a. map_of (sm_byTransport m) k = Some a \<and> ps_lastActivity (sm_session m a) + smo_idleTimeout (sm_options m) \<le> now) \<and>
     map_of (sm_byTransport m') = (\<lambda>k. if k \<in> set gone then None else map_of (sm_byTransport m) k) \<and>
     (\<forall>k a. map_of (sm_byTransport m') k = Some a \<longrightarrow> sm_session m' a = sm_session m a) \<and>
     sm_closes m' = sm_closes m @ map (\<lambda>k. (ps_endpoint (sm_session m (the (map_of (sm_byTransport m) k))), IdleTimeout)) gone \<and>
     (ier_readyRemaining r \<longrightarrow> length (dq_flat (sm_idleDeadlines m')) < length (dq_flat (sm_idleDeadlines m))) \<and>
     (\<not> ier_readyRemaining r \<longrightarrow> (\<forall>x \<in> set (dq_flat (sm_idleDeadlines m')). now < fst x))"
proof -
  note p = sm_inv_parts[OF inv]
  have qi: "dq_inv (sm_idleDeadlines m)" using p by simp
  obtain r q where q: "DeadlineQueue_advance now (sm_idleDeadlines m) = (Inr r, q)" "dq_inv q" "dq_options q = dq_options (sm_idleDeadlines m)"
    "dq_nextGeneration q = dq_nextGeneration (sm_idleDeadlines m)"
    "distinct (map (\<lambda>x. dx_key x) (dar_expired r))"
    "\<And>x. x \<in> set (dar_expired r) \<Longrightarrow> dq_lookup (sm_idleDeadlines m) (dx_key x) = Some x \<and>
       (\<exists>b. (b, x) \<in> set (dq_flat (sm_idleDeadlines m)) \<and> b \<le> now)"
    "\<And>k. dq_lookup q k = (if k \<in> (\<lambda>x. dx_key x) ` set (dar_expired r) then None else dq_lookup (sm_idleDeadlines m) k)"
    "dar_readyRemaining r = (\<exists>x \<in> set (dq_flat q). fst x \<le> now)"
    "length (dar_expired r) + length (dq_flat q) = length (dq_flat (sm_idleDeadlines m))"
    "dar_readyRemaining r \<Longrightarrow> dar_expired r \<noteq> []"
    by (rule dq_lookup_advance[OF qi, of now]) (rule that; assumption)
  define m1 where "m1 = m\<lparr> sm_idleDeadlines := q \<rparr>"
  have ie: "idle_entry m1 = idle_entry m" by (simp add: fun_eq_iff idle_entry_def m1_def)
  have ix: "sm_indexed m1" using p by (simp add: sm_indexed_def m1_def)
  have ar: "sm_armed (dx_key ` set (dar_expired r)) m1"
    using inv q(2,3,7) ie by (simp add: sm_inv_def sm_armed_def m1_def)
  have each: "dx_deadline x \<le> now \<and> (\<exists>a. map_of (sm_byTransport m1) (dx_key x) = Some a \<and> idle_entry m1 a = x)"
    if x: "x \<in> set (dar_expired r)" for x
  proof -
    from q(6)[OF x] obtain b where b: "(b, x) \<in> set (dq_flat (sm_idleDeadlines m))" "b \<le> now" by auto
    from sm_flat_entry[OF inv b(1)] obtain a where a: "map_of (sm_byTransport m) (dx_key x) = Some a" "x = idle_entry m a" by auto
    have "b = DeadlineQueue_quantize (dqo_resolution (dq_options (sm_idleDeadlines m))) (dx_deadline x)"
      and res: "0 < dqo_resolution (dq_options (sm_idleDeadlines m))" using p b(1) by (auto simp: dq_inv_def)
    moreover have "dx_deadline x \<le> ts_max" using tm a sm_times_iff[OF conjunct1[OF p]] by (simp add: idle_entry_def)
    ultimately have "dx_deadline x \<le> b" using quantize_ceiling(1)[OF res] by simp
    with b(2) a show ?thesis by (auto simp: ie) (simp add: m1_def)
  qed
  have eachB: "\<forall>x \<in> set (dar_expired r). dx_deadline x \<le> now \<and> (\<exists>a. map_of (sm_byTransport m1) (dx_key x) = Some a \<and> idle_entry m1 a = x)"
    by (intro ballI each)
  have m1: "sm_byTransport m1 = sm_byTransport m" "sm_options m1 = sm_options m" "sm_lifecycle m1 = sm_lifecycle m"
    "sm_closes m1 = sm_closes m" "sm_store m1 = sm_store m" "sm_idleDeadlines m1 = q" by (simp_all add: m1_def)
  from expireIdleEach_all[OF ix ar q(5) eachB, of 0]
  obtain m' where "expireIdleEach now (dar_expired r) 0 m1 = (Inr (0 + length (dar_expired r)), m')" and m'1: "sm_indexed m'" "sm_armed {} m'" "bind_step m1 m'"
     "sm_idleDeadlines m' = sm_idleDeadlines m1" "sm_options m' = sm_options m1" "sm_lifecycle m' = sm_lifecycle m1"
     "map_of (sm_byTransport m') = (\<lambda>k. if k \<in> dx_key ` set (dar_expired r) then None else map_of (sm_byTransport m1) k)"
     "\<forall>k a. map_of (sm_byTransport m') k = Some a \<longrightarrow> sm_session m' a = sm_session m1 a"
     "sm_closes m' = sm_closes m1 @ map (\<lambda>x. (ps_endpoint (sm_session m1 (the (map_of (sm_byTransport m1) (dx_key x)))), IdleTimeout)) (dar_expired r)"
    by (elim exE conjE) (rule that)
  then have "expireIdleEach now (dar_expired r) 0 m1 = (Inr (length (dar_expired r)), m')" by simp
  note m' = this m'1[unfolded m1]
  define gone where "gone = map dx_key (dar_expired r)"
  have goneset: "set gone = dx_key ` set (dar_expired r)" by (simp add: gone_def)
  have runs: "SessionManager_expireIdleBatch now m =
      (Inr \<lparr> ier_expired = length (dar_expired r), ier_readyRemaining = dar_readyRemaining r \<rparr>, m')"
    using run q(1) m'(1) by (simp add: SessionManager_expireIdleBatch_def m1_def)
  have late: "\<exists>a. map_of (sm_byTransport m) k = Some a \<and> ps_lastActivity (sm_session m a) + smo_idleTimeout (sm_options m) \<le> now"
    if "k \<in> set gone" for k
  proof -
    from that obtain x where x: "x \<in> set (dar_expired r)" "k = dx_key x" by (auto simp: gone_def)
    from each[OF x(1)] obtain a where "map_of (sm_byTransport m) k = Some a" "idle_entry m a = x" "dx_deadline x \<le> now"
      using x(2) ie by (auto simp: m1_def)
    then show ?thesis by (auto simp: idle_entry_def)
  qed
  have tm': "sm_times m'"
    unfolding sm_times_iff[OF m'(2)]
  proof (intro allI impI)
    fix k a assume k: "map_of (sm_byTransport m') k = Some a"
    then have "map_of (sm_byTransport m) k = Some a" unfolding m'(8) by (auto split: if_splits)
    with tm m'(9) k show "ps_lastActivity (sm_session m' a) + smo_idleTimeout (sm_options m') \<le> ts_max"
      unfolding sm_times_iff[OF conjunct1[OF p]] m'(6) by auto
  qed
  have bs: "bind_step m m'" using m'(4) by (simp add: bind_step_def m1_def)
  have cl: "sm_closes m' = sm_closes m @ map (\<lambda>k. (ps_endpoint (sm_session m (the (map_of (sm_byTransport m) k))), IdleTimeout)) gone"
    unfolding m'(10) by (simp add: gone_def)
  have shrink: "dar_readyRemaining r \<longrightarrow> length (dq_flat q) < length (dq_flat (sm_idleDeadlines m))"
    using q(9,10) by (cases "dar_expired r") auto
  have idle: "\<not> dar_readyRemaining r \<longrightarrow> (\<forall>x \<in> set (dq_flat q). now < fst x)" using q(8) by force
  have inv': "sm_inv m'" using m'(2,3) by (simp add: sm_inv_def)
  have bt: "map_of (sm_byTransport m') = (\<lambda>k. if k \<in> set gone then None else map_of (sm_byTransport m) k)"
    unfolding m'(8) goneset by (rule refl)
  have dg: "distinct gone" using q(5) by (simp add: gone_def)
  show ?thesis
    using runs inv' tm' bs m'(6,7) run dg late bt m'(9) cl shrink idle m'(5)
    by (intro exI[of _ "\<lparr> ier_expired = length (dar_expired r), ier_readyRemaining = dar_readyRemaining r \<rparr>"] exI[of _ m'] exI[of _ gone])
       (simp add: gone_def)
qed

lemma sm_expireLoop:
  assumes "sm_inv m" "sm_times m" "sm_lifecycle m = LcRunning"
  shows "\<exists>m' gone. SessionManager_expireIdleLoop now n m = Some (Inr (n + length gone), m') \<and> sm_inv m' \<and> sm_times m' \<and> bind_step m m' \<and>
     sm_options m' = sm_options m \<and> sm_lifecycle m' = LcRunning \<and> distinct gone \<and>
     (\<forall>k \<in> set gone. \<exists>a. map_of (sm_byTransport m) k = Some a \<and> ps_lastActivity (sm_session m a) + smo_idleTimeout (sm_options m) \<le> now) \<and>
     map_of (sm_byTransport m') = (\<lambda>k. if k \<in> set gone then None else map_of (sm_byTransport m) k) \<and>
     (\<forall>k a. map_of (sm_byTransport m') k = Some a \<longrightarrow> sm_session m' a = sm_session m a) \<and>
     sm_closes m' = sm_closes m @ map (\<lambda>k. (ps_endpoint (sm_session m (the (map_of (sm_byTransport m) k))), IdleTimeout)) gone \<and>
     (\<forall>x \<in> set (dq_flat (sm_idleDeadlines m')). now < fst x)"
  using assms
proof (induction "length (dq_flat (sm_idleDeadlines m))" arbitrary: m n rule: less_induct)
  case less
  from sm_expireBatch[OF less.prems, of now] obtain r m1 g1 where
    b: "SessionManager_expireIdleBatch now m = (Inr r, m1)" "sm_inv m1" "sm_times m1" "bind_step m m1"
     "sm_options m1 = sm_options m" "sm_lifecycle m1 = LcRunning" "ier_expired r = length g1" "distinct g1"
     "\<forall>k \<in> set g1. \<exists>a. map_of (sm_byTransport m) k = Some a \<and> ps_lastActivity (sm_session m a) + smo_idleTimeout (sm_options m) \<le> now"
     "map_of (sm_byTransport m1) = (\<lambda>k. if k \<in> set g1 then None else map_of (sm_byTransport m) k)"
     "\<forall>k a. map_of (sm_byTransport m1) k = Some a \<longrightarrow> sm_session m1 a = sm_session m a"
     "sm_closes m1 = sm_closes m @ map (\<lambda>k. (ps_endpoint (sm_session m (the (map_of (sm_byTransport m) k))), IdleTimeout)) g1"
     "ier_readyRemaining r \<longrightarrow> length (dq_flat (sm_idleDeadlines m1)) < length (dq_flat (sm_idleDeadlines m))"
     "\<not> ier_readyRemaining r \<longrightarrow> (\<forall>x \<in> set (dq_flat (sm_idleDeadlines m1)). now < fst x)"
    by (elim exE conjE) (rule that)
  show ?case
  proof (cases "ier_readyRemaining r")
    case False
    then have "SessionManager_expireIdleLoop now n m = Some (Inr (n + length g1), m1)"
      using b(1,7) by (subst SessionManager_expireIdleLoop.simps) simp
    with b False show ?thesis by (intro exI[of _ m1] exI[of _ g1]) simp
  next
    case True
    with b(13) have "length (dq_flat (sm_idleDeadlines m1)) < length (dq_flat (sm_idleDeadlines m))" by simp
    from less.hyps[OF this b(2,3,6), of "n + length g1"] obtain m2 g2 where
      c: "SessionManager_expireIdleLoop now (n + length g1) m1 = Some (Inr (n + length g1 + length g2), m2)" "sm_inv m2" "sm_times m2" "bind_step m1 m2"
     "sm_options m2 = sm_options m1" "sm_lifecycle m2 = LcRunning" "distinct g2"
     "\<forall>k \<in> set g2. \<exists>a. map_of (sm_byTransport m1) k = Some a \<and> ps_lastActivity (sm_session m1 a) + smo_idleTimeout (sm_options m1) \<le> now"
     "map_of (sm_byTransport m2) = (\<lambda>k. if k \<in> set g2 then None else map_of (sm_byTransport m1) k)"
     "\<forall>k a. map_of (sm_byTransport m2) k = Some a \<longrightarrow> sm_session m2 a = sm_session m1 a"
     "sm_closes m2 = sm_closes m1 @ map (\<lambda>k. (ps_endpoint (sm_session m1 (the (map_of (sm_byTransport m1) k))), IdleTimeout)) g2"
     "\<forall>x \<in> set (dq_flat (sm_idleDeadlines m2)). now < fst x"
      by (elim exE conjE) (rule that)
    have run: "SessionManager_expireIdleLoop now n m = Some (Inr (n + length (g1 @ g2)), m2)"
      using b(1,7) True c(1) by (subst SessionManager_expireIdleLoop.simps) (simp add: add.assoc)
    have g2: "map_of (sm_byTransport m) k = map_of (sm_byTransport m1) k \<and> k \<notin> set g1 \<and>
        (\<exists>a. map_of (sm_byTransport m1) k = Some a \<and> sm_session m1 a = sm_session m a \<and>
             ps_lastActivity (sm_session m a) + smo_idleTimeout (sm_options m) \<le> now)" if "k \<in> set g2" for k
    proof -
      from c(8) that obtain a where a: "map_of (sm_byTransport m1) k = Some a"
        "ps_lastActivity (sm_session m1 a) + smo_idleTimeout (sm_options m1) \<le> now" by blast
      have s: "sm_session m1 a = sm_session m a" using b(11) a(1) by blast
      have "k \<notin> set g1" using a(1) unfolding b(10) by (auto split: if_splits)
      moreover have "map_of (sm_byTransport m) k = map_of (sm_byTransport m1) k" using \<open>k \<notin> set g1\<close> unfolding b(10) by simp
      ultimately show ?thesis using a s b(5) by auto
    qed
    have dis: "distinct (g1 @ g2)" using b(8) c(7) g2 by auto
    have late: "\<forall>k \<in> set (g1 @ g2). \<exists>a. map_of (sm_byTransport m) k = Some a \<and> ps_lastActivity (sm_session m a) + smo_idleTimeout (sm_options m) \<le> now"
      using b(9) g2 by fastforce
    have bt: "map_of (sm_byTransport m2) = (\<lambda>k. if k \<in> set (g1 @ g2) then None else map_of (sm_byTransport m) k)"
      unfolding c(9) b(10) by auto
    have keep: "\<forall>k a. map_of (sm_byTransport m2) k = Some a \<longrightarrow> sm_session m2 a = sm_session m a"
    proof (intro allI impI)
      fix k a assume k: "map_of (sm_byTransport m2) k = Some a"
      then have "map_of (sm_byTransport m1) k = Some a" unfolding c(9) by (auto split: if_splits)
      with k b(11) c(10) show "sm_session m2 a = sm_session m a" by metis
    qed
    have "map (\<lambda>k. (ps_endpoint (sm_session m1 (the (map_of (sm_byTransport m1) k))), IdleTimeout)) g2 =
        map (\<lambda>k. (ps_endpoint (sm_session m (the (map_of (sm_byTransport m) k))), IdleTimeout)) g2"
      using g2 by (intro map_cong refl) (auto split: option.splits, metis option.sel)
    then have cl: "sm_closes m2 = sm_closes m @ map (\<lambda>k. (ps_endpoint (sm_session m (the (map_of (sm_byTransport m) k))), IdleTimeout)) (g1 @ g2)"
      unfolding c(11) b(12) by simp
    show ?thesis
      using run c(2,3,6,12) bind_step_trans[OF b(4) c(4)] c(5) b(5) dis late bt keep cl
      by (intro exI[of _ m2] exI[of _ "g1 @ g2"] conjI) simp_all
  qed
qed

section \<open>Shutdown\<close>

lemma fold_modify:
  "fold (\<lambda>a. sm_modify a f) as m = m\<lparr> sm_store := fold (\<lambda>a st. st[a := f (st ! a)]) as (sm_store m) \<rparr>"
  by (induction as arbitrary: m) (simp_all add: sm_modify_def)

lemma fold_close:
  "fold (\<lambda>ep. SessionManager_closeEndpoint (Some ep) r) eps m = m\<lparr> sm_closes := sm_closes m @ map (\<lambda>ep. (ep, r)) eps \<rparr>"
  by (induction eps arbitrary: m) (simp_all add: SessionManager_closeEndpoint_def)

lemma nth_list_update_if: "xs[i := x] ! j = (if i = j \<and> j < length xs then x else xs ! j)"
  by (cases "i < length xs") (auto simp: nth_list_update list_update_beyond)

lemma fold_offline:
  "a < length st \<Longrightarrow> ps_currentGeneration (fold (\<lambda>a st. st[a := PlayerSession_markOffline (st ! a)]) as st ! a) =
     (if a \<in> set as then 0 else ps_currentGeneration (st ! a)) \<and>
   ps_generation (fold (\<lambda>a st. st[a := PlayerSession_markOffline (st ! a)]) as st ! a) = ps_generation (st ! a)"
  by (induction as arbitrary: st) (auto simp: nth_list_update_if PlayerSession_markOffline_def)

lemma length_fold_update: "length (fold (\<lambda>a st. st[a := f (st ! a)]) as st) = length st"
  by (induction as arbitrary: st) auto

lemma sm_shutdown:
  assumes inv: "sm_inv m" and run: "sm_lifecycle m = LcRunning"
  shows "sm_inv (SessionManager_shutdown m) \<and> bind_step m (SessionManager_shutdown m) \<and> sm_lifecycle (SessionManager_shutdown m) = LcShutdown \<and>
     sm_byPlayer (SessionManager_shutdown m) = [] \<and> sm_byTransport (SessionManager_shutdown m) = [] \<and>
     dq_flat (sm_idleDeadlines (SessionManager_shutdown m)) = [] \<and>
     sm_lifetime (SessionManager_shutdown m) = (if sm_lifetime m = Accepted then Shutdown else sm_lifetime m) \<and>
     length (sm_store (SessionManager_shutdown m)) = length (sm_store m) \<and>
     (\<forall>a < length (sm_store m). ps_currentGeneration (sm_session (SessionManager_shutdown m) a) = 0) \<and>
     sm_closes (SessionManager_shutdown m) = sm_closes m @ map (\<lambda>(p, a). (ps_endpoint (sm_session m a), GoingAway)) (sm_byPlayer m)"
proof -
  define st where "st = fold (\<lambda>a st. st[a := PlayerSession_markOffline (st ! a)]) (map snd (sm_byPlayer m)) (sm_store m)"
  define m' where "m' = m\<lparr> sm_lifetime := (if sm_lifetime m = Accepted then Shutdown else sm_lifetime m), sm_lifecycle := LcShutdown,
     sm_store := st, sm_byTransport := [], sm_byPlayer := [], sm_idleDeadlines := DeadlineQueue_clear (sm_idleDeadlines m),
     sm_closes := sm_closes m @ map (\<lambda>(p, a). (ps_endpoint (sm_session m a), GoingAway)) (sm_byPlayer m) \<rparr>"
  have e: "SessionManager_shutdown m = m'"
    using run by (simp add: SessionManager_shutdown_def Let_def fold_modify fold_close m'_def st_def LifetimeState_revoke_def
        comp_def split_beta)
  note p = sm_inv_parts[OF inv]
  have len: "length st = length (sm_store m)" by (simp add: st_def length_fold_update)
  have cur: "ps_currentGeneration (st ! a) = 0" if a: "a < length (sm_store m)" for a
  proof (cases "a \<in> set (map snd (sm_byPlayer m))")
    case True
    with fold_offline[OF a] show ?thesis by (simp add: st_def)
  next
    case False
    have "map_of (sm_byTransport m) t \<noteq> Some a" for t
    proof
      assume "map_of (sm_byTransport m) t = Some a"
      from sm_indexedD(2)[OF conjunct1[OF p] this] have "map_of (sm_byPlayer m) (ps_playerId (sm_session m a)) = Some a" by simp
      then have "a \<in> set (map snd (sm_byPlayer m))" using map_of_SomeD by force
      with False show False by simp
    qed
    then have "ps_currentGeneration (sm_session m a) = 0" using p a by (simp add: sm_indexed_def idx_ok_def)
    with fold_offline[OF a] show ?thesis by (simp add: st_def)
  qed
  have gen: "ps_generation (st ! a) = ps_generation (sm_session m a)" if "a < length (sm_store m)" for a
    using fold_offline[OF that] by (simp add: st_def)
  have "sm_inv m'"
    using inv cur gen len dq_clear[of "sm_idleDeadlines m"]
    by (simp add: m'_def sm_inv_def sm_indexed_def idx_ok_def sm_armed_def) (simp add: DeadlineQueue_clear_def)
  moreover have "bind_step m m'" using cur len by (simp add: bind_step_def m'_def)
  moreover have "dq_flat (sm_idleDeadlines m') = []" using p dq_clear by (simp add: m'_def)
  ultimately show ?thesis using cur len unfolding e by (simp add: m'_def)
qed

section \<open>Runs of the manager\<close>

datatype session_op =
    OpAuthenticate PlayerId "Endpoint option" timestamp
  | OpOffline nat
  | OpHeartbeat nat timestamp
  | OpExpireBatch timestamp
  | OpShutdown

fun session_step :: "session_op \<Rightarrow> SessionManager \<Rightarrow> SessionManager" where
  "session_step (OpAuthenticate p ep now) m = snd (SessionManager_authenticate p ep now m)"
| "session_step (OpOffline t) m = snd (SessionManager_offline t m)"
| "session_step (OpHeartbeat t now) m = snd (SessionManager_heartbeat t now m)"
| "session_step (OpExpireBatch now) m = snd (SessionManager_expireIdleBatch now m)"
| "session_step OpShutdown m = SessionManager_shutdown m"

text \<open>A run of operations, as long as the generation counters and the clock have room.\<close>

fun session_run :: "session_op list \<Rightarrow> SessionManager \<Rightarrow> SessionManager option" where
  "session_run [] m = Some m"
| "session_run (op # ops) m = (if sm_fresh m \<and> sm_times m then session_run ops (session_step op m) else None)"

lemma session_step_inv:
  assumes inv: "sm_inv m" and fr: "sm_fresh m" and tm: "sm_times m"
  shows "sm_inv (session_step op m) \<and> bind_step m (session_step op m)"
proof (cases op)
  case (OpAuthenticate p ep now)
  then show ?thesis using sm_authenticate[OF inv fr, of p ep now] by auto
next
  case (OpOffline t)
  then show ?thesis using sm_offline[OF inv, of t] by auto
next
  case (OpHeartbeat t now)
  then show ?thesis using sm_heartbeat[OF inv fr, of t now] by auto
next
  case (OpExpireBatch now)
  then show ?thesis
  proof (cases "sm_lifecycle m")
    case LcRunning
    then show ?thesis using sm_expireBatch[OF inv tm, of now] OpExpireBatch by auto
  next
    case LcShutdown
    then show ?thesis using inv OpExpireBatch by (simp add: SessionManager_expireIdleBatch_def)
  qed
next
  case OpShutdown
  then show ?thesis
  proof (cases "sm_lifecycle m")
    case LcRunning
    then show ?thesis using sm_shutdown[OF inv] OpShutdown by simp
  next
    case LcShutdown
    then show ?thesis using inv OpShutdown by (simp add: SessionManager_shutdown_def)
  qed
qed

lemma session_run_inv: "sm_inv m \<Longrightarrow> session_run ops m = Some m' \<Longrightarrow> sm_inv m' \<and> bind_step m m'"
proof (induction ops arbitrary: m)
  case (Cons op ops)
  from Cons.prems(2) have f: "sm_fresh m" "sm_times m" "session_run ops (session_step op m) = Some m'" by (auto split: if_splits)
  note s = session_step_inv[OF Cons.prems(1) f(1,2), of op]
  from Cons.IH[OF _ f(3)] s show ?case using bind_step_trans by blast
qed simp

lemma bind_step_revoked:
  assumes "bind_step m m'"
    and b: "sb_state b = Some a" "a < length (sm_store m)" "0 < sb_generation b" "sb_generation b < sm_nextBindingGeneration m"
    and revoked: "\<not> SessionBinding_isCurrent (sm_store m) b"
  shows "\<not> SessionBinding_isCurrent (sm_store m') b"
proof -
  have "ps_currentGeneration (sm_session m' a) = ps_currentGeneration (sm_session m a) \<or>
      ps_currentGeneration (sm_session m' a) = 0 \<or> sm_nextBindingGeneration m \<le> ps_currentGeneration (sm_session m' a)"
    using b(2) assms(1) by (simp add: bind_step_def)
  with b revoked show ?thesis by (auto simp: SessionBinding_isCurrent_def SessionBinding_tracked_def)
qed

lemma SessionManager_new_inv:
  "SessionManager_new opts = Inr m \<Longrightarrow> sm_inv m"
  by (auto simp: SessionManager_new_def DeadlineQueue_new_def DeadlineQueueOptions_validate_def sm_inv_def sm_indexed_def idx_ok_def
      sm_armed_def dq_inv_def bm_inv_def dq_flat_def dq_lookup_def size_max_def split: sum.splits if_splits)

section \<open>Properties\<close>

definition demo_session_options :: SessionManagerOptions where
  "demo_session_options = \<lparr> smo_duplicateLogin = ReplaceExisting, smo_idleTimeout = 100, smo_idleDeadlineResolution = 10,
     smo_maxIdleExpirationsPerAdvance = 2 \<rparr>"

definition demo_manager :: SessionManager where
  "demo_manager = \<lparr> sm_lifetime = Accepted, sm_lifecycle = LcRunning, sm_options = demo_session_options,
     sm_idleDeadlines = \<lparr> dq_options = \<lparr> dqo_resolution = 10, dqo_maxExpiredPerAdvance = 2 \<rparr>, dq_nextGeneration = 1,
       dq_buckets = [], dq_entries = [] \<rparr>,
     sm_nextSessionId = 1, sm_nextBindingGeneration = 1, sm_byPlayer = [], sm_byTransport = [], sm_store = [], sm_closes = [] \<rparr>"

lemmas sm_eval = demo_manager_def demo_session_options_def SessionManager_authenticate_def authenticate_create_def authenticate_refresh_def
  authenticate_rebind_def SessionManager_armIdle_def SessionManager_offline_def SessionManager_heartbeat_def SessionManager_eraseSession_def
  SessionManager_expireIdleBatch_def SessionManager_findByTransport_def SessionManager_closeEndpoint_def SessionManager_shutdown_def
  LifetimeState_revoke_def PlayerSession_new_def PlayerSession_markOnline_def PlayerSession_markOffline_def PlayerSession_rebind_def
  PlayerSession_refreshBinding_def PlayerSession_heartbeat_def PlayerSession_transportId_def sm_modify_def u64_inc_def rejected_def
  sm_fresh_def sm_times_def DeadlineToken_null_def DeadlineQueue_clear_def dq_eval

lemma demo_manager_new: "SessionManager_new demo_session_options = Inr demo_manager"
  by (simp add: SessionManager_new_def DeadlineQueue_new_def DeadlineQueueOptions_validate_def demo_manager_def demo_session_options_def)

lemma demo_manager_inv: "sm_inv demo_manager"
  by (rule SessionManager_new_inv[OF demo_manager_new])

definition demo_ep :: "nat \<Rightarrow> Endpoint" where
  "demo_ep n = \<lparr> ep_ref = n, ep_id = n \<rparr>"

definition demo_session_ops :: "session_op list" where
  "demo_session_ops = [OpAuthenticate ''ann'' (Some (demo_ep 5)) 0, OpAuthenticate ''bob'' (Some (demo_ep 6)) 10,
     OpAuthenticate ''ann'' (Some (demo_ep 7)) 20, OpHeartbeat 6 50]"

definition demo_after :: SessionManager where
  "demo_after = demo_manager\<lparr> sm_idleDeadlines := \<lparr> dq_options = \<lparr> dqo_resolution = 10, dqo_maxExpiredPerAdvance = 2 \<rparr>,
       dq_nextGeneration = 5,
       dq_buckets = [(120, [\<lparr> dx_token = \<lparr> dt_key = 7, dt_generation = 3 \<rparr>, dx_deadline = 120 \<rparr>]),
         (150, [\<lparr> dx_token = \<lparr> dt_key = 6, dt_generation = 4 \<rparr>, dx_deadline = 150 \<rparr>])],
       dq_entries = [(6, \<lparr> loc_bucketDeadline = 150, loc_entry = \<lparr> dx_token = \<lparr> dt_key = 6, dt_generation = 4 \<rparr>, dx_deadline = 150 \<rparr> \<rparr>),
         (7, \<lparr> loc_bucketDeadline = 120, loc_entry = \<lparr> dx_token = \<lparr> dt_key = 7, dt_generation = 3 \<rparr>, dx_deadline = 120 \<rparr> \<rparr>)] \<rparr>,
     sm_nextSessionId := 3, sm_nextBindingGeneration := 4, sm_byPlayer := [(''ann'', 0), (''bob'', 1)], sm_byTransport := [(6, 1), (7, 0)],
     sm_store := [\<lparr> ps_sessionId = 1, ps_playerId = ''ann'', ps_state = Online, ps_endpoint = demo_ep 7, ps_lastActivity = 20,
         ps_generation = 3, ps_currentGeneration = 3, ps_idleDeadline = \<lparr> dt_key = 7, dt_generation = 3 \<rparr> \<rparr>,
       \<lparr> ps_sessionId = 2, ps_playerId = ''bob'', ps_state = Online, ps_endpoint = demo_ep 6, ps_lastActivity = 50,
         ps_generation = 2, ps_currentGeneration = 2, ps_idleDeadline = \<lparr> dt_key = 6, dt_generation = 4 \<rparr> \<rparr>],
     sm_closes := [(demo_ep 5, Replaced)] \<rparr>"

lemma demo_session_run: "session_run demo_session_ops demo_manager = Some demo_after"
  by (simp add: demo_after_def demo_session_ops_def sm_eval demo_ep_def)

lemma demo_after_inv: "sm_inv demo_after"
  using session_run_inv[OF demo_manager_inv demo_session_run] by simp

lemma demo_after_facts:
  "sm_fresh demo_after" "sm_times demo_after" "sm_lifecycle demo_after = LcRunning" "sm_lifetime demo_after = Accepted"
  "sm_byPlayer demo_after = [(''ann'', 0), (''bob'', 1)]" "sm_byTransport demo_after = [(6, 1), (7, 0)]"
  "sm_closes demo_after = [(demo_ep 5, Replaced)]" "length (sm_store demo_after) = 2" "sm_nextBindingGeneration demo_after = 4"
  "sm_session demo_after 0 = \<lparr> ps_sessionId = 1, ps_playerId = ''ann'', ps_state = Online, ps_endpoint = demo_ep 7, ps_lastActivity = 20,
         ps_generation = 3, ps_currentGeneration = 3, ps_idleDeadline = \<lparr> dt_key = 7, dt_generation = 3 \<rparr> \<rparr>"
  "ps_endpoint (sm_session demo_after (Suc 0)) = demo_ep 6" "smo_duplicateLogin (sm_options demo_after) = ReplaceExisting"
  by (simp_all add: demo_after_def demo_manager_def demo_session_options_def sm_fresh_def sm_times_def dq_eval size_max_def ts_max_def)

text \<open>C12. The indexes of the manager in every state that a run of authentications, disconnects,
  heartbeats, expiry batches and shutdown reaches from a new manager: looking up a player and looking up
  the transport of the session found are inverse to each other, an indexed session is online, its own
  binding is current, and the deadline queue holds exactly one entry for its transport, due one idle
  timeout after its last activity.\<close>

theorem session_indexes_consistent:
  assumes "SessionManager_new opts = Inr m" "session_run ops m = Some m'"
  shows "(\<forall>p a. SessionManager_findByPlayer p m' = Some a \<longrightarrow> ps_playerId (sm_session m' a) = p \<and>
        SessionManager_findByTransport (PlayerSession_transportId (sm_session m' a)) m' = Some a) \<and>
    (\<forall>t a. SessionManager_findByTransport t m' = Some a \<longrightarrow> PlayerSession_transportId (sm_session m' a) = t \<and>
        SessionManager_findByPlayer (ps_playerId (sm_session m' a)) m' = Some a \<and> ps_state (sm_session m' a) = Online \<and>
        SessionBinding_isCurrent (sm_store m') (PlayerSession_binding a (sm_session m' a))) \<and>
    (\<forall>t. dq_lookup (sm_idleDeadlines m') t = map_option (idle_entry m') (SessionManager_findByTransport t m'))"
proof -
  have i: "sm_indexed m'" "sm_armed {} m'"
    using session_run_inv[OF SessionManager_new_inv[OF assms(1)] assms(2)] by (simp_all add: sm_inv_def)
  have "\<forall>p a. SessionManager_findByPlayer p m' = Some a \<longrightarrow> ps_playerId (sm_session m' a) = p \<and>
        SessionManager_findByTransport (PlayerSession_transportId (sm_session m' a)) m' = Some a"
    using sm_indexedD(1)[OF i(1)] by (simp add: SessionManager_findByPlayer_def SessionManager_findByTransport_def)
  moreover have "\<forall>t a. SessionManager_findByTransport t m' = Some a \<longrightarrow> PlayerSession_transportId (sm_session m' a) = t \<and>
        SessionManager_findByPlayer (ps_playerId (sm_session m' a)) m' = Some a \<and> ps_state (sm_session m' a) = Online \<and>
        SessionBinding_isCurrent (sm_store m') (PlayerSession_binding a (sm_session m' a))"
    using sm_indexedD(2)[OF i(1)]
    by (simp add: SessionManager_findByPlayer_def SessionManager_findByTransport_def SessionBinding_isCurrent_def PlayerSession_binding_def)
  moreover have "\<forall>t. dq_lookup (sm_idleDeadlines m') t = map_option (idle_entry m') (SessionManager_findByTransport t m')"
    using i(2) by (simp add: sm_armed_def SessionManager_findByTransport_def)
  ultimately show ?thesis by blast
qed

theorem session_indexes_consistent_witness:
  "SessionManager_findByPlayer ''ann'' demo_after = Some 0 \<and> SessionManager_findByTransport 7 demo_after = Some 0 \<and>
   dq_lookup (sm_idleDeadlines demo_after) 5 = None"
proof -
  show ?thesis using session_indexes_consistent[OF demo_manager_new demo_session_run]
    by (simp add: SessionManager_findByPlayer_def SessionManager_findByTransport_def demo_after_facts)
qed

text \<open>C13. A binding that has lost currency never becomes current again: for a tracked binding of an
  existing session whose generation has been issued, if it is not current now, it is not current after
  any further run of the manager.\<close>

theorem session_binding_revoked_forever:
  assumes inv: "sm_inv m" and run: "session_run ops m = Some m'"
    and b: "sb_state b = Some a" "a < length (sm_store m)" "0 < sb_generation b" "sb_generation b < sm_nextBindingGeneration m"
    and revoked: "\<not> SessionBinding_isCurrent (sm_store m) b"
  shows "\<not> SessionBinding_isCurrent (sm_store m') b"
  using bind_step_revoked[OF _ b revoked] session_run_inv[OF inv run] by blast

theorem session_binding_revoked_forever_witness:
  "\<not> SessionBinding_isCurrent (sm_store (SessionManager_shutdown demo_after))
      \<lparr> sb_sessionId = 1, sb_transportId = 5, sb_generation = 1, sb_state = Some 0 \<rparr>"
proof -
  let ?b = "\<lparr> sb_sessionId = 1, sb_transportId = 5, sb_generation = 1, sb_state = Some 0 \<rparr>"
  have r: "session_run [OpShutdown] demo_after = Some (SessionManager_shutdown demo_after)"
    by (simp add: demo_after_facts)
  from session_binding_revoked_forever[OF demo_after_inv r, of ?b 0] show ?thesis
    by (simp add: demo_after_facts SessionBinding_isCurrent_def SessionBinding_tracked_def)
qed

text \<open>C14. \<open>expireIdle\<close> returns, and it removes and closes with \<open>IdleTimeout\<close> exactly sessions whose idle
  timeout has passed: every session it removes had been silent for at least the timeout, every other
  session is untouched, none that stays has been silent for the timeout plus one deadline resolution, and
  the result is the number removed. No batch size makes the loop endless.\<close>

theorem session_expire_idle:
  assumes inv: "sm_inv m" and tm: "sm_times m" and run: "sm_lifecycle m = LcRunning"
  shows "\<exists>m' gone. SessionManager_expireIdle now m = Some (Inr (length gone), m') \<and> sm_inv m' \<and> distinct gone \<and>
     (\<forall>k \<in> set gone. \<exists>a. map_of (sm_byTransport m) k = Some a \<and> ps_lastActivity (sm_session m a) + smo_idleTimeout (sm_options m) \<le> now) \<and>
     map_of (sm_byTransport m') = (\<lambda>k. if k \<in> set gone then None else map_of (sm_byTransport m) k) \<and>
     (\<forall>k a. map_of (sm_byTransport m') k = Some a \<longrightarrow> sm_session m' a = sm_session m a \<and>
        now < ps_lastActivity (sm_session m a) + smo_idleTimeout (sm_options m) + smo_idleDeadlineResolution (sm_options m)) \<and>
     sm_closes m' = sm_closes m @ map (\<lambda>k. (ps_endpoint (sm_session m (the (map_of (sm_byTransport m) k))), IdleTimeout)) gone"
proof -
  from sm_expireLoop[OF assms, of now 0] obtain m' gone where
    e: "SessionManager_expireIdleLoop now 0 m = Some (Inr (0 + length gone), m')" "sm_inv m'" "sm_times m'"
     "sm_options m' = sm_options m" "distinct gone"
     "\<forall>k \<in> set gone. \<exists>a. map_of (sm_byTransport m) k = Some a \<and> ps_lastActivity (sm_session m a) + smo_idleTimeout (sm_options m) \<le> now"
     "map_of (sm_byTransport m') = (\<lambda>k. if k \<in> set gone then None else map_of (sm_byTransport m) k)"
     "\<forall>k a. map_of (sm_byTransport m') k = Some a \<longrightarrow> sm_session m' a = sm_session m a"
     "sm_closes m' = sm_closes m @ map (\<lambda>k. (ps_endpoint (sm_session m (the (map_of (sm_byTransport m) k))), IdleTimeout)) gone"
     "\<forall>x \<in> set (dq_flat (sm_idleDeadlines m')). now < fst x"
    by (elim exE conjE) (rule that)
  note p = sm_inv_parts[OF e(2)]
  have young: "now < ps_lastActivity (sm_session m a) + smo_idleTimeout (sm_options m) + smo_idleDeadlineResolution (sm_options m)"
    if k: "map_of (sm_byTransport m') k = Some a" for k a
  proof -
    have l: "dq_lookup (sm_idleDeadlines m') k = Some (idle_entry m' a)" using sm_armedD(1)[of "{}" m', OF _ k] p by simp
    then obtain b where b: "(b, idle_entry m' a) \<in> set (dq_flat (sm_idleDeadlines m'))" using dq_lookup_iff p by blast
    have q: "b = DeadlineQueue_quantize (dqo_resolution (dq_options (sm_idleDeadlines m'))) (dx_deadline (idle_entry m' a))"
      "0 < dqo_resolution (dq_options (sm_idleDeadlines m'))"
      using p b by (auto simp: dq_inv_def)
    have "dx_deadline (idle_entry m' a) \<le> ts_max" using e(3) k sm_times_iff[of m'] p by (simp add: idle_entry_def)
    with quantize_ceiling(2)[OF q(2)] q(1) have "b < dx_deadline (idle_entry m' a) + dqo_resolution (dq_options (sm_idleDeadlines m'))" by simp
    moreover have "now < b" using e(10) b by force
    moreover have "sm_session m' a = sm_session m a" using e(8) k by blast
    ultimately show ?thesis using p e(4) by (simp add: idle_entry_def sm_armed_def)
  qed
  show ?thesis
    using e(1,2,5-9) young unfolding SessionManager_expireIdle_def by (intro exI[of _ m'] exI[of _ gone]) simp
qed

theorem session_expire_idle_witness:
  "\<exists>m'. SessionManager_expireIdle 130 demo_after = Some (Inr 1, m') \<and> SessionManager_findByTransport 7 m' = None \<and>
     sm_closes m' = [(demo_ep 5, Replaced), (demo_ep 7, IdleTimeout)]"
proof -
  obtain m' where m': "SessionManager_expireIdle 130 demo_after = Some (Inr 1, m')" "map_of (sm_byTransport m') 7 = None"
    "sm_closes m' = [(demo_ep 5, Replaced), (demo_ep 7, IdleTimeout)]"
    unfolding demo_after_def SessionManager_expireIdle_def
    by (simp add: SessionManager_expireIdleLoop.simps sm_eval demo_ep_def)
  with session_expire_idle[OF demo_after_inv demo_after_facts(2,3), of 130] show ?thesis by (simp add: SessionManager_findByTransport_def)
qed

text \<open>C15. Logging in, case by case, for a running manager and a player and endpoint that are present. A
  transport bound to another player or to another endpoint object is refused, with a protocol-error
  close in the second case only. An unknown player gets a new session. The same transport again keeps
  the session and issues a new generation. Another transport either is refused without any change
  (\<open>RejectNew\<close>) or takes the session over, and the previous endpoint, and only it, is closed as replaced.\<close>

theorem session_login_cases:
  assumes inv: "sm_inv m" and fr: "sm_fresh m" and run: "sm_lifecycle m = LcRunning" and p: "p \<noteq> []"
  shows "\<exists>r m'. SessionManager_authenticate p (Some ep) now m = (Inr r, m') \<and>
    (case (map_of (sm_byTransport m) (ep_id ep), map_of (sm_byPlayer m) p) of
       (Some b, _) \<Rightarrow>
         if ps_endpoint (sm_session m b) \<noteq> ep
         then r = rejected None PolicyRejected \<and> m' = m\<lparr> sm_closes := sm_closes m @ [(ep, ProtocolError)] \<rparr>
         else if ps_playerId (sm_session m b) \<noteq> p then r = rejected None PolicyRejected \<and> m' = m
         else r = \<lparr> ar_status = Existing, ar_session = Some b, ar_dispatch = Accepted \<rparr> \<and> sm_closes m' = sm_closes m \<and>
              ps_generation (sm_session m' b) = sm_nextBindingGeneration m \<and> map_of (sm_byTransport m') = map_of (sm_byTransport m)
     | (None, None) \<Rightarrow>
         r = \<lparr> ar_status = Created, ar_session = Some (length (sm_store m)), ar_dispatch = Accepted \<rparr> \<and> sm_closes m' = sm_closes m \<and>
         map_of (sm_byPlayer m') = (map_of (sm_byPlayer m))(p \<mapsto> length (sm_store m)) \<and>
         map_of (sm_byTransport m') = (map_of (sm_byTransport m))(ep_id ep \<mapsto> length (sm_store m))
     | (None, Some a) \<Rightarrow>
         if smo_duplicateLogin (sm_options m) = RejectNew then r = rejected (Some a) PolicyRejected \<and> m' = m
         else r = \<lparr> ar_status = Rebound, ar_session = Some a, ar_dispatch = Accepted \<rparr> \<and>
              sm_closes m' = sm_closes m @ [(ps_endpoint (sm_session m a), Replaced)] \<and>
              map_of (sm_byTransport m') = (map_of (sm_byTransport m))(PlayerSession_transportId (sm_session m a) := None, ep_id ep \<mapsto> a))"
proof -
  note i = inv[unfolded sm_inv_def]
  show ?thesis
  proof (cases "map_of (sm_byTransport m) (ep_id ep)")
    case (Some b)
    note b = sm_indexedD(2)[OF conjunct1[OF i] Some]
    show ?thesis
    proof (cases "ps_playerId (sm_session m b) = p \<and> ps_endpoint (sm_session m b) = ep")
      case True
      with b have "map_of (sm_byPlayer m) p = Some b" by simp
      with sm_refresh[OF inv fr run this, of now] True Some run p b show ?thesis
        by (auto simp: SessionManager_authenticate_def)
    next
      case False
      with Some run p show ?thesis
        by (auto simp: SessionManager_authenticate_def SessionManager_closeEndpoint_def)
    qed
  next
    case None
    show ?thesis
    proof (cases "map_of (sm_byPlayer m) p")
      case N: None
      with sm_create[OF inv fr run p N None, of now] None run p show ?thesis by (auto simp: SessionManager_authenticate_def)
    next
      case (Some a)
      have "PlayerSession_transportId (sm_session m a) \<noteq> ep_id ep"
        using sm_indexedD(1)[OF conjunct1[OF i] Some] None by auto
      with sm_rebind[OF inv fr run Some None, of now] None Some run p show ?thesis
        by (auto simp: SessionManager_authenticate_def)
    qed
  qed
qed

theorem session_login_cases_witness:
  "\<exists>r m'. SessionManager_authenticate ''bob'' (Some (demo_ep 9)) 60 demo_after = (Inr r, m') \<and>
     r = \<lparr> ar_status = Rebound, ar_session = Some 1, ar_dispatch = Accepted \<rparr> \<and>
     sm_closes m' = [(demo_ep 5, Replaced), (demo_ep 6, Replaced)]"
proof -
  have e: "ep_id (demo_ep 9) = 9" by (simp add: demo_ep_def)
  from session_login_cases[OF demo_after_inv demo_after_facts(1,3), of "''bob''" "demo_ep 9" 60] show ?thesis
    by (simp add: e demo_after_facts) blast
qed

text \<open>C16. Shutdown revokes everything at once: every indexed session's endpoint is asked to close as going
  away, once; both indexes and the deadline queue are empty; no binding of any session ever created is
  current; later calls and closures that are already queued are refused with \<open>Shutdown\<close> and change
  nothing; a second shutdown does nothing.\<close>

theorem session_shutdown_final:
  assumes inv: "sm_inv m" and run: "sm_lifecycle m = LcRunning" and live: "sm_lifetime m = Accepted"
  defines "d \<equiv> SessionManager_shutdown m"
  shows "sm_closes d = sm_closes m @ map (\<lambda>(p, a). (ps_endpoint (sm_session m a), GoingAway)) (sm_byPlayer m) \<and>
    SessionManager_size d = 0 \<and> SessionManager_findByTransport t d = None \<and> dq_flat (sm_idleDeadlines d) = [] \<and>
    (sb_state b = Some a \<longrightarrow> a < length (sm_store m) \<longrightarrow> sb_generation b \<noteq> 0 \<longrightarrow> \<not> SessionBinding_isCurrent (sm_store d) b) \<and>
    SessionManager_authenticate p ep now d = (Inr (rejected None Shutdown), d) \<and>
    SessionManager_post posted d = Shutdown \<and>
    SessionManager_runTask True now task d = (Inr (refuseTask task Shutdown), d) \<and> SessionManager_shutdown d = d"
proof -
  note s = sm_shutdown[OF inv run, folded d_def]
  have "sm_lifetime d = Shutdown" "sm_lifecycle d = LcShutdown" using s live by simp_all
  then have "SessionManager_authenticate p ep now d = (Inr (rejected None Shutdown), d)" "SessionManager_post posted d = Shutdown"
    "SessionManager_runTask True now task d = (Inr (refuseTask task Shutdown), d)" "SessionManager_shutdown d = d"
    by (simp_all add: SessionManager_authenticate_def SessionManager_post_def SessionManager_runTask_def SessionManager_shutdown_def)
  moreover have "sb_state b = Some a \<longrightarrow> a < length (sm_store m) \<longrightarrow> sb_generation b \<noteq> 0 \<longrightarrow> \<not> SessionBinding_isCurrent (sm_store d) b"
    using s by (auto simp: SessionBinding_isCurrent_def SessionBinding_tracked_def)
  ultimately show ?thesis using s by (simp add: SessionManager_size_def SessionManager_findByTransport_def)
qed

theorem session_shutdown_final_witness:
  "sm_closes (SessionManager_shutdown demo_after) = [(demo_ep 5, Replaced), (demo_ep 7, GoingAway), (demo_ep 6, GoingAway)]"
proof -
  from conjunct1[OF session_shutdown_final[OF demo_after_inv demo_after_facts(3,4)]] show ?thesis by (simp add: demo_after_facts)
qed

end
