(* ===== verification/LogicLoop.thy ===== *)
theory LogicLoop
  imports GameCommandQueue Session_Expiry
begin

text \<open>
  The logic loop: \<open>src/src/game_logic/LogicLoop.cc\<close>. A tick runs user callbacks that may call back into
  the loop: submit, stop it, replace callbacks, log players in and out, or destroy the loop. A callback
  stored in the loop is a name, and \<open>LogicCallbacks\<close> gives for every name what it does to the world,
  which holds the loop, the session manager whose bindings the commands carry and everything else
  (\<open>lw_env\<close>). \<open>ll_alive\<close> is the shared \<open>LifetimeState\<close>, \<open>ll_timer\<close> the repeating timer that is
  registered on the owner loop. Submissions of other threads that fall between two statements of a tick
  are part of the callback that runs there.
\<close>

section \<open>Data\<close>

datatype LogicLoopState = LoopCreated | LoopRunning | LoopStopping | LoopStopped

record LogicStopSummary =
  ss_droppedCommands :: nat
  ss_droppedBytes :: nat

record LogicLoopOptions =
  lo_tickInterval :: duration
  lo_maxCommandsPerTick :: nat
  lo_queueLimits :: QueueLimits

record LogicTickMetric =
  tm_tick :: nat
  tm_drained :: nat
  tm_produced :: nat
  tm_queue :: QueueSnapshot

record LogicLoop =
  ll_alive :: bool
  ll_options :: LogicLoopOptions
  ll_queue :: GameCommandQueue
  ll_handler :: "nat option"
  ll_outputCallback :: "nat option"
  ll_metricCallback :: "nat option"
  ll_timer :: "nat option"
  ll_tickCount :: nat
  ll_state :: LogicLoopState
  ll_rejectedStale :: nat
  ll_droppedStale :: nat

record 'e LogicWorld =
  lw_loop :: LogicLoop
  lw_manager :: SessionManager
  lw_env :: 'e

record 'e LogicCallbacks =
  cb_handler :: "nat \<Rightarrow> GameCommand \<Rightarrow> 'e LogicWorld \<Rightarrow> GameCommand option outcome \<times> 'e LogicWorld"
  cb_output :: "nat \<Rightarrow> GameCommand \<Rightarrow> 'e LogicWorld \<Rightarrow> unit outcome \<times> 'e LogicWorld"
  cb_metric :: "nat \<Rightarrow> LogicTickMetric \<Rightarrow> 'e LogicWorld \<Rightarrow> unit outcome \<times> 'e LogicWorld"

section \<open>Operations\<close>

definition LogicLoop_new :: "LogicLoopOptions \<Rightarrow> LogicLoop outcome" where
  "LogicLoop_new options =
     (case GameCommandQueue_new (lo_queueLimits options) of
        Inl e \<Rightarrow> Inl e
      | Inr q \<Rightarrow>
          if lo_tickInterval options \<le> 0 \<or> lo_maxCommandsPerTick options = 0 then Inl InvalidArgument
          else Inr \<lparr> ll_alive = True, ll_options = options, ll_queue = q, ll_handler = None, ll_outputCallback = None,
                     ll_metricCallback = None, ll_timer = None, ll_tickCount = 0, ll_state = LoopCreated,
                     ll_rejectedStale = 0, ll_droppedStale = 0 \<rparr>)"

definition LogicLoop_setHandler :: "nat option \<Rightarrow> LogicLoop \<Rightarrow> LogicLoop" where
  "LogicLoop_setHandler handler l = l\<lparr> ll_handler := handler \<rparr>"

definition LogicLoop_setOutputCallback :: "nat option \<Rightarrow> LogicLoop \<Rightarrow> LogicLoop" where
  "LogicLoop_setOutputCallback callback l = l\<lparr> ll_outputCallback := callback \<rparr>"

definition LogicLoop_setMetricCallback :: "nat option \<Rightarrow> LogicLoop \<Rightarrow> LogicLoop" where
  "LogicLoop_setMetricCallback callback l = l\<lparr> ll_metricCallback := callback \<rparr>"

text \<open>\<open>runEvery\<close> is the answer of the owner loop: the timer it registered, or the exception it threw.\<close>

definition LogicLoop_start :: "nat outcome \<Rightarrow> LogicLoop \<Rightarrow> unit outcome \<times> LogicLoop" where
  "LogicLoop_start runEvery l =
     (if ll_state l = LoopRunning then (Inr (), l)
      else if ll_state l \<noteq> LoopCreated then (Inl LogicError, l)
      else if ll_handler l = None then (Inl LogicError, l)
      else let l1 = l\<lparr> ll_state := LoopRunning \<rparr>
           in case runEvery of
                Inl e \<Rightarrow> (Inl e, l1\<lparr> ll_state := LoopCreated \<rparr>)
              | Inr timer \<Rightarrow> (Inr (), l1\<lparr> ll_timer := Some timer \<rparr>))"

definition LogicLoop_stop :: "LogicLoop \<Rightarrow> LogicStopSummary \<times> LogicLoop" where
  "LogicLoop_stop l =
     (if ll_state l = LoopStopped \<or> ll_state l = LoopStopping
      then (\<lparr> ss_droppedCommands = 0, ss_droppedBytes = 0 \<rparr>, l)
      else let l1 = l\<lparr> ll_state := LoopStopping \<rparr>;
               l2 = (if ll_state l = LoopRunning then l1\<lparr> ll_timer := None \<rparr> else l1)
           in case GameCommandQueue_closeAndDiscard (ll_queue l2) of
                (discarded, q) \<Rightarrow>
                  (\<lparr> ss_droppedCommands = qd_droppedCommands discarded, ss_droppedBytes = qd_droppedBytes discarded \<rparr>,
                   l2\<lparr> ll_queue := q, ll_state := LoopStopped \<rparr>))"

text \<open>The destructor; \<open>Fatal\<close> is \<open>LOG_FATAL\<close>, which ends the process. The arguments are the executor's
  \<open>available()\<close> and \<open>isInOwnerThread()\<close>.\<close>

definition LogicLoop_destroy :: "bool \<Rightarrow> bool \<Rightarrow> LogicLoop \<Rightarrow> unit outcome \<times> LogicLoop" where
  "LogicLoop_destroy available inOwnerThread l =
     (let l1 = l\<lparr> ll_alive := False \<rparr>;
          current = ll_state l1
      in if current = LoopRunning \<and> \<not> available then (Inl Fatal, l1)
         else if available \<and> \<not> inOwnerThread then (Inl Fatal, l1)
         else if current = LoopRunning then (Inr (), snd (LogicLoop_stop l1))
         else (Inr (), l1))"

definition binding_stale :: "'e LogicWorld \<Rightarrow> GameCommand \<Rightarrow> bool" where
  "binding_stale w command \<longleftrightarrow>
     SessionBinding_tracked (gc_binding command) \<and>
     \<not> SessionBinding_isCurrent (sm_store (lw_manager w)) (gc_binding command)"

definition LogicLoop_submit ::
    "bool \<Rightarrow> timestamp \<Rightarrow> GameCommand \<Rightarrow> 'e LogicWorld \<Rightarrow> SubmitResult outcome \<times> 'e LogicWorld" where
  "LogicLoop_submit pushFails now command w =
     (let l = lw_loop w in
      if binding_stale w command
      then (Inr StaleBinding, w\<lparr> lw_loop := l\<lparr> ll_rejectedStale := u64_inc (ll_rejectedStale l) \<rparr> \<rparr>)
      else case GameCommandQueue_submit pushFails now command (ll_queue l) of
             (r, q) \<Rightarrow> (r, w\<lparr> lw_loop := l\<lparr> ll_queue := q \<rparr> \<rparr>))"

definition LogicLoop_queueSnapshot :: "LogicLoop \<Rightarrow> QueueSnapshot" where
  "LogicLoop_queueSnapshot l =
     (GameCommandQueue_snapshot (ll_queue l))\<lparr> qs_rejectedStale := ll_rejectedStale l, qs_droppedStale := ll_droppedStale l \<rparr>"

definition LogicLoop_running :: "LogicLoop \<Rightarrow> bool" where
  "LogicLoop_running l \<longleftrightarrow> ll_state l = LoopRunning"

section \<open>The tick\<close>

definition countDroppedStale :: "'e LogicWorld \<Rightarrow> 'e LogicWorld" where
  "countDroppedStale w = w\<lparr> lw_loop := (lw_loop w)\<lparr> ll_droppedStale := u64_inc (ll_droppedStale (lw_loop w)) \<rparr> \<rparr>"

text \<open>What a tick does to a command, for the observer: dropped as stale before or after the handler, handed to the
  handler, or handed to the output callback, with the world in which that happened.\<close>

datatype 'e LogicEvent =
    DroppedInput GameCommand
  | Handled GameCommand "'e LogicWorld"
  | DroppedOutput GameCommand
  | Produced GameCommand "'e LogicWorld"

text \<open>How the loop over the drained commands ends: at its end with the number of outputs, with \<open>return\<close>
  because a callback destroyed the logic loop, or with the exception of a callback.\<close>

datatype TickExit = TickDone nat | TickRevoked | TickThrew cpp_error

fun tick_event :: "'a \<Rightarrow> 'b \<times> 'a list \<times> 'c \<Rightarrow> 'b \<times> 'a list \<times> 'c" where
  "tick_event e (x, es, w) = (x, e # es, w)"

fun LogicLoop_tickLoop ::
    "'e LogicCallbacks \<Rightarrow> GameCommand list \<Rightarrow> nat \<Rightarrow> 'e LogicWorld \<Rightarrow> TickExit \<times> 'e LogicEvent list \<times> 'e LogicWorld" where
  "LogicLoop_tickLoop cbs [] produced w = (TickDone produced, [], w)"
| "LogicLoop_tickLoop cbs (command # rest) produced w =
     (if binding_stale w command
      then tick_event (DroppedInput command) (LogicLoop_tickLoop cbs rest produced (countDroppedStale w))
      else let handler = ll_handler (lw_loop w); outputCallback = ll_outputCallback (lw_loop w)
           in tick_event (Handled command w)
                (case (case handler of None \<Rightarrow> (Inl BadFunctionCall, w) | Some h \<Rightarrow> cb_handler cbs h command w) of
                   (Inl e, w1) \<Rightarrow> (TickThrew e, [], w1)
                 | (Inr output, w1) \<Rightarrow>
                     if \<not> ll_alive (lw_loop w1) then (TickRevoked, [], w1)
                     else case (output, outputCallback) of
                       (Some out, Some callback) \<Rightarrow>
                         if binding_stale w1 out
                         then tick_event (DroppedOutput out) (LogicLoop_tickLoop cbs rest produced (countDroppedStale w1))
                         else tick_event (Produced out w1)
                                (case cb_output cbs callback out w1 of
                                   (Inl e, w2) \<Rightarrow> (TickThrew e, [], w2)
                                 | (Inr _, w2) \<Rightarrow>
                                     if \<not> ll_alive (lw_loop w2) then (TickRevoked, [], w2)
                                     else LogicLoop_tickLoop cbs rest (produced + 1) w2)
                     | _ \<Rightarrow> LogicLoop_tickLoop cbs rest produced w1))"

definition LogicLoop_tick ::
    "'e LogicCallbacks \<Rightarrow> bool \<Rightarrow> 'e LogicWorld \<Rightarrow> unit outcome \<times> 'e LogicEvent list \<times> 'e LogicWorld" where
  "LogicLoop_tick cbs reserveFails w =
     (if \<not> LogicLoop_running (lw_loop w) then (Inr (), [], w)
      else case GameCommandQueue_drain reserveFails (lo_maxCommandsPerTick (ll_options (lw_loop w))) (ll_queue (lw_loop w)) of
             (Inl e, q) \<Rightarrow> (Inl e, [], w\<lparr> lw_loop := (lw_loop w)\<lparr> ll_queue := q \<rparr> \<rparr>)
           | (Inr commands, q) \<Rightarrow>
               (case LogicLoop_tickLoop cbs commands 0 (w\<lparr> lw_loop := (lw_loop w)\<lparr> ll_queue := q \<rparr> \<rparr>) of
                  (TickThrew e, events, w1) \<Rightarrow> (Inl e, events, w1)
                | (TickRevoked, events, w1) \<Rightarrow> (Inr (), events, w1)
                | (TickDone produced, events, w1) \<Rightarrow>
                    if \<not> ll_alive (lw_loop w1) then (Inr (), events, w1)
                    else let l2 = (lw_loop w1)\<lparr> ll_tickCount := u64_inc (ll_tickCount (lw_loop w1)) \<rparr>;
                             w2 = w1\<lparr> lw_loop := l2 \<rparr>
                         in case ll_metricCallback l2 of
                              None \<Rightarrow> (Inr (), events, w2)
                            | Some callback \<Rightarrow>
                                (case cb_metric cbs callback
                                        \<lparr> tm_tick = ll_tickCount l2, tm_drained = length commands,
                                          tm_produced = produced, tm_queue = LogicLoop_queueSnapshot l2 \<rparr> w2 of
                                   (r, w3) \<Rightarrow> (r, events, w3))))"

text \<open>The closure that \<open>start\<close> registers on the owner loop.\<close>

definition LogicLoop_onTimer ::
    "'e LogicCallbacks \<Rightarrow> bool \<Rightarrow> 'e LogicWorld \<Rightarrow> unit outcome \<times> 'e LogicEvent list \<times> 'e LogicWorld" where
  "LogicLoop_onTimer cbs reserveFails w =
     (if ll_alive (lw_loop w) then LogicLoop_tick cbs reserveFails w else (Inr (), [], w))"

end
