(* ===== verification/Logic_Batches.thy ===== *)
theory Logic_Batches
  imports LogicLoop
begin

text \<open>
  What callbacks may do to the logic loop, the invariant that survives it, the batch of a tick, and the
  properties of the loop together with the session manager whose bindings its commands carry.
\<close>

section \<open>What a callback may do\<close>

text \<open>The public operations of the loop and of the session manager, in any order. The loop's own operations need
  a live loop; its destructor is one of them.\<close>

inductive logic_api :: "'e LogicWorld \<Rightarrow> 'e LogicWorld \<Rightarrow> bool" for w where
  api_refl: "logic_api w w"
| api_submit: "logic_api w w1 \<Longrightarrow> ll_alive (lw_loop w1) \<Longrightarrow> logic_api w (snd (LogicLoop_submit pushFails now c w1))"
| api_start: "logic_api w w1 \<Longrightarrow> ll_alive (lw_loop w1) \<Longrightarrow> logic_api w (w1\<lparr> lw_loop := snd (LogicLoop_start r (lw_loop w1)) \<rparr>)"
| api_stop: "logic_api w w1 \<Longrightarrow> ll_alive (lw_loop w1) \<Longrightarrow> logic_api w (w1\<lparr> lw_loop := snd (LogicLoop_stop (lw_loop w1)) \<rparr>)"
| api_handler: "logic_api w w1 \<Longrightarrow> ll_alive (lw_loop w1) \<Longrightarrow> logic_api w (w1\<lparr> lw_loop := LogicLoop_setHandler h (lw_loop w1) \<rparr>)"
| api_output: "logic_api w w1 \<Longrightarrow> ll_alive (lw_loop w1) \<Longrightarrow> logic_api w (w1\<lparr> lw_loop := LogicLoop_setOutputCallback h (lw_loop w1) \<rparr>)"
| api_metric: "logic_api w w1 \<Longrightarrow> ll_alive (lw_loop w1) \<Longrightarrow> logic_api w (w1\<lparr> lw_loop := LogicLoop_setMetricCallback h (lw_loop w1) \<rparr>)"
| api_destroy: "logic_api w w1 \<Longrightarrow> ll_alive (lw_loop w1) \<Longrightarrow> LogicLoop_destroy available inOwner (lw_loop w1) = (Inr (), l) \<Longrightarrow>
    logic_api w (w1\<lparr> lw_loop := l \<rparr>)"
| api_sessions: "logic_api w w1 \<Longrightarrow> session_run ops (lw_manager w1) = Some m \<Longrightarrow> logic_api w (w1\<lparr> lw_manager := m \<rparr>)"
| api_env: "logic_api w w1 \<Longrightarrow> logic_api w (w1\<lparr> lw_env := e \<rparr>)"

definition callbacks_public :: "'e LogicCallbacks \<Rightarrow> bool" where
  "callbacks_public cbs \<longleftrightarrow>
     (\<forall>n c w. logic_api w (snd (cb_handler cbs n c w))) \<and> (\<forall>n c w. logic_api w (snd (cb_output cbs n c w))) \<and>
     (\<forall>n t w. logic_api w (snd (cb_metric cbs n t w)))"

section \<open>Invariant\<close>

fun state_rank :: "LogicLoopState \<Rightarrow> nat" where
  "state_rank LoopCreated = 0"
| "state_rank LoopRunning = 1"
| "state_rank LoopStopping = 2"
| "state_rank LoopStopped = 3"

text \<open>The timer is registered exactly while the loop runs, the queue is open exactly until it is stopped, a stopped
  loop holds no command, and \<open>Stopping\<close> is never seen between two operations.\<close>

definition ll_inv :: "LogicLoop \<Rightarrow> bool" where
  "ll_inv l \<longleftrightarrow> (\<exists>k. cq_inv k (ll_queue l)) \<and> cq_limits (ll_queue l) = lo_queueLimits (ll_options l) \<and>
     (ll_timer l \<noteq> None \<longleftrightarrow> ll_state l = LoopRunning) \<and> ll_state l \<noteq> LoopStopping \<and>
     (cq_accepting (ll_queue l) \<longleftrightarrow> ll_state l \<noteq> LoopStopped) \<and> (ll_state l = LoopStopped \<longrightarrow> cq_queue (ll_queue l) = [])"

definition logic_ok :: "'e LogicWorld \<Rightarrow> bool" where
  "logic_ok w \<longleftrightarrow> ll_inv (lw_loop w) \<and> sm_inv (lw_manager w)"

text \<open>What no operation undoes.\<close>

definition logic_le :: "'e LogicWorld \<Rightarrow> 'e LogicWorld \<Rightarrow> bool" where
  "logic_le w w' \<longleftrightarrow> bind_step (lw_manager w) (lw_manager w') \<and> state_rank (ll_state (lw_loop w)) \<le> state_rank (ll_state (lw_loop w')) \<and>
     ll_options (lw_loop w') = ll_options (lw_loop w) \<and> (ll_alive (lw_loop w') \<longrightarrow> ll_alive (lw_loop w))"

lemma logic_le_refl [simp]: "logic_le w w"
  by (simp add: logic_le_def)

lemma logic_le_trans: "logic_le a b \<Longrightarrow> logic_le b c \<Longrightarrow> logic_le a c"
  unfolding logic_le_def by (elim conjE, intro conjI) (rule bind_step_trans, simp_all)

lemma cq_submit_inv:
  assumes "cq_inv k q" "GameCommandQueue_submit f now c q = (r, q')"
  shows "(\<exists>k'. cq_inv k' q') \<and> cq_limits q' = cq_limits q \<and> cq_accepting q' = cq_accepting q \<and> (\<not> cq_accepting q \<longrightarrow> cq_queue q' = cq_queue q)"
proof -
  note e = assms(2)[unfolded cq_submit[OF assms(1)]]
  have p: "cq_inv k (q\<lparr> cq_rejectedStopped := n \<rparr>)" "cq_inv k (q\<lparr> cq_rejectedPayload := n \<rparr>)" "cq_inv k (q\<lparr> cq_rejectedFull := n \<rparr>)" for n
    using assms(1) by (simp_all add: cq_inv_def)
  show ?thesis
  proof (cases "\<not> cq_accepting q \<or> length (gc_payload c) > ql_maxPayloadBytes (cq_limits q) \<or>
       length (cq_queue q) \<ge> ql_maxCommands (cq_limits q) \<or> commands_bytes (cq_queue q) + k + length (gc_payload c) > ql_maxQueuedBytes (cq_limits q)")
    case True
    with e p show ?thesis by (auto split: if_splits)
  next
    case False
    note n = this
    show ?thesis
    proof (cases f)
      case True
      have "cq_inv (k + length (gc_payload c)) (q\<lparr> cq_queuedBytes := cq_queuedBytes q + length (gc_payload c) \<rparr>)"
        using assms(1) n by (auto simp: cq_inv_def)
      with True n e show ?thesis by auto
    next
      case False
      have "cq_inv k (q\<lparr> cq_queuedBytes := cq_queuedBytes q + length (gc_payload c), cq_queue := cq_queue q @ [submit_stamp now c],
           cq_accepted := u64_inc (cq_accepted q),
           cq_depthHighWatermark := max (cq_depthHighWatermark q) (Suc (length (cq_queue q))),
           cq_bytesHighWatermark := max (cq_bytesHighWatermark q) (cq_queuedBytes q + length (gc_payload c)) \<rparr>)"
        using assms(1) n by (auto simp: cq_inv_def)
      with False n e show ?thesis by auto
    qed
  qed
qed

lemma ll_stop:
  assumes "ll_inv l"
  shows "ll_inv (snd (LogicLoop_stop l)) \<and> ll_state (snd (LogicLoop_stop l)) = LoopStopped \<and>
    ll_options (snd (LogicLoop_stop l)) = ll_options l \<and> ll_alive (snd (LogicLoop_stop l)) = ll_alive l \<and>
    ll_timer (snd (LogicLoop_stop l)) = None \<and> ll_tickCount (snd (LogicLoop_stop l)) = ll_tickCount l"
proof (cases "ll_state l = LoopStopped")
  case True
  then show ?thesis using assms by (simp add: LogicLoop_stop_def ll_inv_def)
next
  case False
  obtain k where k: "cq_inv k (ll_queue l)" using assms by (auto simp: ll_inv_def)
  note d = cq_closeAndDiscard[OF k]
  show ?thesis using False assms d
    by (cases "ll_state l") (auto simp: LogicLoop_stop_def ll_inv_def GameCommandQueue_closeAndDiscard_def Let_def)
qed

lemma ll_start:
  assumes "ll_inv l"
  shows "ll_inv (snd (LogicLoop_start r l)) \<and> state_rank (ll_state l) \<le> state_rank (ll_state (snd (LogicLoop_start r l))) \<and>
    ll_options (snd (LogicLoop_start r l)) = ll_options l \<and> ll_alive (snd (LogicLoop_start r l)) = ll_alive l \<and>
    ll_tickCount (snd (LogicLoop_start r l)) = ll_tickCount l"
proof (cases "ll_state l = LoopCreated \<and> ll_handler l \<noteq> None")
  case True
  then show ?thesis using assms by (cases r) (simp_all add: LogicLoop_start_def Let_def ll_inv_def)
next
  case False
  then have "snd (LogicLoop_start r l) = l" by (auto simp: LogicLoop_start_def)
  then show ?thesis using assms by simp
qed

lemma logic_api_keeps:
  "logic_api w w' \<Longrightarrow> logic_ok w \<Longrightarrow> logic_ok w' \<and> logic_le w w' \<and> ll_tickCount (lw_loop w') = ll_tickCount (lw_loop w)"
proof (induction rule: logic_api.induct)
  case (api_submit w1 f now c)
  then have i: "logic_ok w1" "logic_le w w1" "ll_tickCount (lw_loop w1) = ll_tickCount (lw_loop w)" by auto
  obtain k where k: "cq_inv k (ll_queue (lw_loop w1))" using i by (auto simp: logic_ok_def ll_inv_def)
  obtain r q where s: "GameCommandQueue_submit f now c (ll_queue (lw_loop w1)) = (r, q)" by fastforce
  note q = cq_submit_inv[OF k s]
  have "ll_inv ((lw_loop w1)\<lparr> ll_queue := q \<rparr>)" "ll_inv ((lw_loop w1)\<lparr> ll_rejectedStale := n \<rparr>)" for n
    using i(1) q unfolding logic_ok_def ll_inv_def by (elim conjE, intro conjI; simp)+
  with i s show ?case by (simp add: LogicLoop_submit_def Let_def logic_ok_def logic_le_def)
next
  case (api_start w1 r)
  then show ?case using ll_start[of "lw_loop w1" r] by (auto simp: logic_ok_def logic_le_def intro: le_trans)
next
  case (api_stop w1)
  then show ?case using ll_stop[of "lw_loop w1"] by (cases "ll_state (lw_loop w)") (auto simp: logic_ok_def logic_le_def)
next
  case (api_destroy w1 av own l)
  let ?l1 = "(lw_loop w1)\<lparr> ll_alive := False \<rparr>"
  have i: "ll_inv ?l1" using api_destroy by (simp add: logic_ok_def ll_inv_def)
  have "l = ?l1 \<or> l = snd (LogicLoop_stop ?l1)" using api_destroy(3) by (auto simp: LogicLoop_destroy_def Let_def split: if_splits)
  then show ?case using api_destroy ll_stop[OF i] i by (cases "ll_state (lw_loop w)") (auto simp: logic_ok_def logic_le_def)
next
  case (api_sessions w1 ops m)
  then show ?case using session_run_inv[of "lw_manager w1" ops m] bind_step_trans
    by (auto simp: logic_ok_def logic_le_def)
qed (auto simp: logic_ok_def logic_le_def ll_inv_def LogicLoop_setHandler_def LogicLoop_setOutputCallback_def LogicLoop_setMetricCallback_def)

section \<open>The batch of a tick\<close>

text \<open>The commands a tick took from its batch, in order, and the number it produced.\<close>

fun event_inputs :: "'e LogicEvent list \<Rightarrow> GameCommand list" where
  "event_inputs [] = []"
| "event_inputs (DroppedInput c # es) = c # event_inputs es"
| "event_inputs (Handled c _ # es) = c # event_inputs es"
| "event_inputs (_ # es) = event_inputs es"

fun event_outputs :: "'e LogicEvent list \<Rightarrow> GameCommand list" where
  "event_outputs [] = []"
| "event_outputs (Produced c _ # es) = c # event_outputs es"
| "event_outputs (_ # es) = event_outputs es"

text \<open>Every command that reached a callback had a current binding there, in a world reached from \<open>w\<close>.\<close>

definition events_current :: "'e LogicWorld \<Rightarrow> 'e LogicEvent list \<Rightarrow> bool" where
  "events_current w es \<longleftrightarrow>
     (\<forall>c w0. Handled c w0 \<in> set es \<or> Produced c w0 \<in> set es \<longrightarrow> logic_le w w0 \<and> \<not> binding_stale w0 c)"

lemma events_current_mono: "logic_le w w1 \<Longrightarrow> events_current w1 es \<Longrightarrow> events_current w es"
  unfolding events_current_def using logic_le_trans by blast

lemma events_current_Cons [simp]:
  "events_current w [] "
  "events_current w (DroppedInput c # es) \<longleftrightarrow> events_current w es"
  "events_current w (DroppedOutput c # es) \<longleftrightarrow> events_current w es"
  "events_current w (Handled c w0 # es) \<longleftrightarrow> logic_le w w0 \<and> \<not> binding_stale w0 c \<and> events_current w es"
  "events_current w (Produced c w0 # es) \<longleftrightarrow> logic_le w w0 \<and> \<not> binding_stale w0 c \<and> events_current w es"
  by (auto simp: events_current_def)

lemma logic_drop:
  "logic_ok w \<Longrightarrow> logic_ok (countDroppedStale w)" "logic_le w (countDroppedStale w)"
  "ll_tickCount (lw_loop (countDroppedStale w)) = ll_tickCount (lw_loop w)"
  "ll_alive (lw_loop (countDroppedStale w)) = ll_alive (lw_loop w)"
  by (simp_all add: countDroppedStale_def logic_ok_def logic_le_def ll_inv_def)

definition tick_ok :: "GameCommand list \<Rightarrow> nat \<Rightarrow> 'e LogicWorld \<Rightarrow> TickExit \<times> 'e LogicEvent list \<times> 'e LogicWorld \<Rightarrow> bool" where
  "tick_ok cs produced w r \<longleftrightarrow>
     (case r of (x, es, w') \<Rightarrow>
        logic_ok w' \<and> logic_le w w' \<and> ll_tickCount (lw_loop w') = ll_tickCount (lw_loop w) \<and> events_current w es \<and>
        (\<exists>unseen. cs = event_inputs es @ unseen) \<and>
        (case x of TickDone n \<Rightarrow> event_inputs es = cs \<and> n = produced + length (event_outputs es) \<and> ll_alive (lw_loop w')
                 | TickRevoked \<Rightarrow> \<not> ll_alive (lw_loop w')
                 | TickThrew e \<Rightarrow> True))"

text \<open>How the claims of the rest of the batch carry over to the batch.\<close>

lemma tick_ok_rest:
  assumes "tick_ok cs produced' w1 r" "logic_le w w1" "ll_tickCount (lw_loop w1) = ll_tickCount (lw_loop w)"
  shows "tick_ok cs produced' w r"
  using assms logic_le_trans[OF assms(2)] events_current_mono[OF assms(2)] by (auto simp: tick_ok_def split: prod.splits)

lemma tick_ok_input:
  "tick_ok cs produced w r \<Longrightarrow> tick_ok (c # cs) produced w (tick_event (DroppedInput c) r)"
  "tick_ok cs produced w r \<Longrightarrow> \<not> binding_stale w c \<Longrightarrow> tick_ok (c # cs) produced w (tick_event (Handled c w) r)"
  by (cases r; auto simp: tick_ok_def split: TickExit.splits)+

lemma tick_ok_output:
  "tick_ok cs produced w r \<Longrightarrow> tick_ok cs produced w (tick_event (DroppedOutput c) r)"
  "tick_ok cs (Suc produced) w r \<Longrightarrow> logic_le w w1 \<Longrightarrow> \<not> binding_stale w1 c \<Longrightarrow> tick_ok cs produced w (tick_event (Produced c w1) r)"
  by (cases r; auto simp: tick_ok_def split: TickExit.splits)+

lemma tick_ok_exit:
  assumes "logic_ok w'" "logic_le w w'" "ll_tickCount (lw_loop w') = ll_tickCount (lw_loop w)"
  shows "tick_ok cs produced w (TickThrew e, [], w')" "\<not> ll_alive (lw_loop w') \<Longrightarrow> tick_ok cs produced w (TickRevoked, [], w')"
    and "tick_ok cs (Suc produced) w (TickThrew e, [], w')"
  using assms by (auto simp: tick_ok_def)

lemma public_keeps:
  assumes "callbacks_public cbs" "logic_ok w"
  shows "cb_handler cbs n c w = (r, w') \<Longrightarrow> logic_ok w' \<and> logic_le w w' \<and> ll_tickCount (lw_loop w') = ll_tickCount (lw_loop w)"
    and "cb_output cbs n c w = (r2, w') \<Longrightarrow> logic_ok w' \<and> logic_le w w' \<and> ll_tickCount (lw_loop w') = ll_tickCount (lw_loop w)"
    and "cb_metric cbs n t w = (r3, w') \<Longrightarrow> logic_ok w' \<and> logic_le w w' \<and> ll_tickCount (lw_loop w') = ll_tickCount (lw_loop w)"
  using assms logic_api_keeps[of w w'] unfolding callbacks_public_def by (metis snd_conv)+

lemma logic_tickLoop:
  assumes "callbacks_public cbs"
  shows "logic_ok w \<Longrightarrow> ll_alive (lw_loop w) \<Longrightarrow> tick_ok cs produced w (LogicLoop_tickLoop cbs cs produced w)"
proof (induction cs arbitrary: produced w)
  case Nil
  then show ?case by (simp add: tick_ok_def)
next
  case (Cons c cs)
  note IH = Cons.IH
  note ok = Cons.prems(1) and alive = Cons.prems(2)
  show ?case
  proof (cases "binding_stale w c")
    case True
    have "tick_ok cs produced w (LogicLoop_tickLoop cbs cs produced (countDroppedStale w))"
      by (rule tick_ok_rest[OF IH]) (simp_all add: ok alive logic_drop)
    with True show ?thesis by (simp add: tick_ok_input)
  next
    case False
    define hr where "hr = (case ll_handler (lw_loop w) of None \<Rightarrow> (Inl BadFunctionCall, w) | Some h \<Rightarrow> cb_handler cbs h c w)"
    obtain r w1 where h: "hr = (r, w1)" by fastforce
    have k1: "logic_ok w1" "logic_le w w1" "ll_tickCount (lw_loop w1) = ll_tickCount (lw_loop w)"
      using h ok public_keeps(1)[OF assms ok] by (auto simp: hr_def split: option.splits)
    define rest where "rest = (case hr of (Inl e, w1) \<Rightarrow> (TickThrew e, [], w1)
        | (Inr output, w1) \<Rightarrow> if \<not> ll_alive (lw_loop w1) then (TickRevoked, [], w1)
           else case (output, ll_outputCallback (lw_loop w)) of
             (Some out, Some callback) \<Rightarrow>
                 if binding_stale w1 out
                 then tick_event (DroppedOutput out) (LogicLoop_tickLoop cbs cs produced (countDroppedStale w1))
                 else tick_event (Produced out w1)
                        (case cb_output cbs callback out w1 of
                           (Inl e, w2) \<Rightarrow> (TickThrew e, [], w2)
                         | (Inr _, w2) \<Rightarrow> if \<not> ll_alive (lw_loop w2) then (TickRevoked, [], w2)
                             else LogicLoop_tickLoop cbs cs (produced + 1) w2)
           | _ \<Rightarrow> LogicLoop_tickLoop cbs cs produced w1)"
    have "tick_ok cs produced w rest"
    proof (cases r)
      case (Inl e)
      then show ?thesis using k1 by (simp add: rest_def h tick_ok_exit)
    next
      case (Inr res)
      have plain: "tick_ok cs produced w (LogicLoop_tickLoop cbs cs produced w1)" if "ll_alive (lw_loop w1)"
        using tick_ok_rest[OF IH[OF k1(1) that] k1(2,3)] .
      have dropped: "tick_ok cs produced w (LogicLoop_tickLoop cbs cs produced (countDroppedStale w1))" if "ll_alive (lw_loop w1)"
        using k1 that logic_le_trans[OF k1(2) logic_drop(2)] by (intro tick_ok_rest[OF IH]) (simp_all add: logic_drop)
      have out: "tick_ok cs (Suc produced) w (case cb_output cbs cb o' w1 of
                           (Inl e, w2) \<Rightarrow> (TickThrew e, [], w2)
                         | (Inr _, w2) \<Rightarrow> if \<not> ll_alive (lw_loop w2) then (TickRevoked, [], w2)
                             else LogicLoop_tickLoop cbs cs (produced + 1) w2)" for cb o'
      proof -
        obtain r2 w2 where o: "cb_output cbs cb o' w1 = (r2, w2)" by fastforce
        have k2: "logic_ok w2" "logic_le w w2" "ll_tickCount (lw_loop w2) = ll_tickCount (lw_loop w)"
          using public_keeps(2)[OF assms k1(1) o] k1 logic_le_trans by auto
        show ?thesis using k2 tick_ok_rest[OF IH[OF k2(1)] k2(2,3), of "Suc produced"]
          by (cases r2) (simp_all add: o tick_ok_exit)
      qed
      show ?thesis
        using plain dropped out k1 unfolding rest_def h Inr
        by (auto simp: tick_ok_exit tick_ok_output split: option.splits)
    qed
    with False show ?thesis unfolding rest_def hr_def by (simp add: Let_def tick_ok_input)
  qed
qed

lemma logic_tick:
  assumes pub: "callbacks_public cbs" and ok: "logic_ok w" and alive: "ll_alive (lw_loop w)"
    and tick: "LogicLoop_tick cbs f w = (r, es, w')"
  shows "logic_ok w' \<and> logic_le w w' \<and> events_current w es \<and>
    (LogicLoop_running (lw_loop w) \<longrightarrow>
       (\<exists>unseen. take (lo_maxCommandsPerTick (ll_options (lw_loop w))) (cq_queue (ll_queue (lw_loop w))) = event_inputs es @ unseen \<and>
          (r = Inr () \<and> ll_alive (lw_loop w') \<longrightarrow> unseen = [] \<and> ll_tickCount (lw_loop w') = u64_inc (ll_tickCount (lw_loop w)))))"
proof (cases "LogicLoop_running (lw_loop w)")
  case False
  with tick ok show ?thesis by (simp add: LogicLoop_tick_def)
next
  case True
  let ?n = "lo_maxCommandsPerTick (ll_options (lw_loop w))" and ?q = "ll_queue (lw_loop w)"
  obtain k where k: "cq_inv k ?q" using ok by (auto simp: logic_ok_def ll_inv_def)
  note d = cq_drain[OF k, of f ?n]
  show ?thesis
  proof (cases f)
    case True
    with d tick \<open>LogicLoop_running (lw_loop w)\<close> ok show ?thesis by (auto simp: LogicLoop_tick_def)
  next
    case False
    define q where "q = ?q\<lparr> cq_queuedBytes := commands_bytes (drop ?n (cq_queue ?q)) + k, cq_queue := drop ?n (cq_queue ?q) \<rparr>"
    define w1 where "w1 = w\<lparr> lw_loop := (lw_loop w)\<lparr> ll_queue := q \<rparr> \<rparr>"
    have dr: "GameCommandQueue_drain f ?n ?q = (Inr (take ?n (cq_queue ?q)), q)" and qi: "cq_inv k q"
      using d False unfolding q_def by auto
    have "ll_inv ((lw_loop w)\<lparr> ll_queue := q \<rparr>)"
      using ok qi by (auto simp: logic_ok_def ll_inv_def q_def)
    then have w1: "logic_ok w1" "logic_le w w1" "ll_alive (lw_loop w1)" "ll_tickCount (lw_loop w1) = ll_tickCount (lw_loop w)"
      using ok alive by (simp_all add: w1_def logic_ok_def logic_le_def)
    obtain x es2 w2 where l: "LogicLoop_tickLoop cbs (take ?n (cq_queue ?q)) 0 w1 = (x, es2, w2)" using prod_cases3 by blast
    have t: "tick_ok (take ?n (cq_queue ?q)) 0 w (x, es2, w2)"
      using tick_ok_rest[OF logic_tickLoop[OF pub w1(1,3), of "take ?n (cq_queue ?q)" 0] w1(2,4)] l by simp
    note tk = tick[unfolded LogicLoop_tick_def dr, folded w1_def]
    show ?thesis
    proof (cases x)
      case (TickDone n)
      define w3 where "w3 = w2\<lparr> lw_loop := (lw_loop w2)\<lparr> ll_tickCount := u64_inc (ll_tickCount (lw_loop w2)) \<rparr> \<rparr>"
      have t2: "logic_ok w2" "logic_le w w2" "ll_tickCount (lw_loop w2) = ll_tickCount (lw_loop w)" "events_current w es2"
        "event_inputs es2 = take ?n (cq_queue ?q)" "ll_alive (lw_loop w2)"
        using t TickDone by (auto simp: tick_ok_def)
      have w3: "logic_ok w3" "logic_le w2 w3" using t2 by (auto simp: w3_def logic_ok_def logic_le_def ll_inv_def)
      have "es = es2 \<and> logic_ok w' \<and> logic_le w3 w' \<and> ll_tickCount (lw_loop w') = ll_tickCount (lw_loop w3)"
      proof (cases "ll_metricCallback (lw_loop w3)")
        case None
        then show ?thesis using tk t2 w3 l TickDone \<open>LogicLoop_running (lw_loop w)\<close>
          by (simp add: w3_def Let_def w1_def)
      next
        case (Some cb)
        then show ?thesis using tk t2 l TickDone \<open>LogicLoop_running (lw_loop w)\<close> public_keeps(3)[OF pub w3(1)]
          by (simp add: w3_def Let_def w1_def split: prod.splits)
      qed
      moreover have "logic_le w w3" using t2(2) w3(2) logic_le_trans by blast
      ultimately show ?thesis using t2 logic_le_trans[of w w3 w'] by (simp add: w3_def)
    next
      case TickRevoked
      then show ?thesis using tk t l \<open>LogicLoop_running (lw_loop w)\<close> by (auto simp: tick_ok_def w1_def)
    next
      case (TickThrew e)
      then show ?thesis using tk t l \<open>LogicLoop_running (lw_loop w)\<close> by (auto simp: tick_ok_def w1_def)
    qed
  qed
qed

section \<open>Runs of the loop\<close>

inductive logic_run :: "'e LogicCallbacks \<Rightarrow> 'e LogicWorld \<Rightarrow> 'e LogicWorld \<Rightarrow> bool" for cbs w where
  run_refl: "logic_run cbs w w"
| run_api: "logic_run cbs w w1 \<Longrightarrow> logic_api w1 w2 \<Longrightarrow> logic_run cbs w w2"
| run_timer: "logic_run cbs w w1 \<Longrightarrow> LogicLoop_onTimer cbs f w1 = (r, es, w2) \<Longrightarrow> logic_run cbs w w2"

lemma logic_run_keeps:
  "logic_run cbs w w' \<Longrightarrow> callbacks_public cbs \<Longrightarrow> logic_ok w \<Longrightarrow> logic_ok w' \<and> logic_le w w'"
proof (induction rule: logic_run.induct)
  case (run_api w1 w2)
  then show ?case using logic_api_keeps[OF run_api(2)] logic_le_trans[of w w1 w2] by simp
next
  case (run_timer w1 f r es w2)
  then have i: "logic_ok w1" "logic_le w w1" by simp_all
  then have "logic_ok w2 \<and> logic_le w1 w2"
    using run_timer(2,4) logic_tick[OF run_timer(4) i(1), of f r es w2] by (auto simp: LogicLoop_onTimer_def split: if_splits)
  then show ?case using i logic_le_trans[of w w1 w2] by simp
qed simp

lemma LogicLoop_new_inv:
  assumes "LogicLoop_new options = Inr l" "ql_maxQueuedBytes (lo_queueLimits options) \<le> size_max"
  shows "ll_inv l \<and> ll_alive l \<and> ll_state l = LoopCreated"
proof -
  obtain q where q: "GameCommandQueue_new (lo_queueLimits options) = Inr q"
    using assms(1) by (auto simp: LogicLoop_new_def split: sum.splits)
  have "cq_queue q = []" "cq_accepting q" using q by (auto simp: GameCommandQueue_new_def split: if_splits)
  moreover have "l = \<lparr> ll_alive = True, ll_options = options, ll_queue = q, ll_handler = None, ll_outputCallback = None,
                     ll_metricCallback = None, ll_timer = None, ll_tickCount = 0, ll_state = LoopCreated,
                     ll_rejectedStale = 0, ll_droppedStale = 0 \<rparr>"
    using assms(1) q by (auto simp: LogicLoop_new_def split: if_splits)
  ultimately show ?thesis using GameCommandQueue_new_inv[OF q assms(2)] by (auto simp: ll_inv_def)
qed

section \<open>Properties\<close>

text \<open>An example: a handler that stops the loop and echoes its command, an output callback that does nothing, and
  a queue with a command of a replaced binding before two current ones.\<close>

definition demo_callbacks :: "unit LogicCallbacks" where
  "demo_callbacks = \<lparr>
     cb_handler = (\<lambda>_ c w. (Inr (Some c), if ll_alive (lw_loop w) then w\<lparr> lw_loop := snd (LogicLoop_stop (lw_loop w)) \<rparr> else w)),
     cb_output = (\<lambda>_ c w. (Inr (), w)), cb_metric = (\<lambda>_ t w. (Inr (), w)) \<rparr>"

lemma demo_callbacks_public: "callbacks_public demo_callbacks"
  by (auto simp: callbacks_public_def demo_callbacks_def intro: api_stop api_refl)

definition demo_stale_command :: GameCommand where
  "demo_stale_command = (demo_command 4 ''x'')\<lparr> gc_binding := \<lparr> sb_sessionId = 1, sb_transportId = 5, sb_generation = 1, sb_state = Some 0 \<rparr> \<rparr>"

definition demo_loop :: LogicLoop where
  "demo_loop = \<lparr> ll_alive = True, ll_options = \<lparr> lo_tickInterval = 20, lo_maxCommandsPerTick = 2, lo_queueLimits = demo_limits \<rparr>,
     ll_queue = demo_command_queue\<lparr> cq_queue := [demo_stale_command, demo_command 5 ''y'', demo_command 6 ''z''], cq_queuedBytes := 3,
       cq_depthHighWatermark := 3, cq_bytesHighWatermark := 3, cq_accepted := 3 \<rparr>,
     ll_handler = Some 0, ll_outputCallback = Some 0, ll_metricCallback = None, ll_timer = Some 7, ll_tickCount = 0,
     ll_state = LoopRunning, ll_rejectedStale = 0, ll_droppedStale = 0 \<rparr>"

definition demo_world :: "unit LogicWorld" where
  "demo_world = \<lparr> lw_loop = demo_loop, lw_manager = demo_after, lw_env = () \<rparr>"

lemma demo_world_ok: "logic_ok demo_world" "ll_alive (lw_loop demo_world)" "LogicLoop_running (lw_loop demo_world)"
proof -
  have "cq_inv 0 (ll_queue demo_loop)"
    by (simp add: cq_inv_def demo_loop_def demo_command_queue_def demo_limits_def demo_stale_command_def demo_command_def size_max_def)
  then have "ll_inv demo_loop" by (auto simp: ll_inv_def demo_loop_def demo_command_queue_def)
  then show "logic_ok demo_world" by (simp add: logic_ok_def demo_world_def demo_after_inv)
qed (simp_all add: demo_world_def demo_loop_def LogicLoop_running_def)

lemma demo_world_tick:
  "\<exists>es w'. LogicLoop_tick demo_callbacks False demo_world = (Inr (), es, w') \<and> ll_alive (lw_loop w') \<and> ll_state (lw_loop w') = LoopStopped"
  by (simp add: LogicLoop_tick_def LogicLoop_running_def demo_world_def demo_loop_def GameCommandQueue_drain_def numeral_2_eq_2
      demo_command_queue_def demo_stale_command_def demo_command_def sz_sub_def binding_stale_def SessionBinding_tracked_def
      SessionBinding_isCurrent_def demo_after_facts countDroppedStale_def demo_callbacks_def LogicLoop_stop_def
      GameCommandQueue_closeAndDiscard_def)

text \<open>C19. The batch of a tick. A tick of a running loop takes at most \<open>maxCommandsPerTick\<close> commands from the
  front of the queue and deals with them in order, each exactly once; a command whose session binding is
  stale at that moment never reaches the handler, an output whose binding is stale never reaches the
  output callback. Callbacks may submit, stop the loop, replace callbacks or change sessions: the whole
  batch is still processed, and counted as one tick, unless a callback throws or destroys the loop.\<close>

theorem logic_tick_batch:
  assumes "callbacks_public cbs" "logic_ok w" "ll_alive (lw_loop w)" "LogicLoop_running (lw_loop w)"
    and "LogicLoop_tick cbs reserveFails w = (r, es, w')"
  defines "batch \<equiv> take (lo_maxCommandsPerTick (ll_options (lw_loop w))) (cq_queue (ll_queue (lw_loop w)))"
  shows "\<exists>unseen. batch = event_inputs es @ unseen \<and>
      (unseen = [] \<and> ll_tickCount (lw_loop w') = u64_inc (ll_tickCount (lw_loop w)) \<or> r \<noteq> Inr () \<or> \<not> ll_alive (lw_loop w')) \<and>
      (\<forall>c w0. Handled c w0 \<in> set es \<or> Produced c w0 \<in> set es \<longrightarrow> \<not> binding_stale w0 c) \<and> logic_ok w'"
  using logic_tick[OF assms(1-3,5)] assms(4) unfolding batch_def events_current_def by blast

theorem logic_tick_batch_witness:
  "\<exists>es w'. LogicLoop_tick demo_callbacks False demo_world = (Inr (), es, w') \<and> ll_state (lw_loop w') = LoopStopped \<and>
     event_inputs es = [demo_stale_command, demo_command 5 ''y'']"
proof -
  obtain es w' where t: "LogicLoop_tick demo_callbacks False demo_world = (Inr (), es, w')" "ll_alive (lw_loop w')"
    "ll_state (lw_loop w') = LoopStopped"
    using demo_world_tick by blast
  have b: "take (lo_maxCommandsPerTick (ll_options (lw_loop demo_world))) (cq_queue (ll_queue (lw_loop demo_world))) =
      [demo_stale_command, demo_command 5 ''y'']"
    by (simp add: demo_world_def demo_loop_def)
  from logic_tick_batch[OF demo_callbacks_public demo_world_ok t(1)] t b show ?thesis by auto
qed

text \<open>C20. No command of a replaced, logged-out or shut-down session is executed. If a binding that the session
  manager issued is not current when a tick begins, then, whatever the callbacks of the tick do, neither
  the handler nor the output callback is called with a command of that binding, and after the tick a
  submission with it is answered with \<open>StaleBinding\<close>.\<close>

theorem logic_stale_never_dispatched:
  assumes "callbacks_public cbs" "logic_ok w" "ll_alive (lw_loop w)" "LogicLoop_tick cbs reserveFails w = (r, es, w')"
    and b: "sb_state b = Some a" "a < length (sm_store (lw_manager w))" "0 < sb_generation b"
      "sb_generation b < sm_nextBindingGeneration (lw_manager w)"
    and revoked: "\<not> SessionBinding_isCurrent (sm_store (lw_manager w)) b" and c: "gc_binding c = b"
  shows "Handled c w0 \<notin> set es \<and> Produced c w0 \<notin> set es \<and> fst (LogicLoop_submit pushFails now c w') = Inr StaleBinding"
proof -
  note t = logic_tick[OF assms(1-4)]
  have stale: "binding_stale v c" if "logic_le w v" for v
    using bind_step_revoked[OF _ b revoked, of "lw_manager v"] that b c
    by (simp add: logic_le_def binding_stale_def SessionBinding_tracked_def)
  have "binding_stale w' c" using stale t by blast
  then show ?thesis using t stale unfolding events_current_def by (auto simp: LogicLoop_submit_def Let_def)
qed

theorem logic_stale_never_dispatched_witness:
  "\<exists>es w'. LogicLoop_tick demo_callbacks False demo_world = (Inr (), es, w') \<and> Handled demo_stale_command demo_world \<notin> set es \<and>
     fst (LogicLoop_submit False 9 demo_stale_command w') = Inr StaleBinding"
proof -
  let ?b = "\<lparr> sb_sessionId = 1, sb_transportId = 5, sb_generation = 1, sb_state = Some 0 \<rparr>"
  obtain es w' where t: "LogicLoop_tick demo_callbacks False demo_world = (Inr (), es, w')" using demo_world_tick by blast
  have m: "lw_manager demo_world = demo_after" by (simp add: demo_world_def)
  have c: "gc_binding demo_stale_command = ?b" by (simp add: demo_stale_command_def)
  have r: "\<not> SessionBinding_isCurrent (sm_store (lw_manager demo_world)) ?b"
    by (simp add: m demo_after_facts SessionBinding_isCurrent_def SessionBinding_tracked_def)
  from logic_stale_never_dispatched[OF demo_callbacks_public demo_world_ok(1,2) t _ _ _ _ r c, of 0] t show ?thesis
    by (simp add: m demo_after_facts)
qed

text \<open>C21. The loop is one-shot. In every execution of a new loop, by callbacks, other threads and timer ticks: the
  timer is registered exactly while the loop runs; once the loop is stopped it stays stopped, holds no
  command, refuses every submission, a tick of a late timer does nothing, \<open>start\<close> throws and \<open>stop\<close>
  reports nothing dropped.\<close>

theorem logic_one_shot:
  assumes "LogicLoop_new options = Inr l" "ql_maxQueuedBytes (lo_queueLimits options) \<le> size_max"
    and "lw_loop w = l" "sm_inv (lw_manager w)" "callbacks_public cbs"
    and run: "logic_run cbs w w1" "logic_run cbs w1 w2"
  shows "(ll_timer (lw_loop w2) \<noteq> None \<longleftrightarrow> ll_state (lw_loop w2) = LoopRunning) \<and>
    (ll_state (lw_loop w1) = LoopStopped \<longrightarrow>
       ll_state (lw_loop w2) = LoopStopped \<and> cq_queue (ll_queue (lw_loop w2)) = [] \<and>
       fst (LogicLoop_submit pushFails now c w2) \<in> {Inr Stopped, Inr StaleBinding} \<and>
       LogicLoop_onTimer cbs reserveFails w2 = (Inr (), [], w2) \<and>
       LogicLoop_start r (lw_loop w2) = (Inl LogicError, lw_loop w2) \<and>
       LogicLoop_stop (lw_loop w2) = (\<lparr> ss_droppedCommands = 0, ss_droppedBytes = 0 \<rparr>, lw_loop w2))"
proof -
  have "logic_ok w" using LogicLoop_new_inv[OF assms(1,2)] assms(3,4) by (simp add: logic_ok_def)
  from logic_run_keeps[OF run(1) assms(5) this] have w1: "logic_ok w1" by simp
  from logic_run_keeps[OF run(2) assms(5) w1] have w2: "logic_ok w2" "logic_le w1 w2" by simp_all
  have s: "ll_state (lw_loop w2) = LoopStopped" if "ll_state (lw_loop w1) = LoopStopped"
    using w2 that by (cases "ll_state (lw_loop w2)") (auto simp: logic_le_def)
  show ?thesis
    using w2(1) s
    by (auto simp: logic_ok_def ll_inv_def LogicLoop_submit_def GameCommandQueue_submit_def Let_def LogicLoop_onTimer_def
        LogicLoop_tick_def LogicLoop_running_def LogicLoop_start_def LogicLoop_stop_def)
qed

definition demo_new_loop :: LogicLoop where
  "demo_new_loop = demo_loop\<lparr> ll_queue := demo_command_queue, ll_handler := None, ll_outputCallback := None, ll_timer := None, ll_state := LoopCreated \<rparr>"

theorem logic_one_shot_witness:
  "LogicLoop_start (Inr 3) (snd (LogicLoop_stop demo_new_loop)) = (Inl LogicError, snd (LogicLoop_stop demo_new_loop))"
proof -
  let ?w = "demo_world\<lparr> lw_loop := demo_new_loop \<rparr>"
  have new: "LogicLoop_new (ll_options demo_loop) = Inr demo_new_loop"
    by (simp add: LogicLoop_new_def demo_loop_def demo_command_queue_new demo_new_loop_def)
  have lim: "ql_maxQueuedBytes (lo_queueLimits (ll_options demo_loop)) \<le> size_max"
    by (simp add: demo_loop_def demo_limits_def size_max_def)
  have inv: "sm_inv (lw_manager ?w)" by (simp add: demo_world_def demo_after_inv)
  have l: "lw_loop ?w = demo_new_loop" and alive: "ll_alive demo_new_loop" by (simp_all add: demo_new_loop_def demo_loop_def)
  let ?w1 = "?w\<lparr> lw_loop := snd (LogicLoop_stop (lw_loop ?w)) \<rparr>"
  have "logic_api ?w ?w1" by (rule api_stop[OF api_refl]) (simp add: alive)
  then have run: "logic_run demo_callbacks ?w ?w1" by (rule run_api[OF run_refl])
  have s: "ll_state (lw_loop ?w1) = LoopStopped" by (simp add: demo_new_loop_def demo_loop_def LogicLoop_stop_def GameCommandQueue_closeAndDiscard_def)
  from logic_one_shot[OF new lim l inv demo_callbacks_public run run_refl] s show ?thesis by simp
qed

end
