(* ===== verification/OutputBudget.thy ===== *)
theory OutputBudget
  imports Gamenet_Prelude
begin

text \<open>
  The shared output-memory budget: \<open>src/src/core/net/TcpOutputMemoryBudget.cc\<close>. Its operations are
  lock-free, so that they are modelled one atomic access at a time. \<open>budget_pc\<close> is the program counter of
  a thread inside \<open>tryReserve\<close>, \<open>updatePeak\<close> or \<open>release\<close> together with its local variables;
  \<open>budget_access\<close> performs the next atomic access of a thread and the local computation after it;
  \<open>budget_step\<close> interleaves any number of threads. A \<open>compare_exchange_weak\<close> may fail spuriously. The
  sequential functions \<open>TcpOutputMemoryBudget_tryReserve\<close> and \<open>TcpOutputMemoryBudget_release\<close> are what
  a call does when no other thread interferes. Memory orders are those of sequential consistency.
\<close>

section \<open>Data\<close>

record TcpOutputMemoryBudgetOptions =
  bo_hardLimitBytes :: nat
  bo_recoveryThresholdBytes :: nat

record TcpOutputMemoryBudgetSnapshot =
  bs_pendingBytes :: nat
  bs_peakPendingBytes :: nat
  bs_rejectedReservations :: nat
  bs_overloaded :: bool

record TcpOutputMemoryBudget =
  ob_options :: TcpOutputMemoryBudgetOptions
  ob_pendingBytes :: nat
  ob_peakPendingBytes :: nat
  ob_rejectedReservations :: nat
  ob_overloaded :: bool

definition TcpOutputMemoryBudgetOptions_validate :: "TcpOutputMemoryBudgetOptions \<Rightarrow> unit outcome" where
  "TcpOutputMemoryBudgetOptions_validate opts =
     (if bo_hardLimitBytes opts = 0 then Inl InvalidArgument
      else if bo_recoveryThresholdBytes opts \<ge> bo_hardLimitBytes opts then Inl InvalidArgument
      else Inr ())"

definition TcpOutputMemoryBudget_new :: "TcpOutputMemoryBudgetOptions \<Rightarrow> TcpOutputMemoryBudget outcome" where
  "TcpOutputMemoryBudget_new opts =
     (case TcpOutputMemoryBudgetOptions_validate opts of
        Inl e \<Rightarrow> Inl e
      | Inr _ \<Rightarrow> Inr \<lparr> ob_options = opts, ob_pendingBytes = 0, ob_peakPendingBytes = 0, ob_rejectedReservations = 0,
                        ob_overloaded = False \<rparr>)"

definition TcpOutputMemoryBudget_snapshot :: "TcpOutputMemoryBudget \<Rightarrow> TcpOutputMemoryBudgetSnapshot" where
  "TcpOutputMemoryBudget_snapshot b =
     \<lparr> bs_pendingBytes = ob_pendingBytes b, bs_peakPendingBytes = ob_peakPendingBytes b,
       bs_rejectedReservations = ob_rejectedReservations b, bs_overloaded = ob_overloaded b \<rparr>"

abbreviation ob_hard :: "TcpOutputMemoryBudget \<Rightarrow> nat" where
  "ob_hard b \<equiv> bo_hardLimitBytes (ob_options b)"

abbreviation ob_recovery :: "TcpOutputMemoryBudget \<Rightarrow> nat" where
  "ob_recovery b \<equiv> bo_recoveryThresholdBytes (ob_options b)"

section \<open>One atomic access of a thread\<close>

text \<open>Where a thread is: outside, before the load of \<open>pendingBytes_\<close>, at the head of the loop with
  \<open>bytes\<close> and \<open>current\<close>, before the exchange of the overload latch, before the store that sets the latch,
  before counting a rejection, before the exchange of \<open>pendingBytes_\<close>, in \<open>updatePeak\<close> before its load and
  before its exchange, returned; before the subtraction of \<open>release\<close>, before its store, aborted.\<close>

datatype budget_pc =
    PcIdle
  | PcLoad nat
  | PcHead nat nat
  | PcUnlatch nat
  | PcLatch
  | PcReject
  | PcExchange nat nat
  | PcPeakLoad nat
  | PcPeakExchange nat nat
  | PcReturned bool
  | PcSubtract nat
  | PcRecover nat
  | PcFatal

text \<open>The local decision after the load of the latch in the loop of \<open>tryReserve\<close>.\<close>

definition tryReserve_decide :: "bool \<Rightarrow> nat \<Rightarrow> nat \<Rightarrow> TcpOutputMemoryBudget \<Rightarrow> budget_pc" where
  "tryReserve_decide overloaded bytes current b =
     (if overloaded then (if current > ob_recovery b then PcReject else PcUnlatch bytes)
      else if current > ob_hard b \<or> bytes > sz_sub (ob_hard b) current
      then (if current > ob_recovery b then PcLatch else PcReject)
      else PcExchange bytes current)"

text \<open>\<open>spurious\<close> makes a weak exchange fail although the value matches.\<close>

fun budget_access :: "bool \<Rightarrow> budget_pc \<Rightarrow> TcpOutputMemoryBudget \<Rightarrow> budget_pc \<times> TcpOutputMemoryBudget" where
  "budget_access spurious (PcLoad bytes) b = (PcHead bytes (ob_pendingBytes b), b)"
| "budget_access spurious (PcHead bytes current) b = (tryReserve_decide (ob_overloaded b) bytes current b, b)"
| "budget_access spurious (PcUnlatch bytes) b = (PcLoad bytes, b\<lparr> ob_overloaded := False \<rparr>)"
| "budget_access spurious PcLatch b = (PcReject, b\<lparr> ob_overloaded := True \<rparr>)"
| "budget_access spurious PcReject b =
     (PcReturned False, b\<lparr> ob_rejectedReservations := u64_inc (ob_rejectedReservations b) \<rparr>)"
| "budget_access spurious (PcExchange bytes current) b =
     (if ob_pendingBytes b = current \<and> \<not> spurious
      then (PcPeakLoad (sz_add current bytes), b\<lparr> ob_pendingBytes := sz_add current bytes \<rparr>)
      else (PcHead bytes (ob_pendingBytes b), b))"
| "budget_access spurious (PcPeakLoad candidate) b =
     (if ob_peakPendingBytes b < candidate then PcPeakExchange candidate (ob_peakPendingBytes b) else PcReturned True, b)"
| "budget_access spurious (PcPeakExchange candidate peak) b =
     (if ob_peakPendingBytes b = peak \<and> \<not> spurious then (PcReturned True, b\<lparr> ob_peakPendingBytes := candidate \<rparr>)
      else (if ob_peakPendingBytes b < candidate then PcPeakExchange candidate (ob_peakPendingBytes b) else PcReturned True, b))"
| "budget_access spurious (PcSubtract bytes) b =
     (let previous = ob_pendingBytes b; b' = b\<lparr> ob_pendingBytes := sz_sub previous bytes \<rparr>
      in if previous < bytes then (PcFatal, b')
         else (if sz_sub previous bytes \<le> ob_recovery b then PcRecover bytes else PcIdle, b'))"
| "budget_access spurious (PcRecover bytes) b = (PcIdle, b\<lparr> ob_overloaded := False \<rparr>)"
| "budget_access spurious pc b = (pc, b)"

definition tryReserve_start :: "nat \<Rightarrow> budget_pc" where
  "tryReserve_start bytes = (if bytes = 0 then PcReturned True else PcLoad bytes)"

definition release_start :: "nat \<Rightarrow> budget_pc" where
  "release_start bytes = (if bytes = 0 then PcIdle else PcSubtract bytes)"

section \<open>Interleaving\<close>

text \<open>A system of threads. \<open>bs_held\<close> is what the callers hold: bytes reserved and not yet handed to
  \<open>release\<close>. A caller releases only what it holds.\<close>

record budget_system =
  bs_budget :: TcpOutputMemoryBudget
  bs_threads :: "budget_pc list"
  bs_held :: nat

fun pc_reserved :: "budget_pc \<Rightarrow> budget_pc \<Rightarrow> nat" where
  "pc_reserved (PcExchange bytes _) (PcPeakLoad _) = bytes"
| "pc_reserved _ _ = 0"

fun pc_running :: "budget_pc \<Rightarrow> bool" where
  "pc_running PcIdle = False"
| "pc_running (PcReturned _) = False"
| "pc_running PcFatal = False"
| "pc_running _ = True"

inductive budget_step :: "budget_system \<Rightarrow> budget_system \<Rightarrow> bool" where
  call_reserve: "i < length (bs_threads s) \<Longrightarrow> bs_threads s ! i = PcIdle \<Longrightarrow>
    budget_step s (s\<lparr> bs_threads := (bs_threads s)[i := tryReserve_start bytes] \<rparr>)"
| call_release: "i < length (bs_threads s) \<Longrightarrow> bs_threads s ! i = PcIdle \<Longrightarrow> bytes \<le> bs_held s \<Longrightarrow>
    budget_step s (s\<lparr> bs_threads := (bs_threads s)[i := release_start bytes], bs_held := bs_held s - bytes \<rparr>)"
| access: "i < length (bs_threads s) \<Longrightarrow> bs_threads s ! i = pc \<Longrightarrow> pc_running pc \<Longrightarrow>
    budget_access spurious pc (bs_budget s) = (pc', b') \<Longrightarrow>
    budget_step s (s\<lparr> bs_budget := b', bs_threads := (bs_threads s)[i := pc'], bs_held := bs_held s + pc_reserved pc pc' \<rparr>)"
| return: "i < length (bs_threads s) \<Longrightarrow> bs_threads s ! i = PcReturned r \<Longrightarrow>
    budget_step s (s\<lparr> bs_threads := (bs_threads s)[i := PcIdle] \<rparr>)"

inductive budget_reachable :: "budget_system \<Rightarrow> budget_system \<Rightarrow> bool" for s0 where
  start: "budget_reachable s0 s0"
| step: "budget_reachable s0 s \<Longrightarrow> budget_step s s' \<Longrightarrow> budget_reachable s0 s'"

section \<open>The operations without interference\<close>

definition TcpOutputMemoryBudget_tryReserve :: "nat \<Rightarrow> TcpOutputMemoryBudget \<Rightarrow> bool \<times> TcpOutputMemoryBudget" where
  "TcpOutputMemoryBudget_tryReserve bytes b =
     (if bytes = 0 then (True, b)
      else if ob_overloaded b \<and> ob_pendingBytes b > ob_recovery b
      then (False, b\<lparr> ob_rejectedReservations := u64_inc (ob_rejectedReservations b) \<rparr>)
      else let b1 = b\<lparr> ob_overloaded := False \<rparr>
           in if ob_pendingBytes b > ob_hard b \<or> bytes > ob_hard b - ob_pendingBytes b
              then (False, b1\<lparr> ob_overloaded := ob_pendingBytes b > ob_recovery b,
                               ob_rejectedReservations := u64_inc (ob_rejectedReservations b) \<rparr>)
              else (True, b1\<lparr> ob_pendingBytes := ob_pendingBytes b + bytes,
                              ob_peakPendingBytes := max (ob_peakPendingBytes b) (ob_pendingBytes b + bytes) \<rparr>))"

definition TcpOutputMemoryBudget_release :: "nat \<Rightarrow> TcpOutputMemoryBudget \<Rightarrow> unit outcome \<times> TcpOutputMemoryBudget" where
  "TcpOutputMemoryBudget_release bytes b =
     (if bytes = 0 then (Inr (), b)
      else let b1 = b\<lparr> ob_pendingBytes := sz_sub (ob_pendingBytes b) bytes \<rparr>
           in if ob_pendingBytes b < bytes then (Inl Fatal, b1)
              else (Inr (), if ob_pendingBytes b - bytes \<le> ob_recovery b then b1\<lparr> ob_overloaded := False \<rparr> else b1))"

text \<open>A thread that runs alone for \<open>n\<close> accesses, with exchanges that fail only when the value differs.\<close>

fun budget_solo :: "nat \<Rightarrow> budget_pc \<Rightarrow> TcpOutputMemoryBudget \<Rightarrow> budget_pc \<times> TcpOutputMemoryBudget" where
  "budget_solo 0 pc b = (pc, b)"
| "budget_solo (Suc n) pc b =
     (if pc_running pc then (case budget_access False pc b of (pc', b') \<Rightarrow> budget_solo n pc' b') else (pc, b))"

section \<open>Invariant\<close>

text \<open>Bytes that a thread in \<open>release\<close> has taken from its caller and not yet subtracted.\<close>

fun pc_releasing :: "budget_pc \<Rightarrow> nat" where
  "pc_releasing (PcSubtract bytes) = bytes"
| "pc_releasing _ = 0"

fun pc_candidate :: "budget_pc \<Rightarrow> nat" where
  "pc_candidate (PcPeakLoad candidate) = candidate"
| "pc_candidate (PcPeakExchange candidate _) = candidate"
| "pc_candidate _ = 0"

fun pc_ok :: "nat \<Rightarrow> budget_pc \<Rightarrow> bool" where
  "pc_ok hard (PcExchange bytes current) \<longleftrightarrow> current + bytes \<le> hard"
| "pc_ok hard (PcPeakLoad candidate) \<longleftrightarrow> candidate \<le> hard"
| "pc_ok hard (PcPeakExchange candidate peak) \<longleftrightarrow> peak < candidate \<and> candidate \<le> hard"
| "pc_ok hard PcFatal \<longleftrightarrow> False"
| "pc_ok hard _ \<longleftrightarrow> True"

definition budget_inv :: "budget_system \<Rightarrow> bool" where
  "budget_inv s \<longleftrightarrow>
     (let b = bs_budget s; ts = bs_threads s in
      ob_pendingBytes b = bs_held s + sum_list (map pc_releasing ts) \<and>
      ob_pendingBytes b \<le> ob_hard b \<and> ob_hard b \<le> size_max \<and> ob_peakPendingBytes b \<le> ob_hard b \<and>
      (\<forall>pc \<in> set ts. pc_ok (ob_hard b) pc) \<and>
      (ob_pendingBytes b \<le> ob_peakPendingBytes b \<or> (\<exists>pc \<in> set ts. ob_pendingBytes b \<le> pc_candidate pc)))"

lemma releasing_member: "i < length ts \<Longrightarrow> pc_releasing (ts ! i) \<le> sum_list (map pc_releasing ts)"
  by (rule member_le_sum_list) simp_all

lemma releasing_update:
  assumes "i < length ts"
  shows "sum_list (map pc_releasing (ts[i := pc])) + pc_releasing (ts ! i) = sum_list (map pc_releasing ts) + pc_releasing pc"
proof -
  have "pc_releasing (ts ! i) \<le> sum_list (map pc_releasing ts)"
    using assms by (rule releasing_member)
  then show ?thesis using assms by (simp add: map_update sum_list_update)
qed

lemma update_all: "\<forall>pc \<in> set ts. P pc \<Longrightarrow> P x \<Longrightarrow> \<forall>pc \<in> set (ts[i := x]). P pc"
  using set_update_subset_insert[of ts i x] by blast

text \<open>Replacing the program counter of a thread keeps a candidate that bounds the pending bytes, if the new one is
  not smaller or the peak has taken over.\<close>

lemma candidate_update:
  assumes "i < length ts" "n \<le> p \<or> (\<exists>pc \<in> set ts. n \<le> pc_candidate pc)"
    and "n' \<le> n" "p \<le> p'" "n' \<le> pc_candidate (ts ! i) \<Longrightarrow> n' \<le> pc_candidate pc' \<or> n' \<le> p'"
  shows "n' \<le> p' \<or> (\<exists>pc \<in> set (ts[i := pc']). n' \<le> pc_candidate pc)"
proof (cases "n \<le> p")
  case True
  then show ?thesis using assms(3,4) by simp
next
  case False
  then obtain j where j: "j < length ts" "n \<le> pc_candidate (ts ! j)" using assms(2) by (auto simp: in_set_conv_nth)
  show ?thesis
  proof (cases "j = i")
    case True
    then have "n' \<le> pc_candidate pc' \<or> n' \<le> p'" using j assms(3,5) by simp
    then show ?thesis using assms(1) set_update_memI by fastforce
  next
    case False
    then have "(ts[i := pc']) ! j = ts ! j" by simp
    then have "ts ! j \<in> set (ts[i := pc'])" using j(1) nth_mem[of j "ts[i := pc']"] by simp
    then show ?thesis using j(2) assms(3) by (meson le_trans)
  qed
qed

text \<open>What one access may do to the budget, with the thread's program counter before and after.\<close>

definition access_ok :: "nat \<Rightarrow> nat \<Rightarrow> budget_pc \<Rightarrow> TcpOutputMemoryBudget \<Rightarrow> budget_pc \<Rightarrow> TcpOutputMemoryBudget \<Rightarrow> bool" where
  "access_ok held rest pc b pc' b' \<longleftrightarrow>
     ob_options b' = ob_options b \<and>
     ob_pendingBytes b' = held + pc_reserved pc pc' + rest + pc_releasing pc' \<and>
     ob_pendingBytes b' \<le> ob_hard b \<and> ob_peakPendingBytes b \<le> ob_peakPendingBytes b' \<and> ob_peakPendingBytes b' \<le> ob_hard b \<and>
     pc_ok (ob_hard b) pc' \<and>
     (ob_pendingBytes b' \<le> ob_pendingBytes b \<and>
        (ob_pendingBytes b' \<le> pc_candidate pc \<longrightarrow> ob_pendingBytes b' \<le> pc_candidate pc' \<or> ob_pendingBytes b' \<le> ob_peakPendingBytes b')
      \<or> ob_pendingBytes b' \<le> pc_candidate pc')"

lemma budget_access_ok:
  assumes acc: "budget_access sp pc b = (pc', b')" and run: "pc_running pc" and ok: "pc_ok (ob_hard b) pc"
    and pend: "ob_pendingBytes b = held + rest + pc_releasing pc" "ob_pendingBytes b \<le> ob_hard b"
    and hard: "ob_hard b \<le> size_max" and peak: "ob_peakPendingBytes b \<le> ob_hard b"
  shows "access_ok held rest pc b pc' b'"
proof (cases pc)
  case (PcHead bytes current)
  have "pc' = tryReserve_decide (ob_overloaded b) bytes current b" "b' = b" using acc PcHead by auto
  moreover have "pc_ok (ob_hard b) (tryReserve_decide ov bytes current b)" "pc_releasing (tryReserve_decide ov bytes current b) = 0" for ov
    by (auto simp: tryReserve_decide_def)
  ultimately show ?thesis using pend peak PcHead by (simp add: access_ok_def)
next
  case (PcExchange bytes current)
  have "sz_add current bytes = current + bytes" using ok hard PcExchange by (intro sz_add_small) simp
  then show ?thesis using acc PcExchange ok pend peak by (auto simp: access_ok_def split: if_splits)
next
  case (PcSubtract bytes)
  then show ?thesis using acc pend peak by (auto simp: access_ok_def Let_def split: if_splits)
next
  case (PcPeakExchange candidate pk)
  then show ?thesis using acc ok pend peak by (auto simp: access_ok_def split: if_splits)
next
  case (PcPeakLoad candidate)
  then show ?thesis using acc ok pend peak by (auto simp: access_ok_def split: if_splits)
qed (use acc run pend peak in \<open>auto simp: access_ok_def\<close>)

lemma budget_access_keeps:
  assumes inv: "budget_inv s" and i: "i < length (bs_threads s)" "bs_threads s ! i = pc" and run: "pc_running pc"
    and acc: "budget_access sp pc (bs_budget s) = (pc', b')"
  shows "budget_inv (s\<lparr> bs_budget := b', bs_threads := (bs_threads s)[i := pc'], bs_held := bs_held s + pc_reserved pc pc' \<rparr>)"
proof -
  let ?b = "bs_budget s" and ?ts = "bs_threads s"
  have I: "ob_pendingBytes ?b = bs_held s + sum_list (map pc_releasing ?ts)" "ob_pendingBytes ?b \<le> ob_hard ?b" "ob_hard ?b \<le> size_max"
    "ob_peakPendingBytes ?b \<le> ob_hard ?b" "\<forall>pc \<in> set ?ts. pc_ok (ob_hard ?b) pc"
    "ob_pendingBytes ?b \<le> ob_peakPendingBytes ?b \<or> (\<exists>pc \<in> set ?ts. ob_pendingBytes ?b \<le> pc_candidate pc)"
    using inv by (auto simp: budget_inv_def Let_def)
  define rest where "rest = sum_list (map pc_releasing ?ts) - pc_releasing pc"
  have rest: "sum_list (map pc_releasing ?ts) = rest + pc_releasing pc" "sum_list (map pc_releasing (?ts[i := pc'])) = rest + pc_releasing pc'"
    using releasing_member[OF i(1)] releasing_update[OF i(1), of pc'] i(2) by (simp_all add: rest_def)
  have "pc_ok (ob_hard ?b) pc" using I(5) i by auto
  from budget_access_ok[OF acc run this _ I(2-4), of "bs_held s" rest] I(1) rest(1)
  have a: "access_ok (bs_held s) rest pc ?b pc' b'" by simp
  have c: "ob_pendingBytes b' \<le> ob_peakPendingBytes b' \<or> (\<exists>pc \<in> set (?ts[i := pc']). ob_pendingBytes b' \<le> pc_candidate pc)"
  proof (cases "ob_pendingBytes b' \<le> pc_candidate pc'")
    case True
    then show ?thesis using i(1) set_update_memI by fastforce
  next
    case False
    with a have d: "ob_pendingBytes b' \<le> ob_pendingBytes ?b" "ob_peakPendingBytes ?b \<le> ob_peakPendingBytes b'"
      "ob_pendingBytes b' \<le> pc_candidate pc \<longrightarrow> ob_pendingBytes b' \<le> pc_candidate pc' \<or> ob_pendingBytes b' \<le> ob_peakPendingBytes b'"
      by (auto simp: access_ok_def)
    show ?thesis by (rule candidate_update[OF i(1) I(6) d(1,2)]) (use d(3) i(2) in simp)
  qed
  have o: "\<forall>pc \<in> set (?ts[i := pc']). pc_ok (ob_hard ?b) pc" by (rule update_all[OF I(5)]) (use a in \<open>simp add: access_ok_def\<close>)
  show ?thesis using a c o I(3) rest(2) unfolding budget_inv_def access_ok_def by (simp add: Let_def)
qed

text \<open>A call or a return of an idle thread.\<close>

lemma budget_replace_keeps:
  assumes inv: "budget_inv s" and i: "i < length (bs_threads s)" "pc_candidate (bs_threads s ! i) = 0"
    and held: "bs_held s + pc_releasing (bs_threads s ! i) = held + pc_releasing pc'" and ok: "pc_ok (ob_hard (bs_budget s)) pc'"
  shows "budget_inv (s\<lparr> bs_threads := (bs_threads s)[i := pc'], bs_held := held \<rparr>)"
proof -
  let ?b = "bs_budget s" and ?ts = "bs_threads s"
  have I: "ob_pendingBytes ?b = bs_held s + sum_list (map pc_releasing ?ts)"
    "\<forall>pc \<in> set ?ts. pc_ok (ob_hard ?b) pc"
    "ob_pendingBytes ?b \<le> ob_peakPendingBytes ?b \<or> (\<exists>pc \<in> set ?ts. ob_pendingBytes ?b \<le> pc_candidate pc)"
    using inv by (auto simp: budget_inv_def Let_def)
  have "ob_pendingBytes ?b \<le> ob_peakPendingBytes ?b \<or> (\<exists>pc \<in> set (?ts[i := pc']). ob_pendingBytes ?b \<le> pc_candidate pc)"
    by (rule candidate_update[OF i(1) I(3)]) (use i(2) in simp_all)
  moreover have "ob_pendingBytes ?b = held + sum_list (map pc_releasing (?ts[i := pc']))"
    using releasing_update[OF i(1), of pc'] I(1) held by simp
  moreover note update_all[OF I(2), of pc' i] ok
  ultimately show ?thesis using inv by (simp add: budget_inv_def Let_def)
qed

lemma budget_step_inv: "budget_step s s' \<Longrightarrow> budget_inv s \<Longrightarrow> budget_inv s'"
proof (induction rule: budget_step.induct)
  case (call_reserve i s bytes)
  then show ?case using budget_replace_keeps[of s i "bs_held s" "tryReserve_start bytes"] by (simp add: tryReserve_start_def)
next
  case (call_release i s bytes)
  then show ?case using budget_replace_keeps[of s i "bs_held s - bytes" "release_start bytes"] by (simp add: release_start_def)
next
  case (access i s pc sp pc' b')
  then show ?case using budget_access_keeps by blast
next
  case (return i s r)
  then show ?case using budget_replace_keeps[of s i "bs_held s" PcIdle] by simp
qed

lemma budget_reachable_inv: "budget_reachable s0 s \<Longrightarrow> budget_inv s0 \<Longrightarrow> budget_inv s"
  by (induction rule: budget_reachable.induct) (auto intro: budget_step_inv)

lemma budget_step_options: "budget_step s s' \<Longrightarrow> ob_options (bs_budget s') = ob_options (bs_budget s)"
proof (induction rule: budget_step.induct)
  case (access i s pc sp pc' b')
  then show ?case by (cases pc) (auto simp: Let_def split: if_splits)
qed simp_all

lemma budget_reachable_options: "budget_reachable s0 s \<Longrightarrow> ob_options (bs_budget s) = ob_options (bs_budget s0)"
  by (induction rule: budget_reachable.induct) (simp_all add: budget_step_options)

section \<open>Solo runs\<close>

lemma budget_solo_more: "pc_running pc \<Longrightarrow> budget_access False pc b = (pc', b') \<Longrightarrow> budget_solo (Suc n) pc b = budget_solo n pc' b'"
  by simp

lemma budget_solo_done: "\<not> pc_running pc \<Longrightarrow> budget_solo n pc b = (pc, b)"
  by (cases n) simp_all

lemma budget_solo_add: "budget_solo (n + m) pc b = budget_solo m (fst (budget_solo n pc b)) (snd (budget_solo n pc b))"
proof (induction n arbitrary: pc b)
  case (Suc n)
  then show ?case by (cases "pc_running pc") (auto simp: budget_solo_done split: prod.splits)
qed simp

text \<open>Eight accesses are enough: the load, the latch, its reset, the second load and latch, the exchange, and the
  load and exchange of the peak.\<close>

lemma budget_solo_exchange:
  assumes "ob_pendingBytes b + bytes \<le> ob_hard b" "ob_hard b \<le> size_max"
  shows "budget_solo 3 (PcExchange bytes (ob_pendingBytes b)) b =
    (PcReturned True, b\<lparr> ob_pendingBytes := ob_pendingBytes b + bytes,
        ob_peakPendingBytes := max (ob_peakPendingBytes b) (ob_pendingBytes b + bytes) \<rparr>)"
proof -
  have "sz_add (ob_pendingBytes b) bytes = ob_pendingBytes b + bytes" using assms by (intro sz_add_small) simp
  then show ?thesis by (simp add: numeral_3_eq_3 max_def)
qed

lemma budget_solo_unlatched:
  assumes "\<not> ob_overloaded b" "bytes \<noteq> 0" "ob_pendingBytes b \<le> ob_hard b" "ob_hard b \<le> size_max"
  shows "\<exists>b'. budget_solo 5 (PcLoad bytes) b = (PcReturned (fst (TcpOutputMemoryBudget_tryReserve bytes b)), b') \<and>
    b' = snd (TcpOutputMemoryBudget_tryReserve bytes b)"
proof (cases "bytes > ob_hard b - ob_pendingBytes b")
  case True
  then show ?thesis using assms
    by (auto simp: eval_nat_numeral tryReserve_decide_def TcpOutputMemoryBudget_tryReserve_def)
next
  case False
  have "budget_solo 2 (PcLoad bytes) b = (PcExchange bytes (ob_pendingBytes b), b)"
    using False assms by (simp add: tryReserve_decide_def numeral_2_eq_2)
  then have "budget_solo 5 (PcLoad bytes) b = budget_solo 3 (PcExchange bytes (ob_pendingBytes b)) b"
    using budget_solo_add[of 2 3 "PcLoad bytes" b] by simp
  moreover have "ob_pendingBytes b + bytes \<le> ob_hard b" using False assms by simp
  moreover have "b\<lparr> ob_overloaded := False \<rparr> = b" using assms(1) by simp
  ultimately show ?thesis using budget_solo_exchange[OF _ assms(4)] False assms
    by (simp add: TcpOutputMemoryBudget_tryReserve_def)
qed

lemma budget_solo_reserve:
  assumes "ob_pendingBytes b \<le> ob_hard b" "ob_hard b \<le> size_max"
  shows "budget_solo 8 (tryReserve_start bytes) b =
    (PcReturned (fst (TcpOutputMemoryBudget_tryReserve bytes b)), snd (TcpOutputMemoryBudget_tryReserve bytes b))"
proof (cases "bytes = 0")
  case True
  then show ?thesis by (simp add: tryReserve_start_def TcpOutputMemoryBudget_tryReserve_def budget_solo_done)
next
  case False
  have five: "budget_solo (5 + m) (PcLoad bytes) b1 = (PcReturned (fst (TcpOutputMemoryBudget_tryReserve bytes b1)), snd (TcpOutputMemoryBudget_tryReserve bytes b1))"
    if "\<not> ob_overloaded b1" "ob_pendingBytes b1 \<le> ob_hard b1" "ob_hard b1 \<le> size_max" for b1 m
    unfolding budget_solo_add using budget_solo_unlatched[OF that(1) False that(2,3)] by (auto simp: budget_solo_done)
  show ?thesis
  proof (cases "ob_overloaded b")
    case O: True
    show ?thesis
    proof (cases "ob_pendingBytes b > ob_recovery b")
      case True
      then show ?thesis using O False
        by (simp add: eval_nat_numeral tryReserve_start_def tryReserve_decide_def TcpOutputMemoryBudget_tryReserve_def)
    next
      case R: False
      let ?b = "b\<lparr> ob_overloaded := False \<rparr>"
      have "budget_solo 3 (PcLoad bytes) b = (PcLoad bytes, ?b)"
        using O R by (simp add: tryReserve_decide_def numeral_3_eq_3)
      then have "budget_solo 8 (PcLoad bytes) b = budget_solo 5 (PcLoad bytes) ?b"
        using budget_solo_add[of 3 5 "PcLoad bytes" b] by simp
      moreover have "TcpOutputMemoryBudget_tryReserve bytes ?b = TcpOutputMemoryBudget_tryReserve bytes b"
        using R False by (simp add: TcpOutputMemoryBudget_tryReserve_def Let_def)
      ultimately show ?thesis using five[of ?b 0] assms False by (simp add: tryReserve_start_def)
    qed
  next
    case False
    then show ?thesis using five[of b 3] assms \<open>bytes \<noteq> 0\<close> by (simp add: tryReserve_start_def)
  qed
qed

section \<open>Properties\<close>

text \<open>An executable scheduler, for examples.\<close>

datatype budget_act = Reserve nat | Release nat | Run | Return

fun budget_do :: "nat \<times> budget_act \<Rightarrow> budget_system \<Rightarrow> budget_system option" where
  "budget_do (i, Reserve n) s =
     (if i < length (bs_threads s) \<and> bs_threads s ! i = PcIdle
      then Some (s\<lparr> bs_threads := (bs_threads s)[i := tryReserve_start n] \<rparr>) else None)"
| "budget_do (i, Release n) s =
     (if i < length (bs_threads s) \<and> bs_threads s ! i = PcIdle \<and> n \<le> bs_held s
      then Some (s\<lparr> bs_threads := (bs_threads s)[i := release_start n], bs_held := bs_held s - n \<rparr>) else None)"
| "budget_do (i, Run) s =
     (if i < length (bs_threads s) \<and> pc_running (bs_threads s ! i)
      then (case budget_access False (bs_threads s ! i) (bs_budget s) of
              (pc', b') \<Rightarrow> Some (s\<lparr> bs_budget := b', bs_threads := (bs_threads s)[i := pc'],
                                   bs_held := bs_held s + pc_reserved (bs_threads s ! i) pc' \<rparr>))
      else None)"
| "budget_do (i, Return) s =
     (if i < length (bs_threads s) \<and> (\<exists>r \<in> {True, False}. bs_threads s ! i = PcReturned r)
      then Some (s\<lparr> bs_threads := (bs_threads s)[i := PcIdle] \<rparr>) else None)"

fun budget_exec :: "(nat \<times> budget_act) list \<Rightarrow> budget_system \<Rightarrow> budget_system option" where
  "budget_exec [] s = Some s"
| "budget_exec (a # as) s = Option.bind (budget_do a s) (budget_exec as)"

lemma budget_do_step: "budget_do a s = Some s' \<Longrightarrow> budget_step s s'"
  by (induction a s rule: budget_do.induct) (auto intro: budget_step.intros split: if_splits prod.splits)

lemma budget_exec_reachable: "budget_reachable s0 s \<Longrightarrow> budget_exec as s = Some s' \<Longrightarrow> budget_reachable s0 s'"
proof (induction as arbitrary: s)
  case (Cons a as)
  from Cons.prems(2) obtain s1 where s1: "budget_do a s = Some s1" "budget_exec as s1 = Some s'"
    by (auto simp: bind_eq_Some_conv)
  from Cons.IH[OF budget_reachable.step[OF Cons.prems(1) budget_do_step[OF s1(1)]] s1(2)] show ?case .
qed simp

lemma budget_new_inv:
  assumes "TcpOutputMemoryBudget_new opts = Inr b" "bo_hardLimitBytes opts \<le> size_max"
  shows "budget_inv \<lparr> bs_budget = b, bs_threads = replicate n PcIdle, bs_held = 0 \<rparr> \<and> ob_options b = opts"
proof -
  have b: "b = \<lparr> ob_options = opts, ob_pendingBytes = 0, ob_peakPendingBytes = 0, ob_rejectedReservations = 0, ob_overloaded = False \<rparr>"
    using assms(1) by (auto simp: TcpOutputMemoryBudget_new_def split: sum.splits)
  then show ?thesis using assms(2) by (simp add: budget_inv_def sum_list_replicate)
qed

definition demo_budget :: TcpOutputMemoryBudget where
  "demo_budget = \<lparr> ob_options = \<lparr> bo_hardLimitBytes = 10, bo_recoveryThresholdBytes = 4 \<rparr>, ob_pendingBytes = 0,
     ob_peakPendingBytes = 0, ob_rejectedReservations = 0, ob_overloaded = False \<rparr>"

lemma demo_budget_new: "TcpOutputMemoryBudget_new (ob_options demo_budget) = Inr demo_budget" "bo_hardLimitBytes (ob_options demo_budget) \<le> size_max"
  by (simp_all add: TcpOutputMemoryBudget_new_def TcpOutputMemoryBudgetOptions_validate_def demo_budget_def size_max_def)

definition demo_budget_system :: budget_system where
  "demo_budget_system = \<lparr> bs_budget = demo_budget, bs_threads = [PcIdle, PcIdle], bs_held = 0 \<rparr>"

lemma demo_budget_system_eq: "demo_budget_system = \<lparr> bs_budget = demo_budget, bs_threads = replicate 2 PcIdle, bs_held = 0 \<rparr>"
  by (simp add: demo_budget_system_def numeral_2_eq_2)

lemmas budget_eval = demo_budget_system_def demo_budget_def tryReserve_start_def release_start_def tryReserve_decide_def
  sz_add_def sz_sub_def u64_inc_def

text \<open>C22. No interleaving of any number of threads breaks the budget. In every state that calls of \<open>tryReserve\<close>
  and \<open>release\<close> reach from a new budget, with callers that release only what they hold: the pending bytes
  are exactly the bytes held plus those on their way back in a \<open>release\<close>, they never exceed the hard limit
  (nor does the recorded peak), no \<open>release\<close> underflows, and when no thread is recording a peak the peak
  is at least the pending bytes.\<close>

theorem output_budget_safe:
  assumes "TcpOutputMemoryBudget_new opts = Inr b" "bo_hardLimitBytes opts \<le> size_max"
    and "budget_reachable \<lparr> bs_budget = b, bs_threads = replicate n PcIdle, bs_held = 0 \<rparr> s"
  shows "ob_pendingBytes (bs_budget s) = bs_held s + sum_list (map pc_releasing (bs_threads s)) \<and>
    ob_pendingBytes (bs_budget s) \<le> bo_hardLimitBytes opts \<and> ob_peakPendingBytes (bs_budget s) \<le> bo_hardLimitBytes opts \<and>
    PcFatal \<notin> set (bs_threads s) \<and>
    ((\<forall>pc \<in> set (bs_threads s). pc_candidate pc = 0) \<longrightarrow> ob_pendingBytes (bs_budget s) \<le> ob_peakPendingBytes (bs_budget s))"
proof -
  note n = budget_new_inv[OF assms(1,2), of n]
  have i: "budget_inv s" using budget_reachable_inv[OF assms(3)] n by blast
  have o: "ob_options (bs_budget s) = opts" using budget_reachable_options[OF assms(3)] n by simp
  have "PcFatal \<notin> set (bs_threads s)" using i by (auto simp: budget_inv_def Let_def)
  moreover have "ob_pendingBytes (bs_budget s) \<le> ob_peakPendingBytes (bs_budget s)"
    if "\<forall>pc \<in> set (bs_threads s). pc_candidate pc = 0"
  proof -
    have "ob_pendingBytes (bs_budget s) \<le> ob_peakPendingBytes (bs_budget s) \<or>
        (\<exists>pc \<in> set (bs_threads s). ob_pendingBytes (bs_budget s) \<le> pc_candidate pc)"
      using i unfolding budget_inv_def Let_def by (elim conjE)
    with that show ?thesis by auto
  qed
  ultimately show ?thesis using i o unfolding budget_inv_def Let_def by simp
qed

theorem output_budget_safe_witness:
  "\<exists>s. budget_exec [(0, Reserve 6), (1, Reserve 5), (0, Run), (1, Run), (0, Run), (1, Run), (0, Run), (1, Run), (1, Run)] demo_budget_system = Some s \<and>
     bs_threads s ! 0 = PcPeakLoad 6 \<and> bs_threads s ! 1 = PcLatch \<and> ob_pendingBytes (bs_budget s) = 6 \<and> bs_held s = 6"
proof -
  let ?as = "[(0, Reserve 6), (1, Reserve 5), (0, Run), (1, Run), (0, Run), (1, Run), (0, Run), (1, Run), (1, Run)]"
  obtain s where s: "budget_exec ?as demo_budget_system = Some s" "bs_threads s ! 0 = PcPeakLoad 6" "bs_threads s ! 1 = PcLatch"
     "bs_held s = 6" "sum_list (map pc_releasing (bs_threads s)) = 0"
    by (simp add: budget_eval)
  have "budget_reachable demo_budget_system s" using budget_exec_reachable[OF budget_reachable.start s(1)] .
  from output_budget_safe[OF demo_budget_new this[unfolded demo_budget_system_eq]] s show ?thesis by auto
qed

text \<open>C23. A reservation that is not disturbed returns, after at most eight atomic accesses, with the answer of the
  sequential specification: in any reachable state, whatever the other threads are doing, a thread that
  runs alone is granted its bytes if and only if they fit and the budget is not latched above the recovery
  threshold. In particular a latch that is left over after the pending bytes have returned to the threshold
  locks nobody out.\<close>

theorem output_budget_solo:
  assumes "TcpOutputMemoryBudget_new opts = Inr b" "bo_hardLimitBytes opts \<le> size_max"
    and "budget_reachable \<lparr> bs_budget = b, bs_threads = replicate n PcIdle, bs_held = 0 \<rparr> s"
  defines "c \<equiv> bs_budget s"
  shows "budget_solo 8 (tryReserve_start bytes) c =
      (PcReturned (fst (TcpOutputMemoryBudget_tryReserve bytes c)), snd (TcpOutputMemoryBudget_tryReserve bytes c)) \<and>
    (fst (TcpOutputMemoryBudget_tryReserve bytes c) \<longleftrightarrow>
       bytes = 0 \<or> (ob_overloaded c \<longrightarrow> ob_pendingBytes c \<le> bo_recoveryThresholdBytes opts) \<and> ob_pendingBytes c + bytes \<le> bo_hardLimitBytes opts)"
proof -
  note n = budget_new_inv[OF assms(1,2), of n]
  have i: "budget_inv s" using budget_reachable_inv[OF assms(3)] n by blast
  have o: "ob_options c = opts" using budget_reachable_options[OF assms(3)] n by (simp add: c_def)
  have h: "ob_pendingBytes c \<le> ob_hard c" "ob_hard c \<le> size_max" using i by (simp_all add: budget_inv_def Let_def c_def)
  have "fst (TcpOutputMemoryBudget_tryReserve bytes c) \<longleftrightarrow>
       bytes = 0 \<or> (ob_overloaded c \<longrightarrow> ob_pendingBytes c \<le> bo_recoveryThresholdBytes opts) \<and> ob_pendingBytes c + bytes \<le> bo_hardLimitBytes opts"
    using h o by (auto simp: TcpOutputMemoryBudget_tryReserve_def Let_def)
  with budget_solo_reserve[OF h] show ?thesis by simp
qed

theorem output_budget_solo_witness:
  "budget_solo 8 (tryReserve_start 7) demo_budget =
     (PcReturned True, demo_budget\<lparr> ob_pendingBytes := 7, ob_peakPendingBytes := 7 \<rparr>)"
proof -
  have "TcpOutputMemoryBudget_tryReserve 7 demo_budget = (True, demo_budget\<lparr> ob_pendingBytes := 7, ob_peakPendingBytes := 7 \<rparr>)"
    by (simp add: TcpOutputMemoryBudget_tryReserve_def demo_budget_def)
  with output_budget_solo[OF demo_budget_new budget_reachable.start, of 7] show ?thesis by simp
qed


end
