(* ===== verification/Bit_Words.thy ===== *)
theory Bit_Words
  imports Gamenet_Prelude
begin

text \<open>
  Bit scanning of 64-bit words, as the control-source bitmap of the event loop uses it:
  \<open>std::countr_zero\<close> and the clearing of the lowest bit by \<open>w & (w - 1)\<close>.
\<close>

section \<open>Bits of a 64-bit word\<close>

text \<open>\<open>std::countr_zero\<close>: the index of the lowest bit set, 64 for zero.\<close>

definition countr_zero :: "64 word \<Rightarrow> nat" where
  "countr_zero w = length (takeWhile (\<lambda>i. \<not> bit w i) [0..<64])"

lemma countr_zero:
  assumes "w \<noteq> 0"
  shows "countr_zero w < 64" "bit w (countr_zero w)" "j < countr_zero w \<Longrightarrow> \<not> bit w j"
proof -
  let ?t = "takeWhile (\<lambda>i. \<not> bit w i) [0..<64]"
  obtain n where n: "bit w n" using assms by (auto simp: bit_eq_iff)
  then have n64: "n < 64" using bit_imp_le_length[OF n] by simp
  have lt: "length ?t < 64"
  proof (rule ccontr)
    assume "\<not> length ?t < 64"
    moreover have "length ?t \<le> length [0..<64]" by (rule length_takeWhile_le)
    ultimately have "length ?t = length [0..<64::nat]" by simp
    then have "\<forall>i \<in> set [0..<64]. \<not> bit w i" by (metis takeWhile_eq_all_conv takeWhile_eq_take take_all_iff order_refl)
    then show False using n n64 by simp
  qed
  then show "countr_zero w < 64" by (simp add: countr_zero_def)
  have "\<not> \<not> bit w ([0..<64] ! length ?t)" using nth_length_takeWhile[of "\<lambda>i. \<not> bit w i" "[0..<64]"] lt by simp
  then show "bit w (countr_zero w)" using lt by (simp add: countr_zero_def)
  show "\<not> bit w j" if "j < countr_zero w"
  proof -
    have j: "j < length ?t" using that by (simp add: countr_zero_def)
    then have "?t ! j \<in> set ?t" by (rule nth_mem)
    then have "\<not> bit w (?t ! j)" using set_takeWhileD by fast
    moreover have "?t ! j = j" using takeWhile_nth[OF j] j lt by simp
    ultimately show ?thesis by simp
  qed
qed

text \<open>\<open>w & (w - 1)\<close> clears the lowest bit set.\<close>

lemma bit_clear_lowest:
  assumes "w \<noteq> (0 :: 64 word)"
  shows "bit (w AND (w - 1)) j \<longleftrightarrow> bit w j \<and> j \<noteq> countr_zero w"
proof -
  let ?k = "countr_zero w"
  note k = countr_zero[OF assms]
  define v where "v = drop_bit ?k w"
  have w: "w = push_bit ?k v"
  proof (rule bit_eqI)
    fix n assume "possible_bit TYPE(64 word) n"
    show "bit w n \<longleftrightarrow> bit (push_bit ?k v) n"
    proof (cases "n < ?k")
      case True
      then show ?thesis using k(3) by (simp add: bit_push_bit_iff)
    next
      case False
      then show ?thesis by (auto simp: v_def bit_push_bit_iff bit_drop_bit_eq dest: bit_imp_le_length)
    qed
  qed
  have odd: "odd v" using k(2) by (simp add: v_def bit_iff_odd_drop_bit)
  have p: "2 ^ ?k * v = w" using w by (simp add: push_bit_eq_mult mult.commute)
  have "w - 1 = push_bit ?k (v - 1) + mask ?k"
    unfolding mask_eq_exp_minus_1 push_bit_eq_mult using p by (simp add: algebra_simps)
  also have "\<dots> = push_bit ?k (v - 1) OR mask ?k"
    by (rule disjunctive_add_eq_or) (auto simp: bit_eq_iff bit_and_iff bit_push_bit_iff bit_mask_iff)
  finally have e: "w - 1 = push_bit ?k (v - 1) OR mask ?k" .
  have "v - 1 = 2 * (v div 2)" using div_mult_mod_eq[of v 2] odd by (simp add: odd_iff_mod_2_eq_one algebra_simps)
  then have v1: "bit (v - 1) n \<longleftrightarrow> n \<noteq> 0 \<and> bit v n" for n
    by (cases n) (auto simp: bit_double_iff bit_Suc[symmetric] simp del: bit_Suc dest: bit_imp_le_length)
  show ?thesis
  proof (cases "j < ?k")
    case True
    then show ?thesis using k(3) by (simp add: bit_and_iff)
  next
    case False
    have "bit (w - 1) j \<longleftrightarrow> bit (push_bit ?k (v - 1)) j" using False by (simp add: e bit_or_iff bit_mask_iff)
    also have "\<dots> \<longleftrightarrow> j \<noteq> ?k \<and> bit w j"
      using False v1[of "j - ?k"] by (subst (2) w) (auto simp: bit_push_bit_iff)
    finally show ?thesis by (auto simp: bit_and_iff)
  qed
qed

end
