(* ===== verification/EventLoop_Base.thy ===== *)
theory EventLoop_Base
  imports Bit_Words Dispatch
begin

text \<open>
  Vocabulary of the event loop: phases, options and their validation, metric samples and the sources of
  callback exceptions (\<open>src/include/gamenet/core/net/EventLoop.h\<close>, \<open>EventLoopMetrics.h\<close>,
  \<open>CallbackException.h\<close> and \<open>EventLoopOptions::validate\<close> in \<open>src/src/core/net/EventLoop.cc\<close>).
\<close>

datatype EventLoopPhase = PhaseRunning | PhaseQuiescing | PhaseFinalDraining | PhaseShutdown

record EventLoopOptions =
  eo_maxPendingFunctors :: nat
  eo_reservedPendingFunctors :: nat
  eo_maxFunctorsPerIteration :: nat
  eo_maxControlSources :: nat
  eo_maxLifecycleNodes :: nat
  eo_maxLifecycleCallbacksPerIteration :: nat
  eo_maxActiveChannelsPerIteration :: nat
  eo_maxTimersPerIteration :: nat
  eo_maxControlCallbacksPerIteration :: nat
  eo_maxIocpCompletionsPerPoll :: nat

definition kMaxControlSources :: nat where
  "kMaxControlSources = 65536"

definition kMaxIocpCompletionBatchSize :: nat where
  "kMaxIocpCompletionBatchSize = 64"

definition EventLoopOptions_validate :: "EventLoopOptions \<Rightarrow> unit outcome" where
  "EventLoopOptions_validate o' =
     (if eo_maxPendingFunctors o' = 0 then Inl InvalidArgument
      else if eo_reservedPendingFunctors o' > sz_sub size_max (eo_maxPendingFunctors o') then Inl InvalidArgument
      else if eo_maxFunctorsPerIteration o' = 0 \<or> eo_maxFunctorsPerIteration o' > eo_maxPendingFunctors o' then Inl InvalidArgument
      else if eo_maxControlSources o' > kMaxControlSources then Inl InvalidArgument
      else if eo_maxLifecycleCallbacksPerIteration o' = 0 then Inl InvalidArgument
      else if eo_maxActiveChannelsPerIteration o' = 0 then Inl InvalidArgument
      else if eo_maxTimersPerIteration o' = 0 then Inl InvalidArgument
      else if eo_maxControlCallbacksPerIteration o' = 0 \<or> eo_maxControlCallbacksPerIteration o' > kMaxControlSources
      then Inl InvalidArgument
      else if eo_maxIocpCompletionsPerPoll o' = 0 \<or> eo_maxIocpCompletionsPerPoll o' > kMaxIocpCompletionBatchSize
      then Inl InvalidArgument
      else Inr ())"

datatype EventLoopMetricEvent =
    PendingFunctorsDrained
  | WakeupHandled
  | ControlSourcesDrained
  | ActiveChannelsDrained
  | TimersDrained
  | LifecycleNodesDrained
  | IocpCompletionPacketsDrained

text \<open>The fields of a sample that the drains of the loop fill in.\<close>

record EventLoopMetricSample =
  ms_event :: EventLoopMetricEvent
  ms_pendingFunctors :: nat
  ms_pendingFunctorPeak :: nat
  ms_wakeupCount :: nat
  ms_rejectedFunctors :: nat
  ms_callbackExceptions :: nat
  ms_oldestPendingLatency :: duration
  ms_pendingControlSources :: nat
  ms_pendingControlSourcePeak :: nat
  ms_controlNotifications :: nat
  ms_mergedControlNotifications :: nat
  ms_rejectedControlNotifications :: nat
  ms_drainedWork :: nat
  ms_remainingWork :: nat
  ms_oldestReadyLatency :: duration
  ms_budgetExhausted :: bool

definition EventLoopMetricSample_default :: EventLoopMetricSample where
  "EventLoopMetricSample_default =
     \<lparr> ms_event = PendingFunctorsDrained, ms_pendingFunctors = 0, ms_pendingFunctorPeak = 0, ms_wakeupCount = 0,
       ms_rejectedFunctors = 0, ms_callbackExceptions = 0, ms_oldestPendingLatency = 0, ms_pendingControlSources = 0,
       ms_pendingControlSourcePeak = 0, ms_controlNotifications = 0, ms_mergedControlNotifications = 0,
       ms_rejectedControlNotifications = 0, ms_drainedWork = 0, ms_remainingWork = 0, ms_oldestReadyLatency = 0,
       ms_budgetExhausted = False \<rparr>"

text \<open>A generation counter that skips 0.\<close>

definition gen_inc :: "nat \<Rightarrow> nat" where
  "gen_inc g = (let g' = u64_inc g in if g' = 0 then u64_inc g' else g')"

lemma gen_inc_pos: "0 < gen_inc g"
  by (simp add: gen_inc_def Let_def u64_inc_def)

lemma gen_inc_neq: "g < 2 ^ 64 \<Longrightarrow> gen_inc g \<noteq> g"
  by (cases "g = 2 ^ 64 - 1") (auto simp: gen_inc_def Let_def u64_inc_def)

lemma validate_capacity:
  "EventLoopOptions_validate o' = Inr () \<Longrightarrow> eo_maxPendingFunctors o' \<le> size_max \<Longrightarrow>
    eo_maxPendingFunctors o' + eo_reservedPendingFunctors o' \<le> size_max \<and> 0 < eo_maxFunctorsPerIteration o' \<and>
    eo_maxFunctorsPerIteration o' \<le> eo_maxPendingFunctors o'"
  by (auto simp: EventLoopOptions_validate_def split: if_splits)

end
