(* ===== verification/EventLoop_Control.thy ===== *)
theory EventLoop_Control
  imports EventLoop_Base
begin

text \<open>
  The control sources of the event loop: fixed slots with a bitmap of pending notifications, one bit per
  slot (\<open>EventLoopControlSource\<close> in \<open>src/src/core/net/EventLoop.cc\<close>). Every operation below is one
  critical section of the control mutex. \<open>notify\<close> also says whether it wakes the loop; the owner-thread
  test and the lock of the weak reference are arguments. \<open>doControlSources\<close> of the loop is made of
  \<open>ControlState_select\<close>, \<open>ControlState_beginCallback\<close> and \<open>ControlState_endCallback\<close>.
\<close>

section \<open>Data\<close>

datatype ControlPhase = CtlAccepting | CtlDraining | CtlShutdown

record ControlSlot =
  sl_callback :: "nat option"
  sl_pendingSince :: timestamp
  sl_generation :: nat
  sl_active :: bool

record EventLoopControlSource =
  src_slot :: nat
  src_generation :: nat

record ControlState =
  ct_loop :: bool
  ct_phase :: ControlPhase
  ct_slots :: "ControlSlot list"
  ct_pendingWords :: "64 word list"
  ct_pendingCount :: nat
  ct_activeCallbackSlot :: nat
  ct_pendingPeak :: nat
  ct_notifications :: nat
  ct_mergedNotifications :: nat
  ct_rejectedNotifications :: nat

abbreviation kNoActiveSlot :: nat where
  "kNoActiveSlot \<equiv> size_max"

definition ControlState_new :: "nat \<Rightarrow> ControlState" where
  "ControlState_new maxSources =
     \<lparr> ct_loop = True, ct_phase = CtlAccepting,
       ct_slots = replicate maxSources \<lparr> sl_callback = None, sl_pendingSince = 0, sl_generation = 0, sl_active = False \<rparr>,
       ct_pendingWords = replicate (maxSources div 64 + (if maxSources mod 64 = 0 then 0 else 1)) 0,
       ct_pendingCount = 0, ct_activeCallbackSlot = kNoActiveSlot, ct_pendingPeak = 0, ct_notifications = 0,
       ct_mergedNotifications = 0, ct_rejectedNotifications = 0 \<rparr>"

section \<open>Operations\<close>

definition ct_reject :: "ControlState \<Rightarrow> ControlState" where
  "ct_reject c = c\<lparr> ct_rejectedNotifications := u64_inc (ct_rejectedNotifications c) \<rparr>"

definition slot_mask :: "nat \<Rightarrow> 64 word" where
  "slot_mask slot = push_bit (slot mod 64) 1"

definition EventLoopControlSource_notify ::
    "bool \<Rightarrow> bool \<Rightarrow> timestamp \<Rightarrow> EventLoopControlSource \<Rightarrow> ControlState \<Rightarrow> (PostResult \<times> bool) \<times> ControlState" where
  "EventLoopControlSource_notify alive inLoopThread now src c =
     (if \<not> alive then ((PostOwnerUnavailable, False), c)
      else if src_slot src \<ge> length (ct_slots c) then ((PostOwnerUnavailable, False), ct_reject c)
      else let slot = ct_slots c ! src_slot src in
           if \<not> sl_active slot \<or> sl_generation slot \<noteq> src_generation src \<or> \<not> ct_loop c
           then ((PostOwnerUnavailable, False), ct_reject c)
           else let isDrainingSelfRearm = (ct_phase c = CtlDraining \<and> inLoopThread \<and> ct_activeCallbackSlot c = src_slot src) in
                if ct_phase c = CtlShutdown \<or> (ct_phase c = CtlDraining \<and> \<not> isDrainingSelfRearm)
                then ((PostShutdown, False), ct_reject c)
                else let wordIndex = src_slot src div 64; mask = slot_mask (src_slot src);
                         alreadyPending = (ct_pendingWords c ! wordIndex AND mask \<noteq> 0);
                         c1 = c\<lparr> ct_notifications := u64_inc (ct_notifications c) \<rparr>
                     in if alreadyPending
                        then ((PostAccepted, False), c1\<lparr> ct_mergedNotifications := u64_inc (ct_mergedNotifications c1) \<rparr>)
                        else ((PostAccepted, True),
                              c1\<lparr> ct_pendingWords := (ct_pendingWords c)[wordIndex := ct_pendingWords c ! wordIndex OR mask],
                                  ct_slots := (ct_slots c)[src_slot src := slot\<lparr> sl_pendingSince := now \<rparr>],
                                  ct_pendingCount := ct_pendingCount c + 1,
                                  ct_pendingPeak := max (ct_pendingPeak c) (ct_pendingCount c + 1) \<rparr>))"

text \<open>The search for a free slot in \<open>registerControlSource\<close>.\<close>

fun registerLoop :: "nat \<Rightarrow> nat list \<Rightarrow> ControlState \<Rightarrow> EventLoopControlSource outcome \<times> ControlState" where
  "registerLoop callback [] c = (Inl LengthError, c)"
| "registerLoop callback (slotIndex # rest) c =
     (let slot = ct_slots c ! slotIndex in
      if sl_active slot then registerLoop callback rest c
      else let slot' = slot\<lparr> sl_generation := gen_inc (sl_generation slot), sl_callback := Some callback, sl_active := True \<rparr>
           in (Inr \<lparr> src_slot = slotIndex, src_generation = sl_generation slot' \<rparr>,
               c\<lparr> ct_slots := (ct_slots c)[slotIndex := slot'] \<rparr>))"

definition EventLoop_registerControlSource ::
    "bool \<Rightarrow> nat option \<Rightarrow> ControlState \<Rightarrow> EventLoopControlSource outcome \<times> ControlState" where
  "EventLoop_registerControlSource looping cb c =
     (if looping then (Inl LogicError, c)
      else case cb of
        None \<Rightarrow> (Inl InvalidArgument, c)
      | Some callback \<Rightarrow>
          if ct_phase c \<noteq> CtlAccepting then (Inl LogicError, c)
          else registerLoop callback [0..<length (ct_slots c)] c)"

text \<open>\<open>ours\<close>: the source's weak reference still leads to this loop's state.\<close>

definition EventLoop_unregisterControlSource :: "bool \<Rightarrow> EventLoopControlSource \<Rightarrow> ControlState \<Rightarrow> ControlState" where
  "EventLoop_unregisterControlSource ours src c =
     (if \<not> ours \<or> src_slot src \<ge> length (ct_slots c) then c
      else let slot = ct_slots c ! src_slot src in
           if \<not> sl_active slot \<or> sl_generation slot \<noteq> src_generation src then c
           else let wordIndex = src_slot src div 64; mask = slot_mask (src_slot src);
                    c1 = (if ct_pendingWords c ! wordIndex AND mask \<noteq> 0
                          then c\<lparr> ct_pendingWords := (ct_pendingWords c)[wordIndex := ct_pendingWords c ! wordIndex AND NOT mask],
                                  ct_pendingCount := sz_sub (ct_pendingCount c) 1 \<rparr>
                          else c)
                in c1\<lparr> ct_slots := (ct_slots c)[src_slot src := slot\<lparr> sl_callback := None, sl_active := False,
                                                                 sl_generation := gen_inc (sl_generation slot) \<rparr>] \<rparr>)"

section \<open>The drain\<close>

text \<open>The variables of the selection loop of \<open>doControlSources\<close>.\<close>

record ControlSelection =
  cn_control :: ControlState
  cn_drainWords :: "64 word list"
  cn_selectedCount :: nat
  cn_oldestPending :: timestamp

text \<open>The body of the inner loop for one bit.\<close>

definition selectBit :: "nat \<Rightarrow> nat \<Rightarrow> ControlSelection \<Rightarrow> ControlSelection" where
  "selectBit wordIndex bitIndex s =
     (let c = cn_control s; mask = push_bit bitIndex 1; slotIndex = wordIndex * 64 + bitIndex;
          pendingSince = sl_pendingSince (ct_slots c ! slotIndex)
      in s\<lparr> cn_control :=
              c\<lparr> ct_pendingWords := (ct_pendingWords c)[wordIndex := ct_pendingWords c ! wordIndex AND NOT mask],
                 ct_pendingCount := sz_sub (ct_pendingCount c) 1,
                 ct_slots := (ct_slots c)[slotIndex := (ct_slots c ! slotIndex)\<lparr> sl_pendingSince := 0 \<rparr>] \<rparr>,
            cn_drainWords := (cn_drainWords s)[wordIndex := cn_drainWords s ! wordIndex OR mask],
            cn_selectedCount := cn_selectedCount s + 1,
            cn_oldestPending := (if cn_oldestPending s = 0 \<or> pendingSince < cn_oldestPending s then pendingSince
                                 else cn_oldestPending s) \<rparr>)"

lemma clear_lowest_less: "w \<noteq> 0 \<Longrightarrow> unat (w AND (w - 1)) < unat (w :: 64 word)"
proof -
  assume "w \<noteq> 0"
  have "w AND (w - 1) \<le> w - 1" by (rule word_and_le1)
  moreover have "w - 1 < w" using \<open>w \<noteq> 0\<close> by (simp add: word_less_nat_alt unat_gt_0 unat_minus_one)
  ultimately show ?thesis by (simp add: word_less_nat_alt word_le_nat_alt)
qed

function selectWord :: "nat \<Rightarrow> nat \<Rightarrow> 64 word \<Rightarrow> ControlSelection \<Rightarrow> ControlSelection" where
  "selectWord budget wordIndex available s =
     (if available \<noteq> 0 \<and> cn_selectedCount s < budget
      then selectWord budget wordIndex (available AND (available - 1)) (selectBit wordIndex (countr_zero available) s)
      else s)"
  by pat_completeness auto
termination by (relation "measure (\<lambda>(_, _, available, _). unat available)") (auto intro: clear_lowest_less)

declare selectWord.simps [simp del]

fun selectWords :: "nat \<Rightarrow> nat list \<Rightarrow> ControlSelection \<Rightarrow> ControlSelection" where
  "selectWords budget [] s = s"
| "selectWords budget (wordIndex # rest) s =
     (if cn_selectedCount s < budget
      then selectWords budget rest (selectWord budget wordIndex (ct_pendingWords (cn_control s) ! wordIndex) s)
      else s)"

text \<open>The first critical section: it returns the peak it resets and the selection.\<close>

definition ControlState_select :: "nat \<Rightarrow> ControlState \<Rightarrow> nat \<times> ControlSelection" where
  "ControlState_select budget c =
     (ct_pendingPeak c,
      selectWords budget [0..<length (ct_pendingWords c)]
        \<lparr> cn_control = c\<lparr> ct_pendingPeak := 0 \<rparr>, cn_drainWords = replicate (length (ct_pendingWords c)) 0,
          cn_selectedCount = 0, cn_oldestPending = 0 \<rparr>)"

definition ControlState_beginCallback :: "nat \<Rightarrow> ControlState \<Rightarrow> nat option \<times> ControlState" where
  "ControlState_beginCallback slotIndex c =
     (if slotIndex \<ge> length (ct_slots c) then (None, c)
      else let slot = ct_slots c ! slotIndex in
           case sl_callback slot of
             None \<Rightarrow> (None, c)
           | Some callback \<Rightarrow>
               if \<not> sl_active slot then (None, c) else (Some callback, c\<lparr> ct_activeCallbackSlot := slotIndex \<rparr>))"

definition ControlState_endCallback :: "nat \<Rightarrow> ControlState \<Rightarrow> ControlState" where
  "ControlState_endCallback slotIndex c =
     (if ct_activeCallbackSlot c = slotIndex then c\<lparr> ct_activeCallbackSlot := kNoActiveSlot \<rparr> else c)"

definition ControlState_quit :: "ControlState \<Rightarrow> ControlState" where
  "ControlState_quit c = (if ct_phase c = CtlShutdown then c else c\<lparr> ct_phase := CtlDraining \<rparr>)"

definition ControlState_shutdown :: "ControlState \<Rightarrow> ControlState" where
  "ControlState_shutdown c = c\<lparr> ct_phase := CtlShutdown \<rparr>"

section \<open>The bitmap as a set of slots\<close>

definition ct_isPending :: "ControlState \<Rightarrow> nat \<Rightarrow> bool" where
  "ct_isPending c i \<longleftrightarrow> bit (ct_pendingWords c ! (i div 64)) (i mod 64)"

text \<open>The pending slots in ascending order.\<close>

definition ct_pending :: "ControlState \<Rightarrow> nat list" where
  "ct_pending c = filter (ct_isPending c) [0..<64 * length (ct_pendingWords c)]"

definition slot_ok :: "ControlSlot \<Rightarrow> bool" where
  "slot_ok s \<longleftrightarrow> sl_generation s < 2 ^ 64 \<and> (sl_active s \<longleftrightarrow> sl_callback s \<noteq> None) \<and> (sl_active s \<longrightarrow> sl_generation s \<noteq> 0)"

definition ct_inv :: "ControlState \<Rightarrow> bool" where
  "ct_inv c \<longleftrightarrow>
     length (ct_slots c) \<le> kMaxControlSources \<and> length (ct_slots c) \<le> 64 * length (ct_pendingWords c) \<and>
     (\<forall>i \<in> set (ct_pending c). i < length (ct_slots c) \<and> sl_active (ct_slots c ! i)) \<and>
     ct_pendingCount c = length (ct_pending c) \<and>
     (\<forall>s \<in> set (ct_slots c). slot_ok s)"

lemma ct_pending_iff: "i \<in> set (ct_pending c) \<longleftrightarrow> i < 64 * length (ct_pendingWords c) \<and> ct_isPending c i"
  by (auto simp: ct_pending_def)

lemma ct_pending_sorted: "sorted (ct_pending c)" "distinct (ct_pending c)"
  by (simp_all add: ct_pending_def sorted_wrt_filter)

lemma ct_pending_eqI: "sorted xs \<Longrightarrow> distinct xs \<Longrightarrow> set xs = set (ct_pending c) \<Longrightarrow> ct_pending c = xs"
  using ct_pending_sorted[of c] by (metis sorted_distinct_set_unique)

lemma slot_mask_bit: "bit (slot_mask i) j \<longleftrightarrow> j = i mod 64"
proof -
  have "i mod 64 < 64" by simp
  then show ?thesis by (auto simp: slot_mask_def push_bit_of_1 bit_exp_iff)
qed

lemma slot_mask_test: "w AND slot_mask i \<noteq> 0 \<longleftrightarrow> bit w (i mod 64)"
  by (simp add: slot_mask_def push_bit_of_1 and_exp_eq_0_iff_not_bit)

lemma same_slot: "i div 64 = k div 64 \<and> k mod 64 = i mod 64 \<longleftrightarrow> (k = (i :: nat))"
  by (metis div_mult_mod_eq)

text \<open>Setting and clearing the bit of a slot.\<close>

lemma isPending_set:
  assumes "ct_pendingWords c' = (ct_pendingWords c)[i div 64 := ct_pendingWords c ! (i div 64) OR slot_mask i]"
    "i div 64 < length (ct_pendingWords c)"
  shows "ct_isPending c' k \<longleftrightarrow> k = i \<or> ct_isPending c k"
  using assms same_slot[of i k] by (cases "k div 64 = i div 64") (auto simp: ct_isPending_def bit_or_iff slot_mask_bit nth_list_update)

lemma isPending_clear:
  assumes "ct_pendingWords c' = (ct_pendingWords c)[i div 64 := ct_pendingWords c ! (i div 64) AND NOT (slot_mask i)]"
    "i div 64 < length (ct_pendingWords c)"
  shows "ct_isPending c' k \<longleftrightarrow> k \<noteq> i \<and> ct_isPending c k"
proof (cases "k div 64 = i div 64")
  case True
  have "k mod 64 < 64" by simp
  with True show ?thesis using assms same_slot[of i k]
    by (auto simp: ct_isPending_def bit_and_iff bit_not_iff slot_mask_bit)
next
  case False
  then show ?thesis using assms by (auto simp: ct_isPending_def nth_list_update)
qed

lemma pending_insert:
  assumes "\<And>k. ct_isPending c' k \<longleftrightarrow> k = i \<or> ct_isPending c k" "length (ct_pendingWords c') = length (ct_pendingWords c)"
    "i < 64 * length (ct_pendingWords c)"
  shows "set (ct_pending c') = insert i (set (ct_pending c))"
    "length (ct_pending c') = (if i \<in> set (ct_pending c) then length (ct_pending c) else Suc (length (ct_pending c)))"
proof -
  show s: "set (ct_pending c') = insert i (set (ct_pending c))" using assms by (auto simp: ct_pending_iff)
  have "length (ct_pending c') = card (set (ct_pending c'))" "length (ct_pending c) = card (set (ct_pending c))"
    by (simp_all add: distinct_card ct_pending_sorted)
  then show "length (ct_pending c') = (if i \<in> set (ct_pending c) then length (ct_pending c) else Suc (length (ct_pending c)))"
    by (simp add: s card_insert_if)
qed

lemma pending_delete:
  assumes "\<And>k. ct_isPending c' k \<longleftrightarrow> k \<noteq> i \<and> ct_isPending c k" "length (ct_pendingWords c') = length (ct_pendingWords c)"
  shows "ct_pending c' = filter (\<lambda>k. k \<noteq> i) (ct_pending c)"
    "length (ct_pending c') = (if i \<in> set (ct_pending c) then length (ct_pending c) - 1 else length (ct_pending c))"
proof -
  show f: "ct_pending c' = filter (\<lambda>k. k \<noteq> i) (ct_pending c)"
    using assms by (simp add: ct_pending_def filter_filter) (rule filter_cong; auto)
  have "length (ct_pending c') = card (set (ct_pending c'))" "length (ct_pending c) = card (set (ct_pending c))"
    by (simp_all add: distinct_card ct_pending_sorted)
  moreover have "set (ct_pending c') = set (ct_pending c) - {i}" using f by auto
  ultimately show "length (ct_pending c') = (if i \<in> set (ct_pending c) then length (ct_pending c) - 1 else length (ct_pending c))"
    by (simp add: card_Diff_singleton_if)
qed

lemma slot_word: "i < length (ct_slots c) \<Longrightarrow> ct_inv c \<Longrightarrow> i div 64 < length (ct_pendingWords c)"
  by (simp add: ct_inv_def) linarith

lemma update_slot_ok: "\<forall>s \<in> set xs. slot_ok s \<Longrightarrow> slot_ok x \<Longrightarrow> y \<in> set (xs[i := x]) \<Longrightarrow> slot_ok y"
  using set_update_subset_insert[of xs i x] by blast

section \<open>Operations on the set of pending slots\<close>

lemma ControlState_new_inv: "n \<le> kMaxControlSources \<Longrightarrow> ct_inv (ControlState_new n) \<and> ct_pending (ControlState_new n) = []"
proof -
  assume n: "n \<le> kMaxControlSources"
  have w: "n \<le> 64 * (n div 64 + (if n mod 64 = 0 then 0 else 1))" by simp presburger
  have "ct_isPending (ControlState_new n) k = False" if "k < 64 * length (ct_pendingWords (ControlState_new n))" for k
  proof -
    have "k div 64 < length (ct_pendingWords (ControlState_new n))" using that by linarith
    then show ?thesis by (simp add: ct_isPending_def ControlState_new_def)
  qed
  then have "ct_pending (ControlState_new n) = []" unfolding ct_pending_def by (simp add: filter_empty_conv)
  then show ?thesis using n w by (auto simp: ct_inv_def ControlState_new_def slot_ok_def)
qed

lemma ct_touch:
  assumes inv: "ct_inv c" and "ct_pendingWords c' = ct_pendingWords c" "ct_pendingCount c' = ct_pendingCount c" "ct_slots c' = ct_slots c"
  shows "ct_inv c' \<and> ct_pending c' = ct_pending c"
proof -
  have "ct_isPending c' = ct_isPending c" using assms by (simp add: ct_isPending_def fun_eq_iff)
  then have "ct_pending c' = ct_pending c" using assms by (simp add: ct_pending_def)
  then show ?thesis using assms by (simp add: ct_inv_def)
qed

text \<open>Whether a source may still be notified.\<close>

definition ct_live :: "EventLoopControlSource \<Rightarrow> ControlState \<Rightarrow> bool" where
  "ct_live src c \<longleftrightarrow> src_slot src < length (ct_slots c) \<and> sl_active (ct_slots c ! src_slot src) \<and>
     sl_generation (ct_slots c ! src_slot src) = src_generation src \<and> ct_loop c"

lemma ct_notify:
  assumes inv: "ct_inv c" and n: "EventLoopControlSource_notify alive inLoop now src c = ((r, wake), c')"
  shows "ct_inv c' \<and>
    (r = PostAccepted \<longleftrightarrow> alive \<and> ct_live src c \<and>
       (ct_phase c = CtlAccepting \<or> (ct_phase c = CtlDraining \<and> inLoop \<and> ct_activeCallbackSlot c = src_slot src))) \<and>
    (if r = PostAccepted then set (ct_pending c') = insert (src_slot src) (set (ct_pending c)) \<and> (wake \<longleftrightarrow> src_slot src \<notin> set (ct_pending c))
     else ct_pending c' = ct_pending c \<and> \<not> wake) \<and>
    ct_phase c' = ct_phase c \<and> ct_activeCallbackSlot c' = ct_activeCallbackSlot c \<and> ct_loop c' = ct_loop c \<and>
    map sl_active (ct_slots c') = map sl_active (ct_slots c) \<and> map sl_generation (ct_slots c') = map sl_generation (ct_slots c)"
proof (cases "alive \<and> ct_live src c \<and> (ct_phase c = CtlAccepting \<or> (ct_phase c = CtlDraining \<and> inLoop \<and> ct_activeCallbackSlot c = src_slot src))")
  case False
  then have "c' = c \<or> c' = ct_reject c" "r \<noteq> PostAccepted" "\<not> wake"
    using n by (cases "ct_phase c"; auto simp: EventLoopControlSource_notify_def Let_def ct_live_def split: if_splits)+
  then show ?thesis using inv ct_touch[OF inv, of c'] False by (auto simp: ct_reject_def)
next
  case True
  let ?i = "src_slot src"
  have i: "?i < length (ct_slots c)" and a: "sl_active (ct_slots c ! ?i)" using True by (simp_all add: ct_live_def)
  have w: "?i div 64 < length (ct_pendingWords c)" using slot_word[OF i inv] .
  have test: "(ct_pendingWords c ! (?i div 64) AND slot_mask ?i \<noteq> 0) \<longleftrightarrow> ?i \<in> set (ct_pending c)"
    using w by (simp add: slot_mask_test ct_pending_iff ct_isPending_def) linarith
  show ?thesis
  proof (cases "?i \<in> set (ct_pending c)")
    case P: True
    have "((r, wake), c') = ((PostAccepted, False), c\<lparr> ct_notifications := u64_inc (ct_notifications c),
        ct_mergedNotifications := u64_inc (ct_mergedNotifications c) \<rparr>)"
      using n True test P by (auto simp: EventLoopControlSource_notify_def Let_def ct_live_def split: if_splits)
    then show ?thesis using ct_touch[OF inv, of c'] True P by (simp add: insert_absorb)
  next
    case P: False
    have e: "((r, wake), c') = ((PostAccepted, True), c\<lparr> ct_notifications := u64_inc (ct_notifications c),
        ct_pendingWords := (ct_pendingWords c)[?i div 64 := ct_pendingWords c ! (?i div 64) OR slot_mask ?i],
        ct_slots := (ct_slots c)[?i := (ct_slots c ! ?i)\<lparr> sl_pendingSince := now \<rparr>],
        ct_pendingCount := ct_pendingCount c + 1, ct_pendingPeak := max (ct_pendingPeak c) (ct_pendingCount c + 1) \<rparr>)"
      using n True test P by (auto simp: EventLoopControlSource_notify_def Let_def ct_live_def split: if_splits)
    have len: "length (ct_pendingWords c') = length (ct_pendingWords c)" using e by simp
    have "ct_isPending c' k \<longleftrightarrow> k = ?i \<or> ct_isPending c k" for k using isPending_set[of c' c ?i k] e w by simp
    note p = pending_insert[OF this len]
    have lt: "?i < 64 * length (ct_pendingWords c)" using w by linarith
    have s: "ct_slots c' = (ct_slots c)[?i := (ct_slots c ! ?i)\<lparr> sl_pendingSince := now \<rparr>]" using e by simp
    have act: "map sl_active (ct_slots c') = map sl_active (ct_slots c)" "map sl_generation (ct_slots c') = map sl_generation (ct_slots c)"
      using i by (auto simp: s map_update list_update_same_conv)
    have "ct_inv c'"
    proof -
      have "\<forall>j \<in> set (ct_pending c'). j < length (ct_slots c') \<and> sl_active (ct_slots c' ! j)"
        using inv p(1)[OF lt] a i by (auto simp: ct_inv_def s nth_list_update)
      moreover have "slot_ok ((ct_slots c ! ?i)\<lparr> sl_pendingSince := now \<rparr>)" using inv nth_mem[OF i] by (simp add: ct_inv_def slot_ok_def)
      then have "\<forall>x \<in> set (ct_slots c'). slot_ok x" using inv unfolding s ct_inv_def by (blast intro: update_slot_ok)
      ultimately show ?thesis using inv e p(2)[OF lt] P len by (simp add: ct_inv_def)
    qed
    then show ?thesis using e p(1)[OF lt] act True P by simp
  qed
qed

lemma ct_unregister:
  fixes c :: ControlState and ours :: bool and src :: EventLoopControlSource
  assumes inv: "ct_inv c"
  defines "c' \<equiv> EventLoop_unregisterControlSource ours src c"
  defines "hit \<equiv> ours \<and> src_slot src < length (ct_slots c) \<and> sl_active (ct_slots c ! src_slot src) \<and>
      sl_generation (ct_slots c ! src_slot src) = src_generation src"
  shows "ct_inv c' \<and> ct_pending c' = (if hit then filter (\<lambda>k. k \<noteq> src_slot src) (ct_pending c) else ct_pending c) \<and>
    ct_phase c' = ct_phase c \<and> ct_activeCallbackSlot c' = ct_activeCallbackSlot c \<and> \<not> (ours \<and> ct_live src c')"
proof (cases hit)
  case False
  then have "c' = c" by (auto simp: c'_def hit_def EventLoop_unregisterControlSource_def Let_def)
  then show ?thesis using inv False by (auto simp: ct_live_def hit_def)
next
  case True
  let ?i = "src_slot src"
  have i: "?i < length (ct_slots c)" using True by (simp add: hit_def)
  have w: "?i div 64 < length (ct_pendingWords c)" using slot_word[OF i inv] .
  have test: "(ct_pendingWords c ! (?i div 64) AND slot_mask ?i \<noteq> 0) \<longleftrightarrow> ?i \<in> set (ct_pending c)"
    using w by (simp add: slot_mask_test ct_pending_iff ct_isPending_def) linarith
  let ?slot = "(ct_slots c ! ?i)\<lparr> sl_callback := None, sl_active := False, sl_generation := gen_inc (sl_generation (ct_slots c ! ?i)) \<rparr>"
  have s: "ct_slots c' = (ct_slots c)[?i := ?slot]" and ph: "ct_phase c' = ct_phase c" "ct_activeCallbackSlot c' = ct_activeCallbackSlot c"
    using True by (simp_all add: c'_def hit_def EventLoop_unregisterControlSource_def Let_def)
  have lt: "?i < 64 * length (ct_pendingWords c)" using w by linarith
  then have "\<not> ct_isPending c ?i" if "?i \<notin> set (ct_pending c)" using that by (simp add: ct_pending_iff)
  then have k: "ct_isPending c' k \<longleftrightarrow> k \<noteq> ?i \<and> ct_isPending c k" for k
    using True test isPending_clear[of c' c ?i k] w
    by (cases "?i \<in> set (ct_pending c)")
      (auto simp: c'_def hit_def EventLoop_unregisterControlSource_def Let_def ct_isPending_def)
  have len: "length (ct_pendingWords c') = length (ct_pendingWords c)"
    using True by (simp add: c'_def hit_def EventLoop_unregisterControlSource_def Let_def)
  note p = pending_delete[OF k len]
  have cnt: "ct_pendingCount c' = length (ct_pending c')"
  proof (cases "?i \<in> set (ct_pending c)")
    case True
    then have "length (ct_pending c) \<ge> 1" by (cases "ct_pending c") auto
    then show ?thesis using True \<open>hit\<close> test inv p(2)
      by (simp add: c'_def hit_def EventLoop_unregisterControlSource_def Let_def ct_inv_def)
  next
    case False
    then show ?thesis using \<open>hit\<close> test inv p(2)
      by (simp add: c'_def hit_def EventLoop_unregisterControlSource_def Let_def ct_inv_def)
  qed
  have "gen_inc g < 2 ^ 64" for g by (simp add: gen_inc_def Let_def u64_inc_def)
  then have ok: "slot_ok ?slot" by (simp add: slot_ok_def)
  have "\<forall>x \<in> set (ct_slots c'). slot_ok x" using inv ok unfolding s ct_inv_def by (blast intro: update_slot_ok)
  moreover have "\<forall>j \<in> set (ct_pending c'). j < length (ct_slots c') \<and> sl_active (ct_slots c' ! j)"
    using inv p(1) by (auto simp: ct_inv_def s)
  ultimately have "ct_inv c'" using inv cnt len unfolding ct_inv_def by (simp add: s)
  moreover have "\<not> ct_live src c'" using i by (simp add: ct_live_def s)
  ultimately show ?thesis using p(1) ph True by simp
qed

lemma ct_registerLoop:
  assumes inv: "ct_inv c" and idx: "\<forall>i \<in> set ixs. i < length (ct_slots c)"
  shows "registerLoop cb ixs c = (r, c') \<Longrightarrow> ct_inv c' \<and> ct_pending c' = ct_pending c \<and> ct_phase c' = ct_phase c \<and>
    (case r of Inl e \<Rightarrow> c' = c \<and> (\<forall>i \<in> set ixs. sl_active (ct_slots c ! i))
     | Inr src \<Rightarrow> src_slot src \<in> set ixs \<and> \<not> sl_active (ct_slots c ! src_slot src) \<and> ct_loop c' = ct_loop c \<and> (ct_loop c \<longrightarrow> ct_live src c') \<and>
         src_generation src \<noteq> 0 \<and> src_generation src \<noteq> sl_generation (ct_slots c ! src_slot src) \<and>
         sl_callback (ct_slots c' ! src_slot src) = Some cb)"
  using idx
proof (induction ixs)
  case (Cons i ixs)
  have i: "i < length (ct_slots c)" using Cons.prems by simp
  show ?case
  proof (cases "sl_active (ct_slots c ! i)")
    case True
    then show ?thesis using Cons by (auto simp: Let_def split: sum.splits)
  next
    case False
    let ?slot = "(ct_slots c ! i)\<lparr> sl_generation := gen_inc (sl_generation (ct_slots c ! i)), sl_callback := Some cb, sl_active := True \<rparr>"
    have e: "r = Inr \<lparr> src_slot = i, src_generation = gen_inc (sl_generation (ct_slots c ! i)) \<rparr>" "c' = c\<lparr> ct_slots := (ct_slots c)[i := ?slot] \<rparr>"
      using Cons.prems(1) False by (simp_all add: Let_def)
    have g: "sl_generation (ct_slots c ! i) < 2 ^ 64" using inv nth_mem[OF i] by (simp add: ct_inv_def slot_ok_def)
    have "gen_inc x < 2 ^ 64" for x by (simp add: gen_inc_def Let_def u64_inc_def)
    then have ok: "slot_ok ?slot" using gen_inc_pos by (simp add: slot_ok_def)
    have "ct_isPending c' = ct_isPending c" by (simp add: e ct_isPending_def fun_eq_iff)
    then have p: "ct_pending c' = ct_pending c" by (simp add: e ct_pending_def)
    have "\<forall>x \<in> set (ct_slots c'). slot_ok x" using inv ok unfolding e ct_inv_def by (auto intro: update_slot_ok)
    moreover have "\<forall>j \<in> set (ct_pending c'). j < length (ct_slots c') \<and> sl_active (ct_slots c' ! j)"
    proof
      fix j assume "j \<in> set (ct_pending c')"
      then have "j < length (ct_slots c)" "sl_active (ct_slots c ! j)" using inv by (auto simp: p ct_inv_def)
      then show "j < length (ct_slots c') \<and> sl_active (ct_slots c' ! j)" using False by (cases "j = i") (simp_all add: e)
    qed
    ultimately have "ct_inv c'" using inv p unfolding ct_inv_def by (simp add: e)
    then show ?thesis using e p i False gen_inc_pos gen_inc_neq[OF g] by (auto simp: ct_live_def)
  qed
qed (use inv in auto)

section \<open>The selection of a drain\<close>

definition word_bits :: "64 word \<Rightarrow> nat list" where
  "word_bits w = filter (bit w) [0..<64]"

lemma word_bits_0 [simp]: "word_bits 0 = []"
  by (simp add: word_bits_def)

lemma word_bits_lowest: "w \<noteq> 0 \<Longrightarrow> word_bits w = countr_zero w # word_bits (w AND (w - 1))"
proof -
  assume w: "w \<noteq> 0"
  note k = countr_zero[OF w]
  have split: "[0..<64] = [0..<countr_zero w] @ countr_zero w # [Suc (countr_zero w)..<64]"
    using k(1) upt_add_eq_append[of 0 "countr_zero w" "64 - countr_zero w"] by (simp add: upt_conv_Cons)
  have low: "filter (bit w) [0..<countr_zero w] = []" "filter (bit (w AND (w - 1))) [0..<countr_zero w] = []"
    using k(3) by (auto simp: filter_empty_conv bit_clear_lowest[OF w])
  have high: "filter (bit (w AND (w - 1))) [Suc (countr_zero w)..<64] = filter (bit w) [Suc (countr_zero w)..<64]"
    by (rule filter_cong) (auto simp: bit_clear_lowest[OF w])
  have no: "\<not> bit (w AND (w - 1)) (countr_zero w)" by (simp add: bit_clear_lowest[OF w])
  show ?thesis unfolding word_bits_def split filter_append filter.simps low high using k(2) no by simp
qed

definition selectSlot :: "nat \<Rightarrow> ControlSelection \<Rightarrow> ControlSelection" where
  "selectSlot i = selectBit (i div 64) (i mod 64)"

lemma selectWord_fold:
  "selectWord budget w available s =
     fold (\<lambda>b. selectBit w b) (take (budget - cn_selectedCount s) (word_bits available)) s"
proof (induction budget w available s rule: selectWord.induct)
  case (1 budget w available s)
  show ?case
  proof (cases "available \<noteq> 0 \<and> cn_selectedCount s < budget")
    case True
    then have "budget - cn_selectedCount s = Suc (budget - Suc (cn_selectedCount s))" by (simp add: Suc_diff_Suc)
    moreover have "cn_selectedCount (selectBit w (countr_zero available) s) = Suc (cn_selectedCount s)"
      by (simp add: selectBit_def Let_def)
    ultimately show ?thesis
      using 1[OF True] True by (subst selectWord.simps) (simp add: word_bits_lowest)
  next
    case False
    then show ?thesis by (subst selectWord.simps) auto
  qed
qed

definition word_slots :: "ControlState \<Rightarrow> nat \<Rightarrow> nat list" where
  "word_slots c w = map (\<lambda>b. w * 64 + b) (word_bits (ct_pendingWords c ! w))"

lemma upt_words: "[0..<64 * n] = concat (map (\<lambda>w. map (\<lambda>b. w * 64 + b) [0..<64]) [0..<n])"
proof (induction n)
  case (Suc n)
  have "[0..<64 * Suc n] = [0..<64 * n] @ [64 * n..<64 * n + 64]" using upt_add_eq_append[of 0 "64 * n" 64] by (simp add: add.commute)
  moreover have "[64 * n..<64 * n + 64] = map (\<lambda>b. n * 64 + b) [0..<64]"
    by (rule nth_equalityI) (simp_all add: mult.commute)
  ultimately show ?case using Suc by simp
qed simp

lemma ct_pending_words: "ct_pending c = concat (map (word_slots c) [0..<length (ct_pendingWords c)])"
proof -
  have "filter (ct_isPending c) (map (\<lambda>b. w * 64 + b) [0..<64]) = word_slots c w" for w
    unfolding filter_map word_slots_def word_bits_def
    by (rule arg_cong[where f = "map _"], rule filter_cong) (auto simp: ct_isPending_def)
  then show ?thesis unfolding ct_pending_def upt_words filter_concat by (simp add: comp_def)
qed

lemma selectBit_simps [simp]:
  "cn_selectedCount (selectBit w b s) = Suc (cn_selectedCount s)"
  "length (ct_pendingWords (cn_control (selectBit w b s))) = length (ct_pendingWords (cn_control s))"
  "w' \<noteq> w \<Longrightarrow> ct_pendingWords (cn_control (selectBit w b s)) ! w' = ct_pendingWords (cn_control s) ! w'"
  by (simp_all add: selectBit_def Let_def)

lemma fold_selectBit [simp]:
  "cn_selectedCount (fold (selectBit w) bs s) = cn_selectedCount s + length bs"
  "w' \<noteq> w \<Longrightarrow> ct_pendingWords (cn_control (fold (selectBit w) bs s)) ! w' = ct_pendingWords (cn_control s) ! w'"
  by (induction bs arbitrary: s) auto

lemma fold_word_slots:
  "(\<forall>b \<in> set bs. b < 64) \<Longrightarrow> fold selectSlot (map (\<lambda>b. w * 64 + b) bs) s = fold (selectBit w) bs s"
  by (induction bs arbitrary: s) (auto simp: selectSlot_def)

lemma selectWords_fold:
  "distinct ws \<Longrightarrow> (\<forall>w \<in> set ws. ct_pendingWords (cn_control s) ! w = ct_pendingWords c ! w) \<Longrightarrow>
   selectWords budget ws s = fold selectSlot (take (budget - cn_selectedCount s) (concat (map (word_slots c) ws))) s"
proof (induction ws arbitrary: s)
  case (Cons w ws)
  show ?case
  proof (cases "cn_selectedCount s < budget")
    case True
    let ?m = "budget - cn_selectedCount s" and ?bits = "word_bits (ct_pendingWords c ! w)"
    let ?s1 = "fold (selectBit w) (take ?m ?bits) s"
    have w: "ct_pendingWords (cn_control s) ! w = ct_pendingWords c ! w" using Cons.prems(2) by simp
    have "selectWords budget (w # ws) s = selectWords budget ws ?s1" using True by (simp add: selectWord_fold w)
    also have "\<dots> = fold selectSlot (take (budget - cn_selectedCount ?s1) (concat (map (word_slots c) ws))) ?s1"
    proof (rule Cons.IH)
      show "distinct ws" using Cons.prems(1) by simp
      show "\<forall>w' \<in> set ws. ct_pendingWords (cn_control ?s1) ! w' = ct_pendingWords c ! w'"
      proof
        fix w' assume w': "w' \<in> set ws"
        then have "w' \<noteq> w" using Cons.prems(1) by auto
        then show "ct_pendingWords (cn_control ?s1) ! w' = ct_pendingWords c ! w'" using Cons.prems(2) w' by simp
      qed
    qed
    finally have e: "selectWords budget (w # ws) s =
      fold selectSlot (take (budget - cn_selectedCount ?s1) (concat (map (word_slots c) ws))) ?s1" .
    have f: "?s1 = fold selectSlot (take ?m (word_slots c w)) s"
      unfolding word_slots_def take_map
      by (rule fold_word_slots[symmetric]) (auto simp: word_bits_def dest: in_set_takeD)
    have g: "budget - cn_selectedCount ?s1 = ?m - length (word_slots c w)" by (auto simp: word_slots_def min_def)
    show ?thesis unfolding e g unfolding f by (simp only: list.map concat.simps take_append fold_append comp_apply)
  next
    case False
    then show ?thesis by simp
  qed
qed simp

text \<open>What the selection does, slot by slot.\<close>

definition selection_ok :: "ControlState \<Rightarrow> nat list \<Rightarrow> ControlSelection \<Rightarrow> bool" where
  "selection_ok c xs s \<longleftrightarrow>
     ct_inv (cn_control s) \<and> ct_pending (cn_control s) = filter (\<lambda>i. i \<notin> set xs) (ct_pending c) \<and>
     ct_phase (cn_control s) = ct_phase c \<and> ct_loop (cn_control s) = ct_loop c \<and>
     ct_activeCallbackSlot (cn_control s) = ct_activeCallbackSlot c \<and>
     map sl_active (ct_slots (cn_control s)) = map sl_active (ct_slots c) \<and>
     map sl_generation (ct_slots (cn_control s)) = map sl_generation (ct_slots c) \<and>
     length (cn_drainWords s) = length (ct_pendingWords c) \<and> length (ct_pendingWords (cn_control s)) = length (ct_pendingWords c) \<and>
     (\<forall>i < 64 * length (ct_pendingWords c). bit (cn_drainWords s ! (i div 64)) (i mod 64) \<longleftrightarrow> i \<in> set xs) \<and>
     cn_selectedCount s = length xs"

lemma selectSlot_ok:
  assumes ok: "selection_ok c xs s" and i: "i \<in> set (ct_pending c)" "i \<notin> set xs"
  shows "selection_ok c (xs @ [i]) (selectSlot i s)"
proof -
  let ?c = "cn_control s" and ?s = "selectSlot i s"
  have inv: "ct_inv ?c" and pen: "ct_pending ?c = filter (\<lambda>i. i \<notin> set xs) (ct_pending c)"
    and lw: "length (ct_pendingWords ?c) = length (ct_pendingWords c)" "length (cn_drainWords s) = length (ct_pendingWords c)"
    using ok by (simp_all add: selection_ok_def)
  have ip: "i \<in> set (ct_pending ?c)" using i pen by simp
  then have il: "i < length (ct_slots ?c)" using inv by (simp add: ct_inv_def)
  have w: "i div 64 < length (ct_pendingWords ?c)" using slot_word[OF il inv] .
  have mask: "2 ^ (i mod 64) = slot_mask i" by (simp add: slot_mask_def push_bit_of_1)
  have at: "i div 64 * 64 + i mod 64 = i" by simp
  define c' where "c' = cn_control ?s"
  have e: "c' = ?c\<lparr> ct_pendingWords := (ct_pendingWords ?c)[i div 64 := ct_pendingWords ?c ! (i div 64) AND NOT (slot_mask i)],
      ct_pendingCount := sz_sub (ct_pendingCount ?c) 1, ct_slots := (ct_slots ?c)[i := (ct_slots ?c ! i)\<lparr> sl_pendingSince := 0 \<rparr>] \<rparr>"
    by (simp add: c'_def selectSlot_def selectBit_def Let_def at mask push_bit_of_1)
  have len: "length (ct_pendingWords c') = length (ct_pendingWords ?c)" by (simp add: e)
  have k: "ct_isPending c' k \<longleftrightarrow> k \<noteq> i \<and> ct_isPending ?c k" for k by (rule isPending_clear[OF _ w]) (simp add: e)
  note p = pending_delete[OF k len]
  have s: "ct_slots c' = (ct_slots ?c)[i := (ct_slots ?c ! i)\<lparr> sl_pendingSince := 0 \<rparr>]" by (simp add: e)
  have act: "map sl_active (ct_slots c') = map sl_active (ct_slots ?c)" "map sl_generation (ct_slots c') = map sl_generation (ct_slots ?c)"
    using il by (auto simp: s map_update list_update_same_conv)
  have "ct_inv c'"
  proof -
    have "slot_ok ((ct_slots ?c ! i)\<lparr> sl_pendingSince := 0 \<rparr>)" using inv nth_mem[OF il] by (simp add: ct_inv_def slot_ok_def)
    then have "\<forall>x \<in> set (ct_slots c'). slot_ok x" using inv unfolding s ct_inv_def by (blast intro: update_slot_ok)
    moreover have "\<forall>j \<in> set (ct_pending c'). j < length (ct_slots c') \<and> sl_active (ct_slots c' ! j)"
      using inv p(1) by (auto simp: ct_inv_def s)
    moreover have "length (ct_pending ?c) \<ge> 1" using ip by (cases "ct_pending ?c") auto
    then have "ct_pendingCount c' = length (ct_pending c')" using inv p(2) ip by (simp add: e ct_inv_def)
    ultimately show ?thesis using inv len unfolding ct_inv_def by (simp add: s)
  qed
  moreover have "ct_pending c' = filter (\<lambda>j. j \<notin> set (xs @ [i])) (ct_pending c)"
    unfolding p(1) pen filter_filter by (rule filter_cong) auto
  moreover have "bit (cn_drainWords ?s ! (j div 64)) (j mod 64) \<longleftrightarrow> j \<in> set (xs @ [i])" if "j < 64 * length (ct_pendingWords c)" for j
  proof -
    have old: "bit (cn_drainWords s ! (j div 64)) (j mod 64) \<longleftrightarrow> j \<in> set xs" using ok that by (simp add: selection_ok_def)
    have "cn_drainWords ?s = (cn_drainWords s)[i div 64 := cn_drainWords s ! (i div 64) OR slot_mask i]"
      by (simp add: selectSlot_def selectBit_def Let_def mask push_bit_of_1)
    moreover have "i div 64 < length (cn_drainWords s)" using w lw by simp
    ultimately have "bit (cn_drainWords ?s ! (j div 64)) (j mod 64) \<longleftrightarrow>
        (j div 64 = i div 64 \<and> j mod 64 = i mod 64) \<or> bit (cn_drainWords s ! (j div 64)) (j mod 64)"
      by (cases "j div 64 = i div 64") (auto simp only: nth_list_update_eq nth_list_update_neq bit_or_iff slot_mask_bit)
    then show ?thesis using old same_slot[of i j] by auto
  qed
  moreover have "cn_selectedCount ?s = length (xs @ [i])" using ok by (simp add: selection_ok_def selectSlot_def)
  moreover have "length (cn_drainWords ?s) = length (ct_pendingWords c)" using lw by (simp add: selectSlot_def selectBit_def Let_def)
  moreover have "ct_phase c' = ct_phase c" "ct_loop c' = ct_loop c" "ct_activeCallbackSlot c' = ct_activeCallbackSlot c"
    using ok by (simp_all add: e selection_ok_def)
  ultimately show ?thesis using ok len lw act unfolding selection_ok_def c'_def[symmetric] by simp
qed

lemma selection_fold:
  "selection_ok c xs s \<Longrightarrow> set ys \<subseteq> set (ct_pending c) \<Longrightarrow> distinct (xs @ ys) \<Longrightarrow> selection_ok c (xs @ ys) (fold selectSlot ys s)"
proof (induction ys arbitrary: xs s)
  case (Cons y ys)
  have "selection_ok c (xs @ [y]) (selectSlot y s)" using selectSlot_ok[OF Cons.prems(1)] Cons.prems(2,3) by simp
  from Cons.IH[OF this] Cons.prems(2,3) show ?case by simp
qed simp

lemma ct_select:
  assumes inv: "ct_inv c"
  shows "\<exists>s. ControlState_select budget c = (ct_pendingPeak c, s) \<and> selection_ok c (take budget (ct_pending c)) s"
proof -
  let ?c = "c\<lparr> ct_pendingPeak := 0 \<rparr>"
  let ?s = "\<lparr> cn_control = ?c, cn_drainWords = replicate (length (ct_pendingWords c)) 0, cn_selectedCount = 0, cn_oldestPending = 0 \<rparr>"
  have t: "ct_inv ?c" "ct_pending ?c = ct_pending c" using ct_touch[OF inv, of ?c] by simp_all
  have "\<not> bit (replicate n (0 :: 64 word) ! (i div 64)) (i mod 64)" if "i < 64 * n" for i n
  proof -
    have "i div 64 < n" using that by linarith
    then show ?thesis by simp
  qed
  then have ok: "selection_ok c [] ?s" using t by (simp add: selection_ok_def)
  have "selectWords budget [0..<length (ct_pendingWords c)] ?s = fold selectSlot (take budget (ct_pending c)) ?s"
    using selectWords_fold[of "[0..<length (ct_pendingWords c)]" ?s c budget] by (simp add: ct_pending_words)
  moreover have "selection_ok c ([] @ take budget (ct_pending c)) (fold selectSlot (take budget (ct_pending c)) ?s)"
    by (rule selection_fold[OF ok]) (use ct_pending_sorted(2)[of c] in \<open>auto dest: in_set_takeD\<close>)
  ultimately show ?thesis by (simp add: ControlState_select_def)
qed

end
