(* ===== verification/EventLoop_Lifecycle.thy ===== *)
theory EventLoop_Lifecycle
  imports EventLoop_Base "HOL-Library.AList"
begin

text \<open>
  The lifecycle nodes of the event loop: dynamically attached participants with two intrusive lists, a
  singly linked queue of dirty nodes and a doubly linked list of nodes that quiescing notifies
  (\<open>EventLoopLifecycleSource\<close> in \<open>src/src/core/net/EventLoop.cc\<close>). A \<open>Node*\<close> is an address in
  \<open>ls_heap\<close>, \<open>None\<close> is the null pointer, and \<open>ls_nodes\<close> is the map that owns the nodes. Every operation
  is one critical section of the lifecycle mutex. \<open>doLifecycleNodes\<close> of the loop is made of
  \<open>LifecycleState_popDirty\<close>, the callback, and \<open>LifecycleState_finish\<close>; \<open>LifecycleState_quiesce\<close> is the
  part of \<open>quit\<close> that commits the participants.
\<close>

section \<open>Data\<close>

record LifecycleNode =
  ln_callback :: nat
  ln_pendingSince :: timestamp
  ln_dirtyNext :: "nat option"
  ln_quiescePrevious :: "nat option"
  ln_quiesceNext :: "nat option"
  ln_id :: nat
  ln_generation :: nat
  ln_pendingGeneration :: nat
  ln_attached :: bool
  ln_dirty :: bool
  ln_active :: bool
  ln_notifyOnQuiesce :: bool

record EventLoopLifecycleSource =
  lsrc_node :: nat
  lsrc_generation :: nat

record LifecycleSourceState =
  ls_loop :: bool
  ls_phase :: EventLoopPhase
  ls_maxNodes :: nat
  ls_nextNodeId :: nat
  ls_heap :: "LifecycleNode list"
  ls_nodes :: "(nat \<times> nat) list"
  ls_dirtyHead :: "nat option"
  ls_dirtyTail :: "nat option"
  ls_activeNode :: "nat option"
  ls_quiesceHead :: "nat option"
  ls_quiesceTail :: "nat option"
  ls_activeGeneration :: nat
  ls_attachedCount :: nat
  ls_pendingCount :: nat
  ls_signals :: nat
  ls_mergedSignals :: nat
  ls_rejectedSignals :: nat

definition LifecycleState_new :: "nat \<Rightarrow> LifecycleSourceState" where
  "LifecycleState_new maxNodes =
     \<lparr> ls_loop = True, ls_phase = PhaseRunning, ls_maxNodes = maxNodes, ls_nextNodeId = 1, ls_heap = [], ls_nodes = [],
       ls_dirtyHead = None, ls_dirtyTail = None, ls_activeNode = None, ls_quiesceHead = None, ls_quiesceTail = None,
       ls_activeGeneration = 0, ls_attachedCount = 0, ls_pendingCount = 0, ls_signals = 0, ls_mergedSignals = 0,
       ls_rejectedSignals = 0 \<rparr>"

abbreviation ls_node :: "LifecycleSourceState \<Rightarrow> nat \<Rightarrow> LifecycleNode" where
  "ls_node s a \<equiv> ls_heap s ! a"

definition ls_write :: "nat \<Rightarrow> (LifecycleNode \<Rightarrow> LifecycleNode) \<Rightarrow> LifecycleSourceState \<Rightarrow> LifecycleSourceState" where
  "ls_write a f s = s\<lparr> ls_heap := (ls_heap s)[a := f (ls_node s a)] \<rparr>"

section \<open>Operations\<close>

text \<open>The commit of a node to the dirty queue, as \<open>signal\<close> and \<open>quit\<close> do it.\<close>

definition ls_commit :: "timestamp \<Rightarrow> nat \<Rightarrow> nat \<Rightarrow> LifecycleSourceState \<Rightarrow> LifecycleSourceState" where
  "ls_commit now generation a s =
     (let s1 = ls_write a (\<lambda>n. n\<lparr> ln_dirty := True, ln_pendingSince := now, ln_pendingGeneration := generation,
                                 ln_dirtyNext := None \<rparr>) s;
          s2 = (case ls_dirtyTail s1 of
                  None \<Rightarrow> s1\<lparr> ls_dirtyHead := Some a \<rparr>
                | Some t \<Rightarrow> ls_write t (\<lambda>n. n\<lparr> ln_dirtyNext := Some a \<rparr>) s1)
      in s2\<lparr> ls_dirtyTail := Some a, ls_pendingCount := ls_pendingCount s2 + 1 \<rparr>)"

text \<open>\<open>alive\<close>: both weak references of the source can be locked.\<close>

definition EventLoopLifecycleSource_signal ::
    "bool \<Rightarrow> bool \<Rightarrow> timestamp \<Rightarrow> EventLoopLifecycleSource \<Rightarrow> LifecycleSourceState \<Rightarrow> (PostResult \<times> bool) \<times> LifecycleSourceState" where
  "EventLoopLifecycleSource_signal alive inLoopThread now src s =
     (if \<not> alive then ((PostOwnerUnavailable, False), s)
      else let node = ls_node s (lsrc_node src) in
           if \<not> ls_loop s \<or> \<not> ln_attached node \<or> ln_generation node \<noteq> lsrc_generation src
           then ((PostOwnerUnavailable, False), s\<lparr> ls_rejectedSignals := u64_inc (ls_rejectedSignals s) \<rparr>)
           else let isDrainingSelfSignal =
                      ((ls_phase s = PhaseQuiescing \<or> ls_phase s = PhaseFinalDraining) \<and> inLoopThread \<and>
                       ls_activeNode s = Some (lsrc_node src) \<and> ls_activeGeneration s = lsrc_generation src) in
                if ls_phase s = PhaseShutdown \<or> (ls_phase s \<noteq> PhaseRunning \<and> \<not> isDrainingSelfSignal)
                then ((PostShutdown, False), s\<lparr> ls_rejectedSignals := u64_inc (ls_rejectedSignals s) \<rparr>)
                else let s1 = s\<lparr> ls_signals := u64_inc (ls_signals s) \<rparr>
                     in if ln_dirty node
                        then ((PostAccepted, False), s1\<lparr> ls_mergedSignals := u64_inc (ls_mergedSignals s1) \<rparr>)
                        else ((PostAccepted, True), ls_commit now (lsrc_generation src) (lsrc_node src) s1))"

definition EventLoop_attachLifecycleNode ::
    "bool \<Rightarrow> nat option \<Rightarrow> LifecycleSourceState \<Rightarrow> EventLoopLifecycleSource outcome \<times> LifecycleSourceState" where
  "EventLoop_attachLifecycleNode quiesceParticipant cb s =
     (case cb of
        None \<Rightarrow> (Inl InvalidArgument, s)
      | Some callback \<Rightarrow>
          if ls_phase s \<noteq> PhaseRunning \<or> \<not> ls_loop s then (Inl LogicError, s)
          else if length (ls_nodes s) \<ge> ls_maxNodes s then (Inl LengthError, s)
          else if ls_nextNodeId s = 0 then (Inl OverflowError, s)
          else let a = length (ls_heap s);
                   node = \<lparr> ln_callback = callback, ln_pendingSince = 0, ln_dirtyNext = None, ln_quiescePrevious = None,
                            ln_quiesceNext = None, ln_id = ls_nextNodeId s, ln_generation = 1, ln_pendingGeneration = 0,
                            ln_attached = True, ln_dirty = False, ln_active = False, ln_notifyOnQuiesce = quiesceParticipant \<rparr>;
                   s1 = s\<lparr> ls_heap := ls_heap s @ [node], ls_nextNodeId := u64_inc (ls_nextNodeId s),
                           ls_nodes := AList.update (ln_id node) a (ls_nodes s) \<rparr>;
                   s2 = (if ln_notifyOnQuiesce node
                         then let s2a = ls_write a (\<lambda>n. n\<lparr> ln_quiescePrevious := ls_quiesceTail s1 \<rparr>) s1;
                                  s2b = (case ls_quiesceTail s1 of
                                           None \<Rightarrow> s2a\<lparr> ls_quiesceHead := Some a \<rparr>
                                         | Some t \<Rightarrow> ls_write t (\<lambda>n. n\<lparr> ln_quiesceNext := Some a \<rparr>) s2a)
                              in s2b\<lparr> ls_quiesceTail := Some a \<rparr>
                         else s1)
               in (Inr \<lparr> lsrc_node = a, lsrc_generation = ln_generation node \<rparr>,
                   s2\<lparr> ls_attachedCount := ls_attachedCount s2 + 1 \<rparr>))"

text \<open>The removal of a node from the map that owns it, if it is still there.\<close>

definition ls_retire :: "nat \<Rightarrow> LifecycleSourceState \<Rightarrow> LifecycleSourceState" where
  "ls_retire a s =
     (if map_of (ls_nodes s) (ln_id (ls_node s a)) = Some a
      then s\<lparr> ls_nodes := AList.delete (ln_id (ls_node s a)) (ls_nodes s) \<rparr> else s)"

text \<open>The unlinking of a node from the quiesce list.\<close>

definition ls_unlinkQuiesce :: "nat \<Rightarrow> LifecycleSourceState \<Rightarrow> LifecycleSourceState" where
  "ls_unlinkQuiesce a s =
     (let s1 = (case ln_quiescePrevious (ls_node s a) of
                  None \<Rightarrow> s\<lparr> ls_quiesceHead := ln_quiesceNext (ls_node s a) \<rparr>
                | Some p \<Rightarrow> ls_write p (\<lambda>n. n\<lparr> ln_quiesceNext := ln_quiesceNext (ls_node s a) \<rparr>) s);
          s2 = (case ln_quiesceNext (ls_node s1 a) of
                  None \<Rightarrow> s1\<lparr> ls_quiesceTail := ln_quiescePrevious (ls_node s1 a) \<rparr>
                | Some q \<Rightarrow> ls_write q (\<lambda>n. n\<lparr> ln_quiescePrevious := ln_quiescePrevious (ls_node s1 a) \<rparr>) s1)
      in ls_write a (\<lambda>n. n\<lparr> ln_quiescePrevious := None, ln_quiesceNext := None \<rparr>) s2)"

definition EventLoop_detachLifecycleNode :: "bool \<Rightarrow> EventLoopLifecycleSource \<Rightarrow> LifecycleSourceState \<Rightarrow> LifecycleSourceState" where
  "EventLoop_detachLifecycleNode ours src s =
     (if \<not> ours then s
      else let a = lsrc_node src; node = ls_node s a in
           if \<not> ln_attached node \<or> ln_generation node \<noteq> lsrc_generation src then s
           else let s1 = (ls_write a (\<lambda>n. n\<lparr> ln_attached := False \<rparr>) s)\<lparr> ls_attachedCount := sz_sub (ls_attachedCount s) 1 \<rparr>;
                    s2 = (if ln_notifyOnQuiesce node then ls_unlinkQuiesce a s1 else s1);
                    s3 = ls_write a (\<lambda>n. n\<lparr> ln_generation := gen_inc (ln_generation n) \<rparr>) s2
                in if \<not> ln_dirty (ls_node s3 a) \<and> \<not> ln_active (ls_node s3 a) then ls_retire a s3 else s3)"

text \<open>One round of the loop of \<open>doLifecycleNodes\<close> up to the callback. It returns the node and its callback, nothing
  when the queue is empty, and \<open>Fatal\<close> when the dirty node is not owned.\<close>

definition LifecycleState_popDirty :: "LifecycleSourceState \<Rightarrow> (nat \<times> nat) option outcome \<times> LifecycleSourceState" where
  "LifecycleState_popDirty s =
     (case ls_dirtyHead s of
        None \<Rightarrow> (Inr None, s)
      | Some dirty \<Rightarrow>
          let s1 = s\<lparr> ls_dirtyHead := ln_dirtyNext (ls_node s dirty) \<rparr>;
              s2 = (if ls_dirtyHead s1 = None then s1\<lparr> ls_dirtyTail := None \<rparr> else s1);
              s3 = (ls_write dirty (\<lambda>n. n\<lparr> ln_dirtyNext := None, ln_dirty := False \<rparr>) s2)
                     \<lparr> ls_pendingCount := sz_sub (ls_pendingCount s2) 1 \<rparr>
          in if map_of (ls_nodes s3) (ln_id (ls_node s3 dirty)) \<noteq> Some dirty then (Inl Fatal, s3)
             else let callbackGeneration = ln_pendingGeneration (ls_node s3 dirty);
                      s4 = ls_write dirty (\<lambda>n. n\<lparr> ln_pendingGeneration := 0, ln_pendingSince := 0, ln_active := True \<rparr>) s3
                  in (Inr (Some (dirty, ln_callback (ls_node s4 dirty))),
                      s4\<lparr> ls_activeNode := Some dirty, ls_activeGeneration := callbackGeneration \<rparr>))"

definition LifecycleState_finish :: "nat \<Rightarrow> LifecycleSourceState \<Rightarrow> LifecycleSourceState" where
  "LifecycleState_finish a s =
     (let s1 = ls_write a (\<lambda>n. n\<lparr> ln_active := False \<rparr>) s;
          s2 = (if ls_activeNode s1 = Some a then s1\<lparr> ls_activeNode := None, ls_activeGeneration := 0 \<rparr> else s1)
      in if \<not> ln_attached (ls_node s2 a) \<and> \<not> ln_dirty (ls_node s2 a) then ls_retire a s2 else s2)"

text \<open>The loop of \<open>quit\<close> over the quiesce list. The list is finite and acyclic; the length of the heap bounds the
  number of steps, and \<open>LifecycleState_quiesce\<close> is shown to reach the end within it.\<close>

fun ls_quiesceLoop :: "nat \<Rightarrow> timestamp \<Rightarrow> nat option \<Rightarrow> LifecycleSourceState \<Rightarrow> LifecycleSourceState option" where
  "ls_quiesceLoop fuel now None s = Some s"
| "ls_quiesceLoop 0 now (Some a) s = None"
| "ls_quiesceLoop (Suc fuel) now (Some a) s =
     (let node = ls_node s a;
          s' = (if \<not> ln_attached node then s
                else let s1 = s\<lparr> ls_signals := u64_inc (ls_signals s) \<rparr>
                     in if ln_dirty node then s1\<lparr> ls_mergedSignals := u64_inc (ls_mergedSignals s1) \<rparr>
                        else ls_commit now (ln_generation node) a s1)
      in ls_quiesceLoop fuel now (ln_quiesceNext (ls_node s' a)) s')"

definition LifecycleState_quiesce :: "timestamp \<Rightarrow> LifecycleSourceState \<Rightarrow> LifecycleSourceState option" where
  "LifecycleState_quiesce now s =
     (let s1 = s\<lparr> ls_phase := PhaseQuiescing \<rparr> in ls_quiesceLoop (length (ls_heap s1)) now (ls_quiesceHead s1) s1)"

end
