(* ===== verification/TimerQueue.thy ===== *)
theory TimerQueue
  imports Ordered_Map Dispatch "HOL-Library.Product_Lexorder"
begin

text \<open>
  The timer queue of an event loop: \<open>src/src/core/net/TimerQueue.cc\<close> and its headers. A \<open>TimerPtr\<close> is an
  address in \<open>tq_heap\<close>; \<open>tq_timers\<close> is the map ordered by expiration and sequence and \<open>tq_timersById\<close> the
  index by sequence. The parts that go through the event loop (admission from another thread and the callbacks
  of \<open>handleExpired\<close>) are in the theory of the event loop. A clock tick is a nanosecond.
\<close>

section \<open>Data\<close>

datatype RepeatingTimerMode = FixedDelay | FixedRate

record RepeatingTimerOptions =
  rto_mode :: RepeatingTimerMode
  rto_maxCatchUpCallbacks :: nat

record Timer =
  tm_callback :: nat
  tm_expiration :: timestamp
  tm_interval :: duration
  tm_options :: RepeatingTimerOptions
  tm_consecutiveCatchUpCallbacks :: nat
  tm_sequence :: int
  tm_canceled :: bool
  tm_inQueue :: bool

record TimerQueue =
  tq_nextSequence :: int
  tq_heap :: "Timer list"
  tq_timers :: "((timestamp \<times> int) \<times> nat) list"
  tq_timersById :: "(int \<times> nat) list"

definition TimerQueue_new :: TimerQueue where
  "TimerQueue_new = \<lparr> tq_nextSequence = 1, tq_heap = [], tq_timers = [], tq_timersById = [] \<rparr>"

definition TimerId_valid :: "int \<Rightarrow> bool" where
  "TimerId_valid timerId \<longleftrightarrow> timerId \<noteq> 0"

definition Timer_repeat :: "Timer \<Rightarrow> bool" where
  "Timer_repeat timer \<longleftrightarrow> tm_interval timer > 0"

abbreviation tq_timer :: "TimerQueue \<Rightarrow> nat \<Rightarrow> Timer" where
  "tq_timer q a \<equiv> tq_heap q ! a"

definition tq_write :: "nat \<Rightarrow> (Timer \<Rightarrow> Timer) \<Rightarrow> TimerQueue \<Rightarrow> TimerQueue" where
  "tq_write a f q = q\<lparr> tq_heap := (tq_heap q)[a := f (tq_timer q a)] \<rparr>"

section \<open>Clock arithmetic\<close>

definition int_max :: int where
  "int_max = 2 ^ 31 - 1"

definition ticksPerMillisecond :: duration where
  "ticksPerMillisecond = 1000000"

definition ceilMilliseconds :: "duration \<Rightarrow> int" where
  "ceilMilliseconds delay =
     (if delay \<le> 0 then 0
      else let millisecondsPart = tdiv delay ticksPerMillisecond;
               millisecondsPart' = (if millisecondsPart * ticksPerMillisecond < delay then millisecondsPart + 1 else millisecondsPart);
               capped = min millisecondsPart' int_max
           in max 1 capped)"

text \<open>It returns the next expiration and the new number of consecutive catch-up callbacks.\<close>

definition nextFixedRateExpiration :: "timestamp \<Rightarrow> duration \<Rightarrow> timestamp \<Rightarrow> nat \<Rightarrow> nat \<Rightarrow> timestamp \<times> nat" where
  "nextFixedRateExpiration previousExpiration interval now maxCatchUpCallbacks consecutive =
     (let next = previousExpiration + interval in
      if next > now then (next, 0)
      else if consecutive < maxCatchUpCallbacks then (next, consecutive + 1)
      else let missedIntervals = tdiv (now - next) interval;
               next1 = next + interval * missedIntervals
           in if next1 \<le> now
              then if ts_max - next1 < interval then (ts_max, 0) else (next1 + interval, 0)
              else (next1, 0))"

definition RepeatingTimerOptions_validate :: "RepeatingTimerOptions \<Rightarrow> unit outcome" where
  "RepeatingTimerOptions_validate options =
     (case rto_mode options of
        FixedDelay \<Rightarrow> if rto_maxCatchUpCallbacks options \<noteq> 0 then Inl InvalidArgument else Inr ()
      | FixedRate \<Rightarrow> Inr ())"

section \<open>Operations\<close>

text \<open>The checks of \<open>tryAddTimer\<close> and the construction of the timer; the result is its address.\<close>

definition s64_inc :: "int \<Rightarrow> int" where
  "s64_inc n = (if n = 2 ^ 63 - 1 then - (2 ^ 63) else n + 1)"

definition TimerQueue_makeTimer ::
    "nat option \<Rightarrow> timestamp \<Rightarrow> duration \<Rightarrow> RepeatingTimerOptions \<Rightarrow> TimerQueue \<Rightarrow> nat outcome \<times> TimerQueue" where
  "TimerQueue_makeTimer cb when interval options q =
     (case cb of
        None \<Rightarrow> (Inl InvalidArgument, q)
      | Some callback \<Rightarrow>
          if interval < 0 then (Inl InvalidArgument, q)
          else case RepeatingTimerOptions_validate options of
            Inl e \<Rightarrow> (Inl e, q)
          | Inr _ \<Rightarrow>
              if interval = 0 \<and> (rto_mode options \<noteq> FixedDelay \<or> rto_maxCatchUpCallbacks options \<noteq> 0)
              then (Inl InvalidArgument, q)
              else (Inr (length (tq_heap q)),
                    q\<lparr> tq_heap := tq_heap q @
                         [\<lparr> tm_callback = callback, tm_expiration = when, tm_interval = interval, tm_options = options,
                            tm_consecutiveCatchUpCallbacks = 0, tm_sequence = tq_nextSequence q, tm_canceled = False,
                            tm_inQueue = True \<rparr>],
                       tq_nextSequence := s64_inc (tq_nextSequence q) \<rparr>))"

definition TimerQueue_insert :: "nat \<Rightarrow> TimerQueue \<Rightarrow> bool \<times> TimerQueue" where
  "TimerQueue_insert a q =
     (let key = (tm_expiration (tq_timer q a), tm_sequence (tq_timer q a));
          earliestChanged = (case tq_timers q of [] \<Rightarrow> True | (k, _) # _ \<Rightarrow> key < k);
          q1 = tq_write a (\<lambda>t. t\<lparr> tm_inQueue := True, tm_canceled := False \<rparr>) q
      in (earliestChanged,
          q1\<lparr> tq_timersById := AList.update (snd key) a (tq_timersById q1),
              tq_timers := (if map_of (tq_timers q1) key = None then om_update key a (tq_timers q1) else tq_timers q1) \<rparr>))"

definition TimerQueue_cancelInLoop :: "int \<Rightarrow> TimerQueue \<Rightarrow> TimerQueue" where
  "TimerQueue_cancelInLoop timerId q =
     (case map_of (tq_timersById q) timerId of
        None \<Rightarrow> q
      | Some a \<Rightarrow>
          let q1 = tq_write a (\<lambda>t. t\<lparr> tm_canceled := True \<rparr>) q;
              timer = tq_timer q1 a
          in if tm_inQueue timer
             then (tq_write a (\<lambda>t. t\<lparr> tm_inQueue := False \<rparr>)
                     (q1\<lparr> tq_timers := om_erase (tm_expiration timer, tm_sequence timer) (tq_timers q1) \<rparr>))
                    \<lparr> tq_timersById := AList.delete timerId (tq_timersById q1) \<rparr>
             else q1\<lparr> tq_timersById := AList.delete timerId (tq_timersById q1) \<rparr>)"

definition TimerQueue_pollTimeoutMs :: "timestamp \<Rightarrow> int \<Rightarrow> TimerQueue \<Rightarrow> int" where
  "TimerQueue_pollTimeoutMs now defaultTimeoutMs q =
     (case tq_timers q of
        [] \<Rightarrow> defaultTimeoutMs
      | (_, a) # _ \<Rightarrow> min defaultTimeoutMs (ceilMilliseconds (tm_expiration (tq_timer q a) - now)))"

text \<open>The timers that are due at \<open>now\<close>: the keys up to the sentry.\<close>

definition dueTimers :: "timestamp \<Rightarrow> TimerQueue \<Rightarrow> ((timestamp \<times> int) \<times> nat) list" where
  "dueTimers now q = takeWhile (\<lambda>(k, _). k \<le> (now, 2 ^ 63 - 1)) (tq_timers q)"

fun markExpired :: "nat list \<Rightarrow> TimerQueue \<Rightarrow> TimerQueue" where
  "markExpired [] q = q"
| "markExpired (a # as) q = markExpired as (tq_write a (\<lambda>t. t\<lparr> tm_inQueue := False \<rparr>) q)"

definition TimerQueue_getExpired :: "timestamp \<Rightarrow> nat \<Rightarrow> TimerQueue \<Rightarrow> nat list \<times> TimerQueue" where
  "TimerQueue_getExpired now maxCount q =
     (let expired = map snd (take maxCount (dueTimers now q));
          q1 = markExpired expired q
      in (expired, q1\<lparr> tq_timers := drop (length expired) (tq_timers q1) \<rparr>))"

fun TimerQueue_reset :: "nat list \<Rightarrow> timestamp \<Rightarrow> TimerQueue \<Rightarrow> TimerQueue" where
  "TimerQueue_reset [] now q = q"
| "TimerQueue_reset (a # expired) now q =
     (let timer = tq_timer q a in
      if Timer_repeat timer \<and> \<not> tm_canceled timer \<and> map_of (tq_timersById q) (tm_sequence timer) \<noteq> None
      then let q1 = (if rto_mode (tm_options timer) = FixedRate
                     then case nextFixedRateExpiration (tm_expiration timer) (tm_interval timer) now
                                 (rto_maxCatchUpCallbacks (tm_options timer)) (tm_consecutiveCatchUpCallbacks timer) of
                            (next, consecutive) \<Rightarrow>
                              tq_write a (\<lambda>t. t\<lparr> tm_expiration := next, tm_consecutiveCatchUpCallbacks := consecutive \<rparr>) q
                     else tq_write a (\<lambda>t. t\<lparr> tm_expiration := now + tm_interval t, tm_consecutiveCatchUpCallbacks := 0 \<rparr>) q)
           in TimerQueue_reset expired now (snd (TimerQueue_insert a q1))
      else TimerQueue_reset expired now (q\<lparr> tq_timersById := AList.delete (tm_sequence timer) (tq_timersById q) \<rparr>))"

end
