(* ===== verification/Channel.thy ===== *)
theory Channel
  imports EventLoop_Base
begin

text \<open>
  The channel of a file descriptor: \<open>src/src/core/net/Channel.cc\<close> and its header. This theory has the object,
  its event masks and what \<open>enableReading\<close> and the other mutators do to the mask; \<open>update\<close>, \<open>remove\<close> and
  \<open>handleEvent\<close>, which go through the event loop and the user's callbacks, are in the theory of the event loop.
  The members only the pollers use (\<open>fd_\<close>, \<open>index_\<close>) are part of the I/O engine.
\<close>

section \<open>Data\<close>

definition kNoneEvent :: "32 word" where
  "kNoneEvent = 0"

definition kReadEvent :: "32 word" where
  "kReadEvent = 0x01"

definition kWriteEvent :: "32 word" where
  "kWriteEvent = 0x02"

definition kErrorEvent :: "32 word" where
  "kErrorEvent = 0x04"

definition kCloseEvent :: "32 word" where
  "kCloseEvent = 0x08"

record Channel =
  ch_loop :: nat
  ch_events :: "32 word"
  ch_revents :: "32 word"
  ch_eventHandling :: bool
  ch_addedToLoop :: bool
  ch_registrationGeneration :: nat
  ch_activeBatchEpoch :: nat
  ch_activeBatchIndex :: nat
  ch_tied :: bool
  ch_tie :: nat
  ch_readCallback :: "nat option"
  ch_writeCallback :: "nat option"
  ch_closeCallback :: "nat option"
  ch_errorCallback :: "nat option"

definition Channel_new :: "nat \<Rightarrow> Channel" where
  "Channel_new loop =
     \<lparr> ch_loop = loop, ch_events = kNoneEvent, ch_revents = 0, ch_eventHandling = False, ch_addedToLoop = False,
       ch_registrationGeneration = 0, ch_activeBatchEpoch = 0, ch_activeBatchIndex = 0, ch_tied = False, ch_tie = 0,
       ch_readCallback = None, ch_writeCallback = None, ch_closeCallback = None, ch_errorCallback = None \<rparr>"

definition Channel_destroy :: "Channel \<Rightarrow> unit outcome" where
  "Channel_destroy ch = (if ch_eventHandling ch then Inl Fatal else if ch_addedToLoop ch then Inl Fatal else Inr ())"

section \<open>Configuration and masks\<close>

definition Channel_setReadCallback :: "nat option \<Rightarrow> Channel \<Rightarrow> Channel" where
  "Channel_setReadCallback cb ch = ch\<lparr> ch_readCallback := cb \<rparr>"

definition Channel_setWriteCallback :: "nat option \<Rightarrow> Channel \<Rightarrow> Channel" where
  "Channel_setWriteCallback cb ch = ch\<lparr> ch_writeCallback := cb \<rparr>"

definition Channel_setCloseCallback :: "nat option \<Rightarrow> Channel \<Rightarrow> Channel" where
  "Channel_setCloseCallback cb ch = ch\<lparr> ch_closeCallback := cb \<rparr>"

definition Channel_setErrorCallback :: "nat option \<Rightarrow> Channel \<Rightarrow> Channel" where
  "Channel_setErrorCallback cb ch = ch\<lparr> ch_errorCallback := cb \<rparr>"

definition Channel_tieTo :: "nat \<Rightarrow> Channel \<Rightarrow> Channel" where
  "Channel_tieTo object ch = ch\<lparr> ch_tie := object, ch_tied := True \<rparr>"

definition Channel_setRevents :: "32 word \<Rightarrow> Channel \<Rightarrow> Channel" where
  "Channel_setRevents revents ch = ch\<lparr> ch_revents := revents \<rparr>"

definition Channel_isNoneEvent :: "Channel \<Rightarrow> bool" where
  "Channel_isNoneEvent ch \<longleftrightarrow> ch_events ch = kNoneEvent"

definition Channel_isWriting :: "Channel \<Rightarrow> bool" where
  "Channel_isWriting ch \<longleftrightarrow> ch_events ch AND kWriteEvent \<noteq> 0"

definition Channel_isReading :: "Channel \<Rightarrow> bool" where
  "Channel_isReading ch \<longleftrightarrow> ch_events ch AND kReadEvent \<noteq> 0"

text \<open>What a mutator does: nothing, or a new mask that \<open>update\<close> then registers.\<close>

definition mask_enableReading :: "Channel \<Rightarrow> Channel option" where
  "mask_enableReading ch =
     (if ch_events ch AND kReadEvent \<noteq> 0 then None else Some (ch\<lparr> ch_events := ch_events ch OR kReadEvent \<rparr>))"

definition mask_disableReading :: "Channel \<Rightarrow> Channel option" where
  "mask_disableReading ch =
     (if ch_events ch AND kReadEvent = 0 then None else Some (ch\<lparr> ch_events := ch_events ch AND NOT kReadEvent \<rparr>))"

definition mask_enableWriting :: "Channel \<Rightarrow> Channel option" where
  "mask_enableWriting ch =
     (if ch_events ch AND kWriteEvent \<noteq> 0 then None else Some (ch\<lparr> ch_events := ch_events ch OR kWriteEvent \<rparr>))"

definition mask_disableWriting :: "Channel \<Rightarrow> Channel option" where
  "mask_disableWriting ch =
     (if ch_events ch AND kWriteEvent = 0 then None else Some (ch\<lparr> ch_events := ch_events ch AND NOT kWriteEvent \<rparr>))"

definition mask_disableAll :: "Channel \<Rightarrow> Channel option" where
  "mask_disableAll ch = (if ch_events ch = kNoneEvent then None else Some (ch\<lparr> ch_events := kNoneEvent \<rparr>))"

end
