(* ===== verification/EventLoop.thy ===== *)
theory EventLoop
  imports EventLoop_Control EventLoop_Lifecycle TimerQueue Channel
begin

text \<open>
  The event loop: \<open>src/src/core/net/EventLoop.cc\<close> and its header, with the parts of \<open>TimerQueue.cc\<close> and
  \<open>Channel.cc\<close> that go through the loop.

  A world has one loop, the process-wide generation counter of the channels, and everything else
  (\<open>ew_env\<close>): the operating system, other loops, the objects that own the callbacks. \<open>EventCallbacks\<close> says
  what the code behind the loop does: for every callback name its effect on the world and whether it throws
  (\<open>ec_call\<close>, \<open>ec_read\<close>, \<open>ec_notice\<close>, \<open>ec_metric\<close>, \<open>ec_exception\<close>), the clock (\<open>ec_now\<close>), whether a weak
  reference can be locked (\<open>ec_locked\<close>) and the virtual methods of \<open>IoEngine\<close> (\<open>src/src/core/net/detail/IoEngine.h\<close>).
  \<open>ec_others\<close> is what other threads do to the world before the owner thread enters a critical section; every
  critical section of a drain is preceded by it. Failing allocations are not modelled here.
\<close>

section \<open>Data\<close>

datatype EventLoopCallbackSource = SourceChannelEvent | SourceTimer | SourcePendingFunctor | SourceMetric | SourceControl | SourceLifecycle

datatype EventLoopCallbackExceptionAction = ActionContinue | ActionQuit

text \<open>What a pending functor does: a user's functor, or the posted half of a timer operation.\<close>

datatype Functor = FnUser nat | FnAddTimer nat | FnCancelTimer int

record PendingFunctor =
  pf_functor :: Functor
  pf_enqueuedAt :: timestamp

record ExecutorState =
  ex_loop :: bool
  ex_id :: nat
  ex_accepting :: bool
  ex_drainingAccepted :: bool

record EventLoop =
  el_id :: nat
  el_looping :: bool
  el_quit :: bool
  el_phase :: EventLoopPhase
  el_eventHandling :: bool
  el_activeBatchEpoch :: nat
  el_callingPendingFunctors :: bool
  el_options :: EventLoopOptions
  el_executor :: ExecutorState
  el_control :: ControlState
  el_lifecycle :: LifecycleSourceState
  el_pollReturnTime :: timestamp
  el_timers :: TimerQueue
  el_channels :: "nat \<Rightarrow> Channel"
  el_activeChannels :: "nat option list"
  el_activeChannelCursor :: nat
  el_currentActiveChannel :: "nat option"
  el_retiredCurrentChannel :: "nat option"
  el_metricCallback :: "nat option"
  el_exceptionHandler :: "nat option"
  el_pendingFunctorPeak :: nat
  el_wakeupCount :: nat
  el_rejectedFunctorCount :: nat
  el_callbackExceptionCount :: nat
  el_pendingFunctors :: "PendingFunctor list"

record 'e EventWorld =
  ew_loop :: EventLoop
  ew_nextGeneration :: nat
  ew_env :: 'e

record CompletionNotice =
  cn_consumer :: "nat option"
  cn_observer :: nat

record IoCompletionProgress =
  icp_drained :: nat
  icp_deferred :: nat
  icp_budgetExhausted :: bool

record 'e IoEngine =
  io_wait :: "int \<Rightarrow> 'e \<Rightarrow> (timestamp \<times> (nat \<times> 32 word) list) \<times> 'e"
  io_retireWaitBatch :: "'e \<Rightarrow> 'e"
  io_pendingCompletionNoticeCount :: "'e \<Rightarrow> nat"
  io_takeNextCompletionNotice :: "'e \<Rightarrow> CompletionNotice option \<times> 'e"
  io_completionObserverCurrent :: "CompletionNotice \<Rightarrow> 'e \<Rightarrow> bool"
  io_registerOrUpdateReadiness :: "nat \<Rightarrow> Channel \<Rightarrow> 'e \<Rightarrow> bool \<times> 'e"
  io_cancelReadiness :: "nat \<Rightarrow> 'e \<Rightarrow> bool \<times> 'e"
  io_hasReadiness :: "nat \<Rightarrow> 'e \<Rightarrow> bool"
  io_wakeup :: "'e \<Rightarrow> 'e"
  io_beginQuiesce :: "'e \<Rightarrow> 'e"
  io_quiescent :: "'e \<Rightarrow> bool"
  io_completionProgress :: "'e \<Rightarrow> IoCompletionProgress"
  io_wakeupNotices :: "'e \<Rightarrow> nat"

record 'e EventCallbacks =
  ec_call :: "nat \<Rightarrow> 'e EventWorld \<Rightarrow> bool \<times> 'e EventWorld"
  ec_read :: "nat \<Rightarrow> timestamp \<Rightarrow> 'e EventWorld \<Rightarrow> bool \<times> 'e EventWorld"
  ec_notice :: "nat \<Rightarrow> timestamp \<Rightarrow> bool \<Rightarrow> 'e EventWorld \<Rightarrow> bool \<times> 'e EventWorld"
  ec_metric :: "nat \<Rightarrow> EventLoopMetricSample \<Rightarrow> 'e EventWorld \<Rightarrow> bool \<times> 'e EventWorld"
  ec_exception :: "nat \<Rightarrow> EventLoopCallbackSource \<Rightarrow> 'e EventWorld \<Rightarrow> EventLoopCallbackExceptionAction option \<times> 'e EventWorld"
  ec_now :: "'e \<Rightarrow> timestamp \<times> 'e"
  ec_locked :: "nat \<Rightarrow> 'e \<Rightarrow> bool"
  ec_others :: "'e EventWorld \<Rightarrow> 'e EventWorld"
  ec_io :: "'e IoEngine"

definition ExecutorState_new :: "nat \<Rightarrow> ExecutorState" where
  "ExecutorState_new i = \<lparr> ex_loop = True, ex_id = i, ex_accepting = True, ex_drainingAccepted = False \<rparr>"

text \<open>The constructor; \<open>existing\<close> says that the thread already has a loop.\<close>

definition EventLoop_new :: "nat \<Rightarrow> bool \<Rightarrow> EventLoopOptions \<Rightarrow> EventLoop outcome" where
  "EventLoop_new i existing options =
     (case EventLoopOptions_validate options of
        Inl e \<Rightarrow> Inl e
      | Inr _ \<Rightarrow>
          if existing then Inl RuntimeError
          else Inr \<lparr> el_id = i, el_looping = False, el_quit = False, el_phase = PhaseRunning, el_eventHandling = False,
                     el_activeBatchEpoch = 0, el_callingPendingFunctors = False, el_options = options,
                     el_executor = ExecutorState_new i, el_control = ControlState_new (eo_maxControlSources options),
                     el_lifecycle = LifecycleState_new (eo_maxLifecycleNodes options), el_pollReturnTime = 0,
                     el_timers = TimerQueue_new, el_channels = (\<lambda>_. Channel_new i), el_activeChannels = [],
                     el_activeChannelCursor = 0, el_currentActiveChannel = None, el_retiredCurrentChannel = None,
                     el_metricCallback = None, el_exceptionHandler = None, el_pendingFunctorPeak = 0, el_wakeupCount = 0,
                     el_rejectedFunctorCount = 0, el_callbackExceptionCount = 0, el_pendingFunctors = [] \<rparr>)"

section \<open>Small steps on the world\<close>

definition ew_upd :: "(EventLoop \<Rightarrow> EventLoop) \<Rightarrow> 'e EventWorld \<Rightarrow> 'e EventWorld" where
  "ew_upd f w = w\<lparr> ew_loop := f (ew_loop w) \<rparr>"

definition ew_io :: "('e \<Rightarrow> 'e) \<Rightarrow> 'e EventWorld \<Rightarrow> 'e EventWorld" where
  "ew_io f w = w\<lparr> ew_env := f (ew_env w) \<rparr>"

definition ew_now :: "'e EventCallbacks \<Rightarrow> 'e EventWorld \<Rightarrow> timestamp \<times> 'e EventWorld" where
  "ew_now cb w = (case ec_now cb (ew_env w) of (now, e) \<Rightarrow> (now, w\<lparr> ew_env := e \<rparr>))"

definition EventLoop_wakeup :: "'e EventCallbacks \<Rightarrow> 'e EventWorld \<Rightarrow> 'e EventWorld" where
  "EventLoop_wakeup cb w =
     ew_io (io_wakeup (ec_io cb)) (ew_upd (\<lambda>l. l\<lparr> el_wakeupCount := u64_inc (el_wakeupCount l) \<rparr>) w)"

section \<open>Quit and exceptions\<close>

definition quit_seal :: "timestamp \<Rightarrow> EventLoop \<Rightarrow> EventLoop" where
  "quit_seal now l =
     l\<lparr> el_executor := (el_executor l)\<lparr> ex_accepting := False, ex_drainingAccepted := True \<rparr>,
        el_control := ControlState_quit (el_control l),
        el_lifecycle := (case LifecycleState_quiesce now (el_lifecycle l) of None \<Rightarrow> el_lifecycle l | Some s \<Rightarrow> s),
        el_phase := PhaseQuiescing, el_quit := True \<rparr>"

definition EventLoop_quit :: "'e EventCallbacks \<Rightarrow> bool \<Rightarrow> 'e EventWorld \<Rightarrow> 'e EventWorld" where
  "EventLoop_quit cb inLoop w =
     (let l = ew_loop w in
      if ct_phase (el_control l) = CtlShutdown \<or> ls_phase (el_lifecycle l) = PhaseShutdown
      then ew_upd (\<lambda>l. l\<lparr> el_executor := (el_executor l)\<lparr> ex_accepting := False, ex_drainingAccepted := False \<rparr>,
                          el_quit := True \<rparr>) w
      else if ls_phase (el_lifecycle l) \<noteq> PhaseRunning
      then ew_upd (\<lambda>l. l\<lparr> el_executor := (el_executor l)\<lparr> ex_accepting := False \<rparr>, el_quit := True \<rparr>) w
      else case ew_now cb w of
             (now, w1) \<Rightarrow> let w2 = ew_upd (quit_seal now) w1
                           in if inLoop then w2 else EventLoop_wakeup cb w2)"

definition EventLoop_handleCallbackException ::
    "'e EventCallbacks \<Rightarrow> EventLoopCallbackSource \<Rightarrow> 'e EventWorld \<Rightarrow> 'e EventWorld" where
  "EventLoop_handleCallbackException cb source w =
     (let w1 = ew_upd (\<lambda>l. l\<lparr> el_callbackExceptionCount := u64_inc (el_callbackExceptionCount l) \<rparr>) w
      in case el_exceptionHandler (ew_loop w1) of
           None \<Rightarrow> w1
         | Some h \<Rightarrow>
             (case ec_exception cb h source w1 of
                (Some ActionContinue, w2) \<Rightarrow> w2
              | (_, w2) \<Rightarrow> EventLoop_quit cb True w2))"

definition EventLoop_emitEventLoopMetric :: "'e EventCallbacks \<Rightarrow> EventLoopMetricSample \<Rightarrow> 'e EventWorld \<Rightarrow> 'e EventWorld" where
  "EventLoop_emitEventLoopMetric cb sample w =
     (case el_metricCallback (ew_loop w) of
        None \<Rightarrow> w
      | Some m \<Rightarrow>
          let c = el_control (ew_loop w);
              sample' = sample\<lparr> ms_controlNotifications := ct_notifications c,
                                ms_mergedControlNotifications := ct_mergedNotifications c,
                                ms_rejectedControlNotifications := ct_rejectedNotifications c,
                                ms_callbackExceptions := el_callbackExceptionCount (ew_loop w) \<rparr>
          in case ec_metric cb m sample' w of
               (threw, w1) \<Rightarrow> if threw then EventLoop_handleCallbackException cb SourceMetric w1 else w1)"

section \<open>Pending functors\<close>

definition EventLoop_tryQueueInLoopImpl ::
    "'e EventCallbacks \<Rightarrow> bool \<Rightarrow> Functor option \<Rightarrow> bool \<Rightarrow> 'e EventWorld \<Rightarrow> bool \<times> 'e EventWorld" where
  "EventLoop_tryQueueInLoopImpl cb inLoop fn allowReserve w =
     (case fn of
        None \<Rightarrow> (False, w)
      | Some f \<Rightarrow>
          (case ew_now cb w of
             (enqueuedAt, w1) \<Rightarrow>
               let o' = el_options (ew_loop w1);
                   capacity = sz_add (eo_maxPendingFunctors o') (if allowReserve then eo_reservedPendingFunctors o' else 0)
               in if length (el_pendingFunctors (ew_loop w1)) \<ge> capacity
                  then (False, ew_upd (\<lambda>l. l\<lparr> el_rejectedFunctorCount := u64_inc (el_rejectedFunctorCount l) \<rparr>) w1)
                  else let w2 = ew_upd (\<lambda>l.
                             let fs = el_pendingFunctors l @ [\<lparr> pf_functor = f, pf_enqueuedAt = enqueuedAt \<rparr>]
                             in l\<lparr> el_pendingFunctors := fs,
                                   el_pendingFunctorPeak := max (el_pendingFunctorPeak l) (length fs) \<rparr>) w1
                       in (True, if \<not> inLoop \<or> el_callingPendingFunctors (ew_loop w2) then EventLoop_wakeup cb w2 else w2)))"

definition EventLoop_queueInLoop ::
    "'e EventCallbacks \<Rightarrow> bool \<Rightarrow> Functor option \<Rightarrow> 'e EventWorld \<Rightarrow> unit outcome \<times> 'e EventWorld" where
  "EventLoop_queueInLoop cb inLoop fn w =
     (if \<not> ex_accepting (el_executor (ew_loop w))
      then (Inl LogicError, ew_upd (\<lambda>l. l\<lparr> el_rejectedFunctorCount := u64_inc (el_rejectedFunctorCount l) \<rparr>) w)
      else case EventLoop_tryQueueInLoopImpl cb inLoop fn True w of
             (accepted, w1) \<Rightarrow> (if accepted then Inr () else Inl OverflowError, w1))"

definition EventLoop_tryQueueInLoop ::
    "'e EventCallbacks \<Rightarrow> bool \<Rightarrow> Functor option \<Rightarrow> 'e EventWorld \<Rightarrow> bool \<times> 'e EventWorld" where
  "EventLoop_tryQueueInLoop cb inLoop fn w =
     (if \<not> ex_accepting (el_executor (ew_loop w))
      then (False, ew_upd (\<lambda>l. l\<lparr> el_rejectedFunctorCount := u64_inc (el_rejectedFunctorCount l) \<rparr>) w)
      else EventLoop_tryQueueInLoopImpl cb inLoop fn False w)"

text \<open>\<open>alive\<close>: the executor's weak reference can be locked.\<close>

definition EventLoopExecutor_postFunctor ::
    "'e EventCallbacks \<Rightarrow> bool \<Rightarrow> bool \<Rightarrow> Functor option \<Rightarrow> 'e EventWorld \<Rightarrow> PostResult \<times> 'e EventWorld" where
  "EventLoopExecutor_postFunctor cb alive inLoop fn w =
     (if fn = None then (PostQueueFull, w)
      else if \<not> alive then (PostOwnerUnavailable, w)
      else if \<not> ex_loop (el_executor (ew_loop w)) then (PostOwnerUnavailable, w)
      else if \<not> ex_accepting (el_executor (ew_loop w)) then (PostShutdown, w)
      else case EventLoop_tryQueueInLoopImpl cb inLoop fn False w of
             (accepted, w1) \<Rightarrow> (if accepted then PostAccepted else PostQueueFull, w1))"

definition EventLoopExecutor_tryQueue ::
    "'e EventCallbacks \<Rightarrow> bool \<Rightarrow> bool \<Rightarrow> Functor option \<Rightarrow> 'e EventWorld \<Rightarrow> bool \<times> 'e EventWorld" where
  "EventLoopExecutor_tryQueue cb alive inLoop fn w =
     (case EventLoopExecutor_postFunctor cb alive inLoop fn w of (r, w1) \<Rightarrow> (r = PostAccepted, w1))"

definition EventLoopExecutor_available :: "bool \<Rightarrow> EventLoop \<Rightarrow> bool" where
  "EventLoopExecutor_available alive l \<longleftrightarrow> alive \<and> ex_accepting (el_executor l) \<and> ex_loop (el_executor l)"

definition EventLoopExecutor_isInOwnerThread :: "bool \<Rightarrow> bool \<Rightarrow> EventLoop \<Rightarrow> bool" where
  "EventLoopExecutor_isInOwnerThread alive inLoop l \<longleftrightarrow>
     alive \<and> (ex_accepting (el_executor l) \<or> ex_drainingAccepted (el_executor l)) \<and> ex_loop (el_executor l) \<and> inLoop"

definition EventLoop_pendingFunctorLoadSnapshot :: "EventLoop \<Rightarrow> nat \<times> timestamp" where
  "EventLoop_pendingFunctorLoadSnapshot l =
     (case el_pendingFunctors l of [] \<Rightarrow> (0, 0) | f # _ \<Rightarrow> (length (el_pendingFunctors l), pf_enqueuedAt f))"

section \<open>Sources\<close>

text \<open>\<open>notify\<close> and \<open>signal\<close> with the clock and the wakeup of the loop.\<close>

definition EventWorld_notify ::
    "'e EventCallbacks \<Rightarrow> bool \<Rightarrow> bool \<Rightarrow> EventLoopControlSource \<Rightarrow> 'e EventWorld \<Rightarrow> PostResult \<times> 'e EventWorld" where
  "EventWorld_notify cb alive inLoop src w =
     (case ew_now cb w of
        (now, w1) \<Rightarrow>
          (case EventLoopControlSource_notify alive inLoop now src (el_control (ew_loop w1)) of
             ((r, wake), c) \<Rightarrow>
               let w2 = ew_upd (\<lambda>l. l\<lparr> el_control := c \<rparr>) w1
               in (r, if wake then EventLoop_wakeup cb w2 else w2)))"

definition EventWorld_signal ::
    "'e EventCallbacks \<Rightarrow> bool \<Rightarrow> bool \<Rightarrow> EventLoopLifecycleSource \<Rightarrow> 'e EventWorld \<Rightarrow> PostResult \<times> 'e EventWorld" where
  "EventWorld_signal cb alive inLoop src w =
     (case ew_now cb w of
        (now, w1) \<Rightarrow>
          (case EventLoopLifecycleSource_signal alive inLoop now src (el_lifecycle (ew_loop w1)) of
             ((r, wake), s) \<Rightarrow>
               let w2 = ew_upd (\<lambda>l. l\<lparr> el_lifecycle := s \<rparr>) w1
               in (r, if wake then EventLoop_wakeup cb w2 else w2)))"

definition EventWorld_registerControlSource ::
    "nat option \<Rightarrow> 'e EventWorld \<Rightarrow> EventLoopControlSource outcome \<times> 'e EventWorld" where
  "EventWorld_registerControlSource callback w =
     (case EventLoop_registerControlSource (el_looping (ew_loop w)) callback (el_control (ew_loop w)) of
        (r, c) \<Rightarrow> (r, ew_upd (\<lambda>l. l\<lparr> el_control := c \<rparr>) w))"

definition EventWorld_unregisterControlSource :: "bool \<Rightarrow> EventLoopControlSource \<Rightarrow> 'e EventWorld \<Rightarrow> 'e EventWorld" where
  "EventWorld_unregisterControlSource ours src w =
     ew_upd (\<lambda>l. l\<lparr> el_control := EventLoop_unregisterControlSource ours src (el_control l) \<rparr>) w"

definition EventWorld_attachLifecycleNode ::
    "bool \<Rightarrow> nat option \<Rightarrow> 'e EventWorld \<Rightarrow> EventLoopLifecycleSource outcome \<times> 'e EventWorld" where
  "EventWorld_attachLifecycleNode quiesceParticipant callback w =
     (case EventLoop_attachLifecycleNode quiesceParticipant callback (el_lifecycle (ew_loop w)) of
        (r, s) \<Rightarrow> (r, ew_upd (\<lambda>l. l\<lparr> el_lifecycle := s \<rparr>) w))"

definition EventWorld_detachLifecycleNode :: "bool \<Rightarrow> EventLoopLifecycleSource \<Rightarrow> 'e EventWorld \<Rightarrow> 'e EventWorld" where
  "EventWorld_detachLifecycleNode ours src w =
     ew_upd (\<lambda>l. l\<lparr> el_lifecycle := EventLoop_detachLifecycleNode ours src (el_lifecycle l) \<rparr>) w"

section \<open>Timers\<close>

definition TimerQueue_tryAddTimer ::
    "'e EventCallbacks \<Rightarrow> bool \<Rightarrow> nat option \<Rightarrow> timestamp \<Rightarrow> duration \<Rightarrow> RepeatingTimerOptions \<Rightarrow> 'e EventWorld \<Rightarrow>
       (PostResult \<times> int) outcome \<times> 'e EventWorld" where
  "TimerQueue_tryAddTimer cb inLoop callback when interval options w =
     (case TimerQueue_makeTimer callback when interval options (el_timers (ew_loop w)) of
        (Inl e, q) \<Rightarrow> (Inl e, w)
      | (Inr a, q) \<Rightarrow>
          let timerId = tm_sequence (tq_timer q a);
              w1 = ew_upd (\<lambda>l. l\<lparr> el_timers := q \<rparr>) w
          in if inLoop
             then if el_phase (ew_loop w1) \<noteq> PhaseRunning then (Inr (PostShutdown, 0), w1)
                  else (Inr (PostAccepted, timerId),
                        ew_upd (\<lambda>l. l\<lparr> el_timers := snd (TimerQueue_insert a (el_timers l)) \<rparr>) w1)
             else case EventLoopExecutor_postFunctor cb True inLoop (Some (FnAddTimer a)) w1 of
                    (r, w2) \<Rightarrow> (Inr (r, if r = PostAccepted then timerId else 0), w2))"

definition TimerQueue_addTimer ::
    "'e EventCallbacks \<Rightarrow> bool \<Rightarrow> nat option \<Rightarrow> timestamp \<Rightarrow> duration \<Rightarrow> RepeatingTimerOptions \<Rightarrow> 'e EventWorld \<Rightarrow>
       int outcome \<times> 'e EventWorld" where
  "TimerQueue_addTimer cb inLoop callback when interval options w =
     (case TimerQueue_tryAddTimer cb inLoop callback when interval options w of
        (Inl e, w1) \<Rightarrow> (Inl e, w1)
      | (Inr (r, timerId), w1) \<Rightarrow>
          (case r of PostAccepted \<Rightarrow> Inr timerId | PostQueueFull \<Rightarrow> Inl OverflowError
             | PostShutdown \<Rightarrow> Inl LogicError | PostOwnerUnavailable \<Rightarrow> Inl LogicError, w1))"

definition TimerQueue_tryCancel :: "'e EventCallbacks \<Rightarrow> bool \<Rightarrow> int \<Rightarrow> 'e EventWorld \<Rightarrow> PostResult \<times> 'e EventWorld" where
  "TimerQueue_tryCancel cb inLoop timerId w =
     (if \<not> TimerId_valid timerId then (PostAccepted, w)
      else if inLoop
      then if el_phase (ew_loop w) \<noteq> PhaseRunning then (PostShutdown, w)
           else (PostAccepted, ew_upd (\<lambda>l. l\<lparr> el_timers := TimerQueue_cancelInLoop timerId (el_timers l) \<rparr>) w)
      else EventLoopExecutor_postFunctor cb True inLoop (Some (FnCancelTimer timerId)) w)"

definition RepeatingTimerOptions_default :: RepeatingTimerOptions where
  "RepeatingTimerOptions_default = \<lparr> rto_mode = FixedDelay, rto_maxCatchUpCallbacks = 0 \<rparr>"

definition EventLoop_runAfter ::
    "'e EventCallbacks \<Rightarrow> bool \<Rightarrow> duration \<Rightarrow> nat option \<Rightarrow> 'e EventWorld \<Rightarrow> int outcome \<times> 'e EventWorld" where
  "EventLoop_runAfter cb inLoop delay callback w =
     (case ew_now cb w of
        (now, w1) \<Rightarrow> TimerQueue_addTimer cb inLoop callback (now + delay) 0 RepeatingTimerOptions_default w1)"

definition EventLoop_runEvery ::
    "'e EventCallbacks \<Rightarrow> bool \<Rightarrow> duration \<Rightarrow> nat option \<Rightarrow> RepeatingTimerOptions \<Rightarrow> 'e EventWorld \<Rightarrow> int outcome \<times> 'e EventWorld" where
  "EventLoop_runEvery cb inLoop interval callback options w =
     (if interval \<le> 0 then (Inl InvalidArgument, w)
      else case RepeatingTimerOptions_validate options of
        Inl e \<Rightarrow> (Inl e, w)
      | Inr _ \<Rightarrow>
          (case ew_now cb w of
             (now, w1) \<Rightarrow> TimerQueue_addTimer cb inLoop callback (now + interval) interval options w1))"

definition EventLoop_tryRunAfter ::
    "'e EventCallbacks \<Rightarrow> bool \<Rightarrow> duration \<Rightarrow> nat option \<Rightarrow> 'e EventWorld \<Rightarrow> (PostResult \<times> int) outcome \<times> 'e EventWorld" where
  "EventLoop_tryRunAfter cb inLoop delay callback w =
     (case ew_now cb w of
        (now, w1) \<Rightarrow> TimerQueue_tryAddTimer cb inLoop callback (now + delay) 0 RepeatingTimerOptions_default w1)"

definition EventLoop_tryRunEvery ::
    "'e EventCallbacks \<Rightarrow> bool \<Rightarrow> duration \<Rightarrow> nat option \<Rightarrow> RepeatingTimerOptions \<Rightarrow> 'e EventWorld \<Rightarrow>
       (PostResult \<times> int) outcome \<times> 'e EventWorld" where
  "EventLoop_tryRunEvery cb inLoop interval callback options w =
     (if interval \<le> 0 then (Inl InvalidArgument, w)
      else case ew_now cb w of
             (now, w1) \<Rightarrow> TimerQueue_tryAddTimer cb inLoop callback (now + interval) interval options w1)"

text \<open>The loop of \<open>handleExpired\<close>: it returns the timers whose callback ran and the number of exceptions.\<close>

fun runExpired :: "'e EventCallbacks \<Rightarrow> nat list \<Rightarrow> 'e EventWorld \<Rightarrow> (nat list \<times> nat) \<times> 'e EventWorld" where
  "runExpired cb [] w = (([], 0), w)"
| "runExpired cb (a # expired) w =
     (let timer = tq_timer (el_timers (ew_loop w)) a in
      if tm_canceled timer then runExpired cb expired w
      else case ec_call cb (tm_callback timer) w of
             (threw, w1) \<Rightarrow>
               let w2 = (if threw then ew_upd (\<lambda>l. l\<lparr> el_timers := tq_write a (\<lambda>t. t\<lparr> tm_canceled := True \<rparr>) (el_timers l) \<rparr>) w1 else w1)
               in case runExpired cb expired w2 of
                    ((fired, exceptions), w3) \<Rightarrow> ((a # fired, if threw then exceptions + 1 else exceptions), w3))"

record ExpiredResult =
  er_exceptions :: nat
  er_drained :: nat
  er_remaining :: nat
  er_oldestReadyLatency :: duration
  er_ran :: "nat list"

definition TimerQueue_handleExpired ::
    "'e EventCallbacks \<Rightarrow> timestamp \<Rightarrow> nat \<Rightarrow> 'e EventWorld \<Rightarrow> ExpiredResult \<times> 'e EventWorld" where
  "TimerQueue_handleExpired cb now maxCount w =
     (let q = el_timers (ew_loop w);
          nothing = (\<lparr> er_exceptions = 0, er_drained = 0, er_remaining = 0, er_oldestReadyLatency = 0, er_ran = [] \<rparr>, w)
      in case tq_timers q of
           [] \<Rightarrow> nothing
         | (_, first) # _ \<Rightarrow>
             if tm_expiration (tq_timer q first) > now then nothing
             else (case TimerQueue_getExpired now maxCount q of
                (expired, q1) \<Rightarrow>
                  (case runExpired cb expired (ew_upd (\<lambda>l. l\<lparr> el_timers := q1 \<rparr>) w) of
                     ((fired, exceptions), w1) \<Rightarrow>
                       (case ew_now cb w1 of
                          (now1, w2) \<Rightarrow>
                            let w3 = ew_upd (\<lambda>l. l\<lparr> el_timers := TimerQueue_reset expired now1 (el_timers l) \<rparr>) w2
                            in case ew_now cb w3 of
                                 (now2, w4) \<Rightarrow>
                                   (\<lparr> er_exceptions = exceptions, er_drained = length expired,
                                      er_remaining = length (dueTimers now2 (el_timers (ew_loop w4))),
                                      er_oldestReadyLatency = now - tm_expiration (tq_timer q first), er_ran = fired \<rparr>, w4)))))"

fun handleExceptions :: "'e EventCallbacks \<Rightarrow> EventLoopCallbackSource \<Rightarrow> nat \<Rightarrow> 'e EventWorld \<Rightarrow> 'e EventWorld" where
  "handleExceptions cb source 0 w = w"
| "handleExceptions cb source (Suc n) w = handleExceptions cb source n (EventLoop_handleCallbackException cb source w)"

definition EventLoop_doExpiredTimers :: "'e EventCallbacks \<Rightarrow> 'e EventWorld \<Rightarrow> nat list \<times> 'e EventWorld" where
  "EventLoop_doExpiredTimers cb w =
     (case ew_now cb w of
        (now, w1) \<Rightarrow>
          (case TimerQueue_handleExpired cb now (eo_maxTimersPerIteration (el_options (ew_loop w1))) w1 of
             (result, w2) \<Rightarrow>
               let w3 = handleExceptions cb SourceTimer (er_exceptions result) w2
               in if er_drained result = 0 then (er_ran result, w3)
                  else (er_ran result,
                        EventLoop_emitEventLoopMetric cb
                          (EventLoopMetricSample_default\<lparr> ms_event := TimersDrained, ms_drainedWork := er_drained result,
                             ms_remainingWork := er_remaining result, ms_oldestReadyLatency := er_oldestReadyLatency result,
                             ms_budgetExhausted := (er_remaining result \<noteq> 0) \<rparr>) w3)))"

section \<open>The drain of the control sources\<close>

text \<open>The callback of one selected slot; the result says whether it ran.\<close>

definition runControlSlot :: "'e EventCallbacks \<Rightarrow> nat \<Rightarrow> 'e EventWorld \<Rightarrow> (nat \<times> bool) \<times> 'e EventWorld" where
  "runControlSlot cb slotIndex w =
     (let w1 = ec_others cb w in
      case ControlState_beginCallback slotIndex (el_control (ew_loop w1)) of
        (None, _) \<Rightarrow> ((slotIndex, False), w1)
      | (Some callback, c) \<Rightarrow>
          (case ec_call cb callback (ew_upd (\<lambda>l. l\<lparr> el_control := c \<rparr>) w1) of
             (threw, w2) \<Rightarrow>
               let w3 = ew_upd (\<lambda>l. l\<lparr> el_control := ControlState_endCallback slotIndex (el_control l) \<rparr>) (ec_others cb w2)
               in ((slotIndex, True), if threw then EventLoop_handleCallbackException cb SourceControl w3 else w3)))"

function drainWord :: "'e EventCallbacks \<Rightarrow> nat \<Rightarrow> 64 word \<Rightarrow> 'e EventWorld \<Rightarrow> (nat \<times> bool) list \<times> 'e EventWorld" where
  "drainWord cb wordIndex word w =
     (if word = 0 then ([], w)
      else case runControlSlot cb (wordIndex * 64 + countr_zero word) w of
             (e, w1) \<Rightarrow> (case drainWord cb wordIndex (word AND (word - 1)) w1 of (es, w2) \<Rightarrow> (e # es, w2)))"
  by pat_completeness auto
termination by (relation "measure (\<lambda>(_, _, word, _). unat word)") (auto intro: clear_lowest_less)

declare drainWord.simps [simp del]

fun drainWords :: "'e EventCallbacks \<Rightarrow> nat \<Rightarrow> 64 word list \<Rightarrow> 'e EventWorld \<Rightarrow> (nat \<times> bool) list \<times> 'e EventWorld" where
  "drainWords cb wordIndex [] w = ([], w)"
| "drainWords cb wordIndex (word # words) w =
     (case drainWord cb wordIndex word w of
        (es, w1) \<Rightarrow> (case drainWords cb (wordIndex + 1) words w1 of (es', w2) \<Rightarrow> (es @ es', w2)))"

definition EventLoop_doControlSources :: "'e EventCallbacks \<Rightarrow> 'e EventWorld \<Rightarrow> (nat \<times> bool) list \<times> 'e EventWorld" where
  "EventLoop_doControlSources cb w =
     (let w0 = ec_others cb w in
      case ControlState_select (eo_maxControlCallbacksPerIteration (el_options (ew_loop w0))) (el_control (ew_loop w0)) of
        (pendingPeak, selection) \<Rightarrow>
          let w1 = ew_upd (\<lambda>l. l\<lparr> el_control := cn_control selection \<rparr>) w0 in
          if cn_selectedCount selection = 0 then ([], w1)
          else (case drainWords cb 0 (cn_drainWords selection) w1 of
             (events, w2) \<Rightarrow>
               let drainedCount = length (filter snd events);
                   wakeups = el_wakeupCount (ew_loop w2);
                   w3 = ec_others cb w2;
                   remaining = ct_pendingCount (el_control (ew_loop w3))
               in case ew_now cb w3 of
                    (now, w4) \<Rightarrow>
                      let w5 = EventLoop_emitEventLoopMetric cb
                            (EventLoopMetricSample_default\<lparr> ms_event := ControlSourcesDrained,
                               ms_pendingControlSources := drainedCount,
                               ms_pendingControlSourcePeak := max pendingPeak (cn_selectedCount selection),
                               ms_wakeupCount := wakeups, ms_drainedWork := drainedCount, ms_remainingWork := remaining,
                               ms_oldestReadyLatency :=
                                 (if cn_oldestPending selection \<noteq> 0 \<and> cn_oldestPending selection \<le> now
                                  then now - cn_oldestPending selection else 0),
                               ms_budgetExhausted := (remaining \<noteq> 0) \<rparr>) w4
                      in (events, if remaining \<noteq> 0 then EventLoop_wakeup cb w5 else w5)))"

section \<open>The drain of the lifecycle nodes\<close>

text \<open>The rounds of \<open>doLifecycleNodes\<close>. The result lists the nodes that ran; \<open>Fatal\<close> ends the process.\<close>

fun lifecycleRounds :: "'e EventCallbacks \<Rightarrow> nat \<Rightarrow> 'e EventWorld \<Rightarrow> nat list outcome \<times> 'e EventWorld" where
  "lifecycleRounds cb 0 w = (Inr [], w)"
| "lifecycleRounds cb (Suc n) w =
     (let w0 = ec_others cb w in
      case LifecycleState_popDirty (el_lifecycle (ew_loop w0)) of
        (Inl e, s) \<Rightarrow> (Inl e, ew_upd (\<lambda>l. l\<lparr> el_lifecycle := s \<rparr>) w0)
      | (Inr None, s) \<Rightarrow> (Inr [], w0)
      | (Inr (Some (node, callback)), s) \<Rightarrow>
          (case ec_call cb callback (ew_upd (\<lambda>l. l\<lparr> el_lifecycle := s \<rparr>) w0) of
             (threw, w1) \<Rightarrow>
               let w2 = ew_upd (\<lambda>l. l\<lparr> el_lifecycle := LifecycleState_finish node (el_lifecycle l) \<rparr>) (ec_others cb w1);
                   w3 = (if threw then EventLoop_handleCallbackException cb SourceLifecycle w2 else w2)
               in case lifecycleRounds cb n w3 of
                    (Inl e, w4) \<Rightarrow> (Inl e, w4)
                  | (Inr nodes, w4) \<Rightarrow> (Inr (node # nodes), w4)))"

definition EventLoop_doLifecycleNodes :: "'e EventCallbacks \<Rightarrow> 'e EventWorld \<Rightarrow> nat list outcome \<times> 'e EventWorld" where
  "EventLoop_doLifecycleNodes cb w =
     (let w0 = ec_others cb w;
          s = el_lifecycle (ew_loop w0);
          roundCount = min (eo_maxLifecycleCallbacksPerIteration (el_options (ew_loop w0))) (ls_pendingCount s);
          oldestPending = (case ls_dirtyHead s of None \<Rightarrow> 0 | Some a \<Rightarrow> ln_pendingSince (ls_node s a))
      in case lifecycleRounds cb roundCount w0 of
           (Inl e, w1) \<Rightarrow> (Inl e, w1)
         | (Inr nodes, w1) \<Rightarrow>
             let w2 = ec_others cb w1;
                 remaining = ls_pendingCount (el_lifecycle (ew_loop w2));
                 w4 = (if nodes \<noteq> []
                       then (case ew_now cb w2 of
                               (now, w3) \<Rightarrow>
                                 EventLoop_emitEventLoopMetric cb
                                   (EventLoopMetricSample_default\<lparr> ms_event := LifecycleNodesDrained,
                                      ms_drainedWork := length nodes, ms_remainingWork := remaining,
                                      ms_oldestReadyLatency :=
                                        (if oldestPending \<noteq> 0 \<and> oldestPending \<le> now then now - oldestPending else 0),
                                      ms_budgetExhausted := (remaining \<noteq> 0) \<rparr>) w3)
                       else w2)
             in (Inr nodes, if remaining \<noteq> 0 then EventLoop_wakeup cb w4 else w4))"

section \<open>The drain of the pending functors\<close>

definition runFunctor :: "'e EventCallbacks \<Rightarrow> Functor \<Rightarrow> 'e EventWorld \<Rightarrow> bool \<times> 'e EventWorld" where
  "runFunctor cb fn w =
     (case fn of
        FnUser name \<Rightarrow> ec_call cb name w
      | FnAddTimer a \<Rightarrow> (False, ew_upd (\<lambda>l. l\<lparr> el_timers := snd (TimerQueue_insert a (el_timers l)) \<rparr>) w)
      | FnCancelTimer timerId \<Rightarrow> (False, ew_upd (\<lambda>l. l\<lparr> el_timers := TimerQueue_cancelInLoop timerId (el_timers l) \<rparr>) w))"

fun runFunctors :: "'e EventCallbacks \<Rightarrow> PendingFunctor list \<Rightarrow> 'e EventWorld \<Rightarrow> 'e EventWorld" where
  "runFunctors cb [] w = w"
| "runFunctors cb (f # fs) w =
     (case runFunctor cb (pf_functor f) (ec_others cb w) of
        (threw, w1) \<Rightarrow> runFunctors cb fs (if threw then EventLoop_handleCallbackException cb SourcePendingFunctor w1 else w1))"

text \<open>The result lists the functors that ran, in order.\<close>

definition EventLoop_doPendingFunctors :: "'e EventCallbacks \<Rightarrow> nat \<Rightarrow> 'e EventWorld \<Rightarrow> PendingFunctor list \<times> 'e EventWorld" where
  "EventLoop_doPendingFunctors cb maxCount w =
     (let w0 = ec_others cb (ew_upd (\<lambda>l. l\<lparr> el_callingPendingFunctors := True \<rparr>) w);
          functors = take maxCount (el_pendingFunctors (ew_loop w0));
          pendingPeak = el_pendingFunctorPeak (ew_loop w0);
          w1 = ew_upd (\<lambda>l. l\<lparr> el_pendingFunctors := drop maxCount (el_pendingFunctors l), el_pendingFunctorPeak := 0 \<rparr>) w0;
          w2 = (case functors of
                  [] \<Rightarrow> w1
                | first # _ \<Rightarrow>
                    (case ew_now cb w1 of
                       (now, w1a) \<Rightarrow>
                         let w1b = ec_others cb w1a;
                             l = ew_loop w1a;
                             remaining = length (el_pendingFunctors (ew_loop w1b))
                         in EventLoop_emitEventLoopMetric cb
                              (EventLoopMetricSample_default\<lparr> ms_event := PendingFunctorsDrained,
                                 ms_pendingFunctors := length functors,
                                 ms_pendingFunctorPeak := max pendingPeak (length functors),
                                 ms_wakeupCount := el_wakeupCount l, ms_rejectedFunctors := el_rejectedFunctorCount l,
                                 ms_callbackExceptions := el_callbackExceptionCount l,
                                 ms_oldestPendingLatency := now - pf_enqueuedAt first,
                                 ms_drainedWork := length functors, ms_remainingWork := remaining,
                                 ms_oldestReadyLatency := now - pf_enqueuedAt first,
                                 ms_budgetExhausted := (remaining \<noteq> 0) \<rparr>) w1b));
          w3 = runFunctors cb functors w2;
          w4 = ec_others cb (ew_upd (\<lambda>l. l\<lparr> el_callingPendingFunctors := False \<rparr>) w3)
      in (functors, if length (el_pendingFunctors (ew_loop w4)) > 0 then EventLoop_wakeup cb w4 else w4))"

end
