(* ===== verification/EventLoop_Run.thy ===== *)
theory EventLoop_Run
  imports EventLoop
begin

text \<open>
  Channels on the loop and the run of the loop: registration and removal of channels, \<open>Channel::handleEvent\<close>,
  the dispatch of a batch of active channels, the loop itself with its three phases, and the destructor
  (\<open>src/src/core/net/EventLoop.cc\<close>, \<open>Channel.cc\<close>). A channel is named by its address in \<open>el_channels\<close>. A loop
  that never quits is \<open>None\<close>.
\<close>

section \<open>Registration\<close>

definition ew_channel :: "nat \<Rightarrow> 'e EventWorld \<Rightarrow> Channel" where
  "ew_channel a w = el_channels (ew_loop w) a"

definition ew_setChannel :: "nat \<Rightarrow> (Channel \<Rightarrow> Channel) \<Rightarrow> 'e EventWorld \<Rightarrow> 'e EventWorld" where
  "ew_setChannel a f w = ew_upd (\<lambda>l. l\<lparr> el_channels := (el_channels l)(a := f (el_channels l a)) \<rparr>) w"

definition allocateRegistrationGeneration :: "'e EventWorld \<Rightarrow> nat \<times> 'e EventWorld" where
  "allocateRegistrationGeneration w =
     (let generation = ew_nextGeneration w;
          w1 = w\<lparr> ew_nextGeneration := u64_inc generation \<rparr>
      in if generation = 0
         then (ew_nextGeneration w1, w1\<lparr> ew_nextGeneration := u64_inc (ew_nextGeneration w1) \<rparr>)
         else (generation, w1))"

definition Channel_advanceRegistrationGeneration :: "nat \<Rightarrow> 'e EventWorld \<Rightarrow> 'e EventWorld" where
  "Channel_advanceRegistrationGeneration a w =
     (case allocateRegistrationGeneration w of
        (g, w1) \<Rightarrow> ew_setChannel a (\<lambda>ch. ch\<lparr> ch_registrationGeneration := g \<rparr>) w1)"

definition EventLoop_updateChannel :: "'e EventCallbacks \<Rightarrow> bool \<Rightarrow> nat \<Rightarrow> 'e EventWorld \<Rightarrow> unit outcome \<times> 'e EventWorld" where
  "EventLoop_updateChannel cb inLoop a w =
     (if \<not> inLoop then (Inl RuntimeError, w)
      else if ch_loop (ew_channel a w) \<noteq> el_id (ew_loop w) then (Inl InvalidArgument, w)
      else let newRegistration = (\<not> ch_addedToLoop (ew_channel a w)) in
           case io_registerOrUpdateReadiness (ec_io cb) a (ew_channel a w) (ew_env w) of
             (accepted, e) \<Rightarrow>
               let w1 = w\<lparr> ew_env := e \<rparr> in
               if \<not> accepted then (Inl LogicError, w1)
               else if newRegistration
               then (Inr (), Channel_advanceRegistrationGeneration a (ew_setChannel a (\<lambda>ch. ch\<lparr> ch_addedToLoop := True \<rparr>) w1))
               else (Inr (), w1))"

definition EventLoop_removeChannel :: "'e EventCallbacks \<Rightarrow> bool \<Rightarrow> nat \<Rightarrow> 'e EventWorld \<Rightarrow> unit outcome \<times> 'e EventWorld" where
  "EventLoop_removeChannel cb inLoop a w =
     (if \<not> inLoop then (Inl RuntimeError, w)
      else if ch_loop (ew_channel a w) \<noteq> el_id (ew_loop w) then (Inl InvalidArgument, w)
      else if \<not> ch_addedToLoop (ew_channel a w) then (Inl LogicError, w)
      else if \<not> Channel_isNoneEvent (ew_channel a w) then (Inl LogicError, w)
      else if \<not> io_hasReadiness (ec_io cb) a (ew_env w) then (Inl LogicError, w)
      else case io_cancelReadiness (ec_io cb) a (ew_env w) of
             (accepted, e) \<Rightarrow>
               let w1 = w\<lparr> ew_env := e \<rparr>; l = ew_loop w1; ch = ew_channel a w1; index = ch_activeBatchIndex ch;
                   finish = (\<lambda>w2. (Inr (), Channel_advanceRegistrationGeneration a (ew_setChannel a (\<lambda>ch. ch\<lparr> ch_addedToLoop := False \<rparr>) w2)))
               in if \<not> accepted then (Inl LogicError, w1)
                  else if ch_activeBatchEpoch ch = el_activeBatchEpoch l
                  then if index < length (el_activeChannels l) \<and> el_activeChannels l ! index = Some a
                       then finish (ew_upd (\<lambda>l. l\<lparr> el_activeChannels := (el_activeChannels l)[index := None] \<rparr>) w1)
                       else if el_eventHandling l then (Inl Fatal, w1)
                       else finish w1
                  else finish w1)"

section \<open>Channels\<close>

text \<open>A mutator changes the mask and then calls \<open>update\<close>, whose exception leaves the new mask.\<close>

definition Channel_mutate ::
    "(Channel \<Rightarrow> Channel option) \<Rightarrow> 'e EventCallbacks \<Rightarrow> bool \<Rightarrow> nat \<Rightarrow> 'e EventWorld \<Rightarrow> unit outcome \<times> 'e EventWorld" where
  "Channel_mutate change cb inLoop a w =
     (case change (ew_channel a w) of
        None \<Rightarrow> (Inr (), w)
      | Some ch \<Rightarrow> EventLoop_updateChannel cb inLoop a (ew_setChannel a (\<lambda>_. ch) w))"

definition Channel_enableReading :: "'e EventCallbacks \<Rightarrow> bool \<Rightarrow> nat \<Rightarrow> 'e EventWorld \<Rightarrow> unit outcome \<times> 'e EventWorld" where
  "Channel_enableReading = Channel_mutate mask_enableReading"

definition Channel_disableReading :: "'e EventCallbacks \<Rightarrow> bool \<Rightarrow> nat \<Rightarrow> 'e EventWorld \<Rightarrow> unit outcome \<times> 'e EventWorld" where
  "Channel_disableReading = Channel_mutate mask_disableReading"

definition Channel_enableWriting :: "'e EventCallbacks \<Rightarrow> bool \<Rightarrow> nat \<Rightarrow> 'e EventWorld \<Rightarrow> unit outcome \<times> 'e EventWorld" where
  "Channel_enableWriting = Channel_mutate mask_enableWriting"

definition Channel_disableWriting :: "'e EventCallbacks \<Rightarrow> bool \<Rightarrow> nat \<Rightarrow> 'e EventWorld \<Rightarrow> unit outcome \<times> 'e EventWorld" where
  "Channel_disableWriting = Channel_mutate mask_disableWriting"

definition Channel_disableAll :: "'e EventCallbacks \<Rightarrow> bool \<Rightarrow> nat \<Rightarrow> 'e EventWorld \<Rightarrow> unit outcome \<times> 'e EventWorld" where
  "Channel_disableAll = Channel_mutate mask_disableAll"

definition Channel_remove :: "'e EventCallbacks \<Rightarrow> bool \<Rightarrow> nat \<Rightarrow> 'e EventWorld \<Rightarrow> unit outcome \<times> 'e EventWorld" where
  "Channel_remove cb inLoop a w =
     (if \<not> ch_addedToLoop (ew_channel a w) then (Inl LogicError, w)
      else if \<not> Channel_isNoneEvent (ew_channel a w) then (Inl RuntimeError, w)
      else EventLoop_removeChannel cb inLoop a w)"

datatype ChannelStage = StageClose | StageError | StageRead | StageWrite

text \<open>Whether the stage is due, and its callback.\<close>

definition stage_due :: "ChannelStage \<Rightarrow> Channel \<Rightarrow> bool" where
  "stage_due stage ch =
     (case stage of
        StageClose \<Rightarrow> ch_revents ch AND kCloseEvent \<noteq> 0 \<and> ch_revents ch AND kReadEvent = 0
      | StageError \<Rightarrow> ch_revents ch AND kErrorEvent \<noteq> 0
      | StageRead \<Rightarrow> ch_revents ch AND kReadEvent \<noteq> 0
      | StageWrite \<Rightarrow> ch_revents ch AND kWriteEvent \<noteq> 0)"

definition stage_run :: "'e EventCallbacks \<Rightarrow> timestamp \<Rightarrow> ChannelStage \<Rightarrow> nat \<Rightarrow> 'e EventWorld \<Rightarrow> bool \<times> 'e EventWorld" where
  "stage_run cb receiveTime stage a w =
     (let ch = ew_channel a w;
          call = (\<lambda>c. case c of None \<Rightarrow> (False, w) | Some f \<Rightarrow> ec_call cb f w)
      in case stage of
           StageClose \<Rightarrow> call (ch_closeCallback ch)
         | StageError \<Rightarrow> call (ch_errorCallback ch)
         | StageRead \<Rightarrow> (case ch_readCallback ch of None \<Rightarrow> (False, w) | Some f \<Rightarrow> ec_read cb f receiveTime w)
         | StageWrite \<Rightarrow> call (ch_writeCallback ch))"

text \<open>The stages of \<open>handleEventWithGuard\<close>: an exception or a changed registration ends the dispatch. The result
  lists the stages that ran and says whether an exception escaped.\<close>

fun handleStages ::
    "'e EventCallbacks \<Rightarrow> timestamp \<Rightarrow> nat \<Rightarrow> nat \<Rightarrow> ChannelStage list \<Rightarrow> 'e EventWorld \<Rightarrow> (ChannelStage list \<times> bool) \<times> 'e EventWorld" where
  "handleStages cb receiveTime generation a [] w = (([], False), w)"
| "handleStages cb receiveTime generation a (stage # stages) w =
     (if stage_due stage (ew_channel a w)
      then case stage_run cb receiveTime stage a w of
             (threw, w1) \<Rightarrow>
               if threw then (([stage], True), w1)
               else if ch_registrationGeneration (ew_channel a w1) \<noteq> generation then (([stage], False), w1)
               else (case handleStages cb receiveTime generation a stages w1 of
                       ((ran', threw'), w2) \<Rightarrow> ((stage # ran', threw'), w2))
      else handleStages cb receiveTime generation a stages w)"

definition Channel_handleEventWithGuard ::
    "'e EventCallbacks \<Rightarrow> timestamp \<Rightarrow> nat \<Rightarrow> 'e EventWorld \<Rightarrow> (ChannelStage list \<times> bool) \<times> 'e EventWorld" where
  "Channel_handleEventWithGuard cb receiveTime a w =
     (let dispatchGeneration = ch_registrationGeneration (ew_channel a w);
          w1 = ew_setChannel a (\<lambda>ch. ch\<lparr> ch_eventHandling := True \<rparr>) w
      in case handleStages cb receiveTime dispatchGeneration a [StageClose, StageError, StageRead, StageWrite] w1 of
           (r, w2) \<Rightarrow> (r, ew_setChannel a (\<lambda>ch. ch\<lparr> ch_eventHandling := False \<rparr>) w2))"

definition Channel_handleEvent ::
    "'e EventCallbacks \<Rightarrow> timestamp \<Rightarrow> nat \<Rightarrow> 'e EventWorld \<Rightarrow> (ChannelStage list \<times> bool) \<times> 'e EventWorld" where
  "Channel_handleEvent cb receiveTime a w =
     (if ch_tied (ew_channel a w)
      then if ec_locked cb (ch_tie (ew_channel a w)) (ew_env w) then Channel_handleEventWithGuard cb receiveTime a w
           else (([], False), w)
      else Channel_handleEventWithGuard cb receiveTime a w)"

section \<open>The dispatch of active channels\<close>

definition EventLoop_hasPendingActiveChannels :: "EventLoop \<Rightarrow> bool" where
  "EventLoop_hasPendingActiveChannels l \<longleftrightarrow> (\<exists>c \<in> set (drop (el_activeChannelCursor l) (el_activeChannels l)). c \<noteq> None)"

text \<open>The stamping of a fresh batch; \<open>Fatal\<close> when the engine named one channel twice.\<close>

fun stampBatch :: "(nat \<times> nat option) list \<Rightarrow> 'e EventWorld \<Rightarrow> unit outcome \<times> 'e EventWorld" where
  "stampBatch [] w = (Inr (), w)"
| "stampBatch ((index, None) # rest) w = stampBatch rest w"
| "stampBatch ((index, Some a) # rest) w =
     (if ch_activeBatchEpoch (ew_channel a w) = el_activeBatchEpoch (ew_loop w) then (Inl Fatal, w)
      else stampBatch rest (ew_setChannel a (\<lambda>ch. ch\<lparr> ch_activeBatchEpoch := el_activeBatchEpoch (ew_loop w),
                                                        ch_activeBatchIndex := index \<rparr>) w))"

text \<open>The completion notices; \<open>n\<close> is what is left of the budget. It returns what is left afterwards.\<close>

fun noticeLoop :: "'e EventCallbacks \<Rightarrow> nat \<Rightarrow> 'e EventWorld \<Rightarrow> nat \<times> 'e EventWorld" where
  "noticeLoop cb 0 w = (0, w)"
| "noticeLoop cb (Suc n) w =
     (case io_takeNextCompletionNotice (ec_io cb) (ew_env w) of
        (None, e) \<Rightarrow> (Suc n, w\<lparr> ew_env := e \<rparr>)
      | (Some notice, e) \<Rightarrow>
          let w1 = w\<lparr> ew_env := e \<rparr> in
          case cn_consumer notice of
            None \<Rightarrow> noticeLoop cb n w1
          | Some consumer \<Rightarrow>
              let observer = ew_channel (cn_observer notice) w1;
                  current = io_completionObserverCurrent (ec_io cb) notice e;
                  observerCurrent = (current \<and> (ch_tied observer \<longrightarrow> ec_locked cb (ch_tie observer) e))
              in (case ec_notice cb consumer (el_pollReturnTime (ew_loop w1)) observerCurrent w1 of
                    (threw, w2) \<Rightarrow>
                      noticeLoop cb n (if threw then EventLoop_handleCallbackException cb SourceChannelEvent w2 else w2)))"

text \<open>The active channels. \<open>fuel\<close> is the number of entries from the cursor on, which only this loop moves; \<open>n\<close> is
  what is left of the budget. The result lists the channels it handled.\<close>

fun channelLoop :: "'e EventCallbacks \<Rightarrow> nat \<Rightarrow> nat \<Rightarrow> 'e EventWorld \<Rightarrow> (nat list \<times> nat) \<times> 'e EventWorld" where
  "channelLoop cb 0 n w = (([], n), w)"
| "channelLoop cb (Suc fuel) n w =
     (let l = ew_loop w; cursor = el_activeChannelCursor l in
      if \<not> (cursor < length (el_activeChannels l) \<and> 0 < n) then (([], n), w)
      else let w1 = ew_upd (\<lambda>l. l\<lparr> el_activeChannelCursor := cursor + 1 \<rparr>) w in
           case el_activeChannels l ! cursor of
             None \<Rightarrow> channelLoop cb fuel n w1
           | Some a \<Rightarrow>
               let w2 = ew_upd (\<lambda>l. l\<lparr> el_currentActiveChannel := Some a \<rparr>) w1 in
               (case Channel_handleEvent cb (el_pollReturnTime l) a w2 of
                  ((_, threw), w3) \<Rightarrow>
                    let w4 = (if threw then EventLoop_handleCallbackException cb SourceChannelEvent w3 else w3);
                        w5 = ew_upd (\<lambda>l. l\<lparr> el_currentActiveChannel := None, el_retiredCurrentChannel := None \<rparr>) w4
                    in (case channelLoop cb fuel (n - 1) w5 of ((as, n'), w6) \<Rightarrow> ((a # as, n'), w6))))"

definition EventLoop_clearBatch :: "'e EventCallbacks \<Rightarrow> 'e EventWorld \<Rightarrow> 'e EventWorld" where
  "EventLoop_clearBatch cb w =
     ew_io (io_retireWaitBatch (ec_io cb)) (ew_upd (\<lambda>l. l\<lparr> el_activeChannels := [], el_activeChannelCursor := 0 \<rparr>) w)"

text \<open>The dispatch after the batch is stamped.\<close>

definition dispatchBatch :: "'e EventCallbacks \<Rightarrow> 'e EventWorld \<Rightarrow> nat list \<times> 'e EventWorld" where
  "dispatchBatch cb w =
     (let budget = eo_maxActiveChannelsPerIteration (el_options (ew_loop w)) in
      case noticeLoop cb budget (ew_upd (\<lambda>l. l\<lparr> el_eventHandling := True \<rparr>) w) of
        (n, w1) \<Rightarrow>
          (case channelLoop cb (length (el_activeChannels (ew_loop w1)) - el_activeChannelCursor (ew_loop w1)) n w1 of
             ((handled, n'), w2) \<Rightarrow>
               let w3 = ew_upd (\<lambda>l. l\<lparr> el_eventHandling := False \<rparr>) w2;
                   l = ew_loop w3;
                   remaining = io_pendingCompletionNoticeCount (ec_io cb) (ew_env w3) +
                     length (filter (\<lambda>c. c \<noteq> None) (drop (el_activeChannelCursor l) (el_activeChannels l)))
               in case ew_now cb w3 of
                    (now, w4) \<Rightarrow>
                      let w5 = EventLoop_emitEventLoopMetric cb
                            (EventLoopMetricSample_default\<lparr> ms_event := ActiveChannelsDrained, ms_drainedWork := budget - n',
                               ms_remainingWork := remaining,
                               ms_oldestReadyLatency := (if el_pollReturnTime l \<le> now then now - el_pollReturnTime l else 0),
                               ms_budgetExhausted := (remaining \<noteq> 0) \<rparr>) w4
                      in (handled, if remaining = 0 then EventLoop_clearBatch cb w5 else w5)))"

definition EventLoop_dispatchActiveChannels :: "'e EventCallbacks \<Rightarrow> 'e EventWorld \<Rightarrow> nat list outcome \<times> 'e EventWorld" where
  "EventLoop_dispatchActiveChannels cb w =
     (if el_eventHandling (ew_loop w) then (Inl LogicError, w)
      else if \<not> EventLoop_hasPendingActiveChannels (ew_loop w) \<and> io_pendingCompletionNoticeCount (ec_io cb) (ew_env w) = 0
      then (Inr [], EventLoop_clearBatch cb w)
      else
        let (stamped, w1) =
          (if el_activeChannelCursor (ew_loop w) = 0
           then let w0 = ew_upd (\<lambda>l. l\<lparr> el_activeBatchEpoch := gen_inc (el_activeBatchEpoch l) \<rparr>) w
                in stampBatch (enumerate 0 (el_activeChannels (ew_loop w0))) w0
           else (Inr (), w))
        in case stamped of
             Inl e \<Rightarrow> (Inl e, w1)
           | Inr _ \<Rightarrow> (case dispatchBatch cb w1 of (handled, w2) \<Rightarrow> (Inr handled, w2)))"

text \<open>The retirement of a channel from inside its own callback; the result says whether the loop took it over.\<close>

definition EventLoop_retireCurrentChannel :: "bool \<Rightarrow> nat option \<Rightarrow> 'e EventWorld \<Rightarrow> bool outcome \<times> 'e EventWorld" where
  "EventLoop_retireCurrentChannel inLoop channel w =
     (case channel of
        None \<Rightarrow> (Inr False, w)
      | Some a \<Rightarrow>
          if \<not> inLoop then (Inl Fatal, w)
          else if \<not> el_eventHandling (ew_loop w) \<or> el_currentActiveChannel (ew_loop w) \<noteq> Some a then (Inr False, w)
          else if el_retiredCurrentChannel (ew_loop w) \<noteq> None then (Inl Fatal, w)
          else (Inr True, ew_upd (\<lambda>l. l\<lparr> el_retiredCurrentChannel := Some a \<rparr>) w))"

section \<open>The loop\<close>

definition EventLoop_hasPendingFunctors :: "EventLoop \<Rightarrow> bool" where
  "EventLoop_hasPendingFunctors l \<longleftrightarrow> el_pendingFunctors l \<noteq> []"

definition EventLoop_hasPendingControlSources :: "EventLoop \<Rightarrow> bool" where
  "EventLoop_hasPendingControlSources l \<longleftrightarrow> ct_pendingCount (el_control l) \<noteq> 0"

definition EventLoop_hasPendingLifecycleNodes :: "EventLoop \<Rightarrow> bool" where
  "EventLoop_hasPendingLifecycleNodes l \<longleftrightarrow> ls_pendingCount (el_lifecycle l) \<noteq> 0"

definition EventLoop_emitIocpCompletionMetric :: "'e EventCallbacks \<Rightarrow> 'e EventWorld \<Rightarrow> 'e EventWorld" where
  "EventLoop_emitIocpCompletionMetric cb w =
     (let notices = io_wakeupNotices (ec_io cb) (ew_env w);
          w1 = (if notices \<noteq> 0
                then EventLoop_emitEventLoopMetric cb
                       (EventLoopMetricSample_default\<lparr> ms_event := WakeupHandled, ms_wakeupCount := el_wakeupCount (ew_loop w),
                          ms_drainedWork := notices \<rparr>) w
                else w);
          progress = io_completionProgress (ec_io cb) (ew_env w1)
      in if icp_drained progress = 0 \<and> icp_deferred progress = 0 then w1
         else EventLoop_emitEventLoopMetric cb
                (EventLoopMetricSample_default\<lparr> ms_event := IocpCompletionPacketsDrained, ms_drainedWork := icp_drained progress,
                   ms_remainingWork := icp_deferred progress, ms_budgetExhausted := icp_budgetExhausted progress \<rparr>) w1)"

fun storeRevents :: "(nat \<times> 32 word) list \<Rightarrow> 'e EventWorld \<Rightarrow> 'e EventWorld" where
  "storeRevents [] w = w"
| "storeRevents ((a, revents) # rest) w = storeRevents rest (ew_setChannel a (Channel_setRevents revents) w)"

text \<open>The wait of an iteration, skipped while the last batch is not finished.\<close>

definition EventLoop_poll :: "'e EventCallbacks \<Rightarrow> ('e EventWorld \<Rightarrow> int \<times> 'e EventWorld) \<Rightarrow> 'e EventWorld \<Rightarrow> 'e EventWorld" where
  "EventLoop_poll cb timeout w =
     (if \<not> EventLoop_hasPendingActiveChannels (ew_loop w) \<and> io_pendingCompletionNoticeCount (ec_io cb) (ew_env w) = 0
      then (case timeout (ew_upd (\<lambda>l. l\<lparr> el_activeChannels := [], el_activeChannelCursor := 0 \<rparr>) w) of
              (ms, w1) \<Rightarrow>
                (case io_wait (ec_io cb) ms (ew_env w1) of
                   ((t, ready), e) \<Rightarrow>
                     EventLoop_emitIocpCompletionMetric cb
                       (ew_upd (\<lambda>l. l\<lparr> el_activeChannels := map (\<lambda>(a, _). Some a) ready, el_pollReturnTime := t \<rparr>)
                          (storeRevents ready (w1\<lparr> ew_env := e \<rparr>)))))
      else w)"

definition runningTimeout :: "'e EventCallbacks \<Rightarrow> 'e EventWorld \<Rightarrow> int \<times> 'e EventWorld" where
  "runningTimeout cb w =
     (let w0 = ec_others cb w in
      if EventLoop_hasPendingControlSources (ew_loop w0) \<or> EventLoop_hasPendingLifecycleNodes (ew_loop w0) then (0, w0)
      else case ew_now cb w0 of (now, w1) \<Rightarrow> (TimerQueue_pollTimeoutMs now 10000 (el_timers (ew_loop w1)), w1))"

text \<open>One iteration of the running loop.\<close>

definition EventLoop_iteration :: "'e EventCallbacks \<Rightarrow> 'e EventWorld \<Rightarrow> unit outcome \<times> 'e EventWorld" where
  "EventLoop_iteration cb w =
     (case EventLoop_dispatchActiveChannels cb (EventLoop_poll cb (runningTimeout cb) w) of
        (Inl e, w1) \<Rightarrow> (Inl e, w1)
      | (Inr _, w1) \<Rightarrow>
          let w2 = snd (EventLoop_doExpiredTimers cb w1);
              w3 = snd (EventLoop_doControlSources cb w2)
          in (case EventLoop_doLifecycleNodes cb w3 of
                (Inl e, w4) \<Rightarrow> (Inl e, w4)
              | (Inr _, w4) \<Rightarrow>
                  (Inr (), snd (EventLoop_doPendingFunctors cb (eo_maxFunctorsPerIteration (el_options (ew_loop w4))) w4))))"

partial_function (option) EventLoop_loopRunning :: "'e EventCallbacks \<Rightarrow> 'e EventWorld \<Rightarrow> (unit outcome \<times> 'e EventWorld) option" where
  "EventLoop_loopRunning cb w =
     (let w0 = ec_others cb w in
      if el_quit (ew_loop w0) then Some (Inr (), w0)
      else case EventLoop_iteration cb w0 of
             (r, w1) \<Rightarrow> if r = Inr () then EventLoop_loopRunning cb w1 else Some (r, w1))"

text \<open>The drains of the quiescing and of the final loop. The first asks before the drains whether there are functors,
  the second just before it runs them.\<close>

definition quiesceDrains ::
    "'e EventCallbacks \<Rightarrow> bool \<Rightarrow> (EventLoop \<Rightarrow> bool) \<Rightarrow> 'e EventWorld \<Rightarrow> unit outcome \<times> 'e EventWorld" where
  "quiesceDrains cb hasControl hasFunctors w =
     (let w1 = (if hasControl then snd (EventLoop_doControlSources cb w) else w);
          w2 = ec_others cb w1
      in case (if EventLoop_hasPendingLifecycleNodes (ew_loop w2) then EventLoop_doLifecycleNodes cb w2 else (Inr [], w2)) of
           (Inl e, w3) \<Rightarrow> (Inl e, w3)
         | (Inr _, w3) \<Rightarrow>
             let w4 = ec_others cb w3
             in (Inr (), if hasFunctors (ew_loop w4)
                         then snd (EventLoop_doPendingFunctors cb (eo_maxFunctorsPerIteration (el_options (ew_loop w4))) w4)
                         else w4))"

definition EventLoop_quiet :: "'e EventCallbacks \<Rightarrow> 'e EventWorld \<Rightarrow> bool" where
  "EventLoop_quiet cb w \<longleftrightarrow>
     \<not> EventLoop_hasPendingFunctors (ew_loop w) \<and> \<not> EventLoop_hasPendingControlSources (ew_loop w) \<and>
     \<not> EventLoop_hasPendingLifecycleNodes (ew_loop w) \<and> \<not> EventLoop_hasPendingActiveChannels (ew_loop w) \<and>
     io_pendingCompletionNoticeCount (ec_io cb) (ew_env w) = 0 \<and> io_quiescent (ec_io cb) (ew_env w)"

text \<open>One round of the quiescing loop.\<close>

definition EventLoop_quiesceRound :: "'e EventCallbacks \<Rightarrow> 'e EventWorld \<Rightarrow> unit outcome \<times> 'e EventWorld" where
  "EventLoop_quiesceRound cb w =
     (case EventLoop_dispatchActiveChannels cb (EventLoop_poll cb (\<lambda>w. (0, w)) w) of
        (Inl e, w1) \<Rightarrow> (Inl e, w1)
      | (Inr _, w1) \<Rightarrow>
          let w2 = ec_others cb w1;
              hasPending = EventLoop_hasPendingFunctors (ew_loop w2);
              hasControl = EventLoop_hasPendingControlSources (ew_loop w2)
          in quiesceDrains cb hasControl (\<lambda>_. hasPending) w2)"

text \<open>One round of the final loop.\<close>

definition EventLoop_finalRound :: "'e EventCallbacks \<Rightarrow> 'e EventWorld \<Rightarrow> unit outcome \<times> 'e EventWorld" where
  "EventLoop_finalRound cb w =
     (case (if EventLoop_hasPendingActiveChannels (ew_loop w) \<or> io_pendingCompletionNoticeCount (ec_io cb) (ew_env w) \<noteq> 0 \<or>
               \<not> io_quiescent (ec_io cb) (ew_env w)
            then EventLoop_dispatchActiveChannels cb (EventLoop_poll cb (\<lambda>w. (0, w)) w) else (Inr [], w)) of
        (Inl e, w1) \<Rightarrow> (Inl e, w1)
      | (Inr _, w1) \<Rightarrow>
          let w2 = ec_others cb w1
          in quiesceDrains cb (EventLoop_hasPendingControlSources (ew_loop w2)) EventLoop_hasPendingFunctors w2)"

partial_function (option) untilQuiet ::
    "'e EventCallbacks \<Rightarrow> ('e EventWorld \<Rightarrow> unit outcome \<times> 'e EventWorld) \<Rightarrow> 'e EventWorld \<Rightarrow> (unit outcome \<times> 'e EventWorld) option" where
  "untilQuiet cb round w =
     (case round w of
        (r, w1) \<Rightarrow>
          let w2 = ec_others cb w1
          in if r \<noteq> Inr () then Some (r, w2)
             else if EventLoop_quiet cb w2 then Some (Inr (), w2)
             else untilQuiet cb round w2)"

definition loop_beginDrain :: "EventLoop \<Rightarrow> EventLoop" where
  "loop_beginDrain l = l\<lparr> el_executor := (el_executor l)\<lparr> ex_accepting := False, ex_drainingAccepted := True \<rparr> \<rparr>"

definition loop_beginFinal :: "EventLoop \<Rightarrow> EventLoop" where
  "loop_beginFinal l =
     l\<lparr> el_lifecycle := (el_lifecycle l)\<lparr> ls_phase := PhaseFinalDraining \<rparr>, el_phase := PhaseFinalDraining \<rparr>"

definition loop_finish :: "EventLoop \<Rightarrow> EventLoop" where
  "loop_finish l =
     l\<lparr> el_executor := (el_executor l)\<lparr> ex_drainingAccepted := False \<rparr>, el_control := ControlState_shutdown (el_control l),
        el_lifecycle := (el_lifecycle l)\<lparr> ls_phase := PhaseShutdown \<rparr>, el_phase := PhaseShutdown \<rparr>"

text \<open>An exception or a fatal error leaves the loop where it happens. Between the last quiet check and the final
  critical section, \<open>ec_others\<close> acts once more.\<close>

definition EventLoop_loop :: "'e EventCallbacks \<Rightarrow> bool \<Rightarrow> 'e EventWorld \<Rightarrow> (unit outcome \<times> 'e EventWorld) option" where
  "EventLoop_loop cb inLoop w =
     (if \<not> inLoop then Some (Inl RuntimeError, w)
      else case EventLoop_loopRunning cb (ew_upd (\<lambda>l. l\<lparr> el_looping := True \<rparr>) w) of
        None \<Rightarrow> None
      | Some (Inl e, w1) \<Rightarrow> Some (Inl e, w1)
      | Some (Inr _, w1) \<Rightarrow>
          let w2 = ew_upd loop_beginDrain (ec_others cb (ew_io (io_beginQuiesce (ec_io cb)) w1))
          in (case untilQuiet cb (EventLoop_quiesceRound cb) w2 of
                None \<Rightarrow> None
              | Some (Inl e, w3) \<Rightarrow> Some (Inl e, w3)
              | Some (Inr _, w3) \<Rightarrow>
                  let w4 = ew_upd loop_beginFinal (ec_others cb w3)
                  in (case untilQuiet cb (EventLoop_finalRound cb) w4 of
                        None \<Rightarrow> None
                      | Some (Inl e, w5) \<Rightarrow> Some (Inl e, w5)
                      | Some (Inr _, w5) \<Rightarrow>
                          Some (Inr (), ew_upd (\<lambda>l. l\<lparr> el_looping := False \<rparr>) (ew_upd loop_finish (ec_others cb w5))))))"

definition EventLoop_destroy :: "bool \<Rightarrow> EventLoop \<Rightarrow> unit outcome \<times> EventLoop" where
  "EventLoop_destroy inLoop l =
     (if \<not> inLoop then (Inl Fatal, l)
      else if el_looping l then (Inl Fatal, l)
      else (Inr (), l\<lparr> el_executor := (el_executor l)\<lparr> ex_accepting := False, ex_drainingAccepted := False, ex_loop := False \<rparr>,
                      el_control := (ControlState_shutdown (el_control l))\<lparr> ct_loop := False \<rparr>,
                      el_lifecycle := (el_lifecycle l)\<lparr> ls_phase := PhaseShutdown, ls_loop := False \<rparr>,
                      el_phase := PhaseShutdown \<rparr>))"

end
