(* ===== verification/Lifecycle_Queues.thy ===== *)
theory Lifecycle_Queues
  imports EventLoop_Lifecycle
begin

text \<open>
  The lifecycle nodes implement two lists. \<open>ls_inv s ds qs\<close> says that the state's pointers spell the dirty queue
  \<open>ds\<close> (in the order of the signals that queued its nodes) and the quiesce list \<open>qs\<close> (in the order of attachment),
  that the counters are their lengths, and that the owning map holds exactly the nodes that are attached, queued or
  running. Each operation is shown to have its effect on the two lists; the loop of \<open>quit\<close> is shown to end.
\<close>

section \<open>Linked lists\<close>

text \<open>The addresses on a chain of \<open>next\<close> pointers.\<close>

fun linked :: "(nat \<Rightarrow> nat option) \<Rightarrow> nat option \<Rightarrow> nat list \<Rightarrow> bool" where
  "linked nx p [] \<longleftrightarrow> p = None"
| "linked nx p (a # as) \<longleftrightarrow> p = Some a \<and> linked nx (nx a) as"

definition opt_last :: "nat list \<Rightarrow> nat option" where
  "opt_last xs = (if xs = [] then None else Some (last xs))"

lemma linked_upd: "a \<notin> set xs \<Longrightarrow> linked (nx(a := v)) p xs = linked nx p xs"
  by (induction xs arbitrary: p) auto

lemma linked_snoc:
  assumes "linked nx p xs" "xs \<noteq> []" "distinct xs" "a \<notin> set xs" "nx a = None"
  shows "linked (nx(last xs := Some a)) p (xs @ [a])"
  using assms
proof (induction xs arbitrary: p)
  case (Cons x xs)
  show ?case
  proof (cases "xs = []")
    case True
    then show ?thesis using Cons.prems by auto
  next
    case False
    then have l: "last xs \<in> set xs" "last (x # xs) = last xs" by simp_all
    then have "last xs \<noteq> x" using Cons.prems(3) by auto
    then show ?thesis using Cons.IH[of "nx x"] Cons.prems False l by simp
  qed
qed simp

text \<open>A segment of a doubly linked list: the pointer before it, its first and last pointer, the pointer after it.\<close>

fun dseg :: "(nat \<Rightarrow> nat option) \<Rightarrow> (nat \<Rightarrow> nat option) \<Rightarrow> nat option \<Rightarrow> nat option \<Rightarrow> nat list \<Rightarrow> nat option \<Rightarrow> nat option \<Rightarrow> bool" where
  "dseg nx pv before h [] t after \<longleftrightarrow> h = after \<and> t = before"
| "dseg nx pv before h (a # as) t after \<longleftrightarrow> h = Some a \<and> pv a = before \<and> dseg nx pv (Some a) (nx a) as t after"

lemma dseg_append:
  "dseg nx pv before h (xs @ ys) t after \<longleftrightarrow> (\<exists>h' t'. dseg nx pv before h xs t' h' \<and> dseg nx pv t' h' ys t after)"
  by (induction xs arbitrary: before h) auto

lemma dseg_upd:
  "a \<notin> set xs \<Longrightarrow> dseg (nx(a := v)) pv before h xs t after = dseg nx pv before h xs t after"
  "a \<notin> set xs \<Longrightarrow> dseg nx (pv(a := v)) before h xs t after = dseg nx pv before h xs t after"
  by (induction xs arbitrary: before h) auto

lemma dseg_last: "dseg nx pv before h xs t after \<Longrightarrow> t = (if xs = [] then before else Some (last xs))"
  by (induction xs arbitrary: before h) auto

lemma dseg_first: "dseg nx pv before h xs t after \<Longrightarrow> h = (if xs = [] then after else Some (hd xs))"
  by (cases xs) auto

text \<open>Redirecting the pointer that leaves a segment at its end, and the one that leaves it at its front.\<close>

lemma dseg_set_after:
  assumes "dseg nx pv before h xs t after" "xs \<noteq> []" "distinct xs"
  shows "dseg (nx(last xs := after')) pv before h xs t after'"
  using assms
proof (induction xs arbitrary: before h)
  case (Cons x xs)
  show ?case
  proof (cases "xs = []")
    case True
    then show ?thesis using Cons.prems by auto
  next
    case False
    then have l: "last (x # xs) = last xs" "last xs \<in> set xs" by simp_all
    then have "last xs \<noteq> x" using Cons.prems(3) by auto
    then show ?thesis using Cons False l by simp
  qed
qed simp

lemma dseg_set_before:
  assumes "dseg nx pv before h xs t after" "xs \<noteq> []" "distinct xs"
  shows "dseg nx (pv(hd xs := before')) before' h xs t after"
  using assms by (cases xs) (auto simp: dseg_upd)

lemma dseg_append_node:
  assumes "dseg nx pv None h xs t None" "distinct xs" "a \<notin> set xs" "nx a = None" "pv a = t"
  shows "dseg (if xs = [] then nx else nx(last xs := Some a)) pv None (if xs = [] then Some a else h) (xs @ [a]) (Some a) None"
proof (cases "xs = []")
  case True
  then show ?thesis using assms by simp
next
  case False
  have "last xs \<noteq> a" using assms(3) False by auto
  have "dseg (nx(last xs := Some a)) pv None h xs t (Some a)" using dseg_set_after[OF assms(1) False assms(2)] .
  moreover have "dseg (nx(last xs := Some a)) pv t (Some a) [a] (Some a) None" using assms(4,5) \<open>last xs \<noteq> a\<close> by simp
  ultimately show ?thesis using False by (auto simp: dseg_append)
qed

text \<open>Unlinking a node.\<close>

lemma dseg_remove_node:
  assumes d: "dseg nx pv None h (us @ a # vs) t None" "distinct (us @ a # vs)"
  defines "nx' \<equiv> (case pv a of None \<Rightarrow> nx | Some p \<Rightarrow> nx(p := nx a))"
    and "pv' \<equiv> (case nx a of None \<Rightarrow> pv | Some q \<Rightarrow> pv(q := pv a))"
  shows "dseg nx' pv' None (case pv a of None \<Rightarrow> nx a | Some _ \<Rightarrow> h) (us @ vs) (case nx a of None \<Rightarrow> pv a | Some _ \<Rightarrow> t) None"
    "pv a = opt_last us" "nx a = (if vs = [] then None else Some (hd vs))"
proof -
  from d(1) obtain h' t' where u: "dseg nx pv None h us t' h'" and av: "dseg nx pv t' h' (a # vs) t None"
    by (auto simp: dseg_append)
  from av have h': "h' = Some a" and pa: "pv a = t'" and v: "dseg nx pv (Some a) (nx a) vs t None" by simp_all
  have t': "t' = opt_last us" using dseg_last[OF u] by (simp add: opt_last_def)
  show "pv a = opt_last us" using pa t' by simp
  show na: "nx a = (if vs = [] then None else Some (hd vs))" using dseg_first[OF v] .
  have dis: "distinct us" "distinct vs" "a \<notin> set us" "a \<notin> set vs" "set us \<inter> set vs = {}" using d(2) by auto
  have u': "dseg nx' pv' None (case pv a of None \<Rightarrow> nx a | Some _ \<Rightarrow> h) us t' (nx a)"
  proof (cases "us = []")
    case True
    then show ?thesis using u pa t' by (simp add: opt_last_def)
  next
    case False
    have "dseg (nx(last us := nx a)) pv None h us t' (nx a)" using dseg_set_after[OF u False dis(1)] .
    moreover have "nx' = nx(last us := nx a)" using False pa t' by (simp add: nx'_def opt_last_def)
    moreover have "dseg n pv' b hh us tt aa = dseg n pv b hh us tt aa" for n b hh tt aa
      using na dis(5) by (cases vs) (auto simp: pv'_def dseg_upd)
    ultimately show ?thesis using False pa t' by (simp add: opt_last_def)
  qed
  have v': "dseg nx' pv' t' (nx a) vs (case nx a of None \<Rightarrow> pv a | Some _ \<Rightarrow> t) None"
  proof (cases "vs = []")
    case True
    then show ?thesis using na pa v by simp
  next
    case False
    have "dseg nx (pv(hd vs := t')) t' (nx a) vs t None" using dseg_set_before[OF v False dis(2)] .
    moreover have "pv' = pv(hd vs := t')" using False na pa by (simp add: pv'_def)
    moreover have "dseg nx' p b hh vs tt aa = dseg nx p b hh vs tt aa" for p b hh tt aa
    proof (cases "us = []")
      case True
      then show ?thesis using pa t' by (simp add: nx'_def opt_last_def)
    next
      case F: False
      then have "last us \<notin> set vs" using dis(5) last_in_set[OF F] by blast
      then show ?thesis using F pa t' by (simp add: nx'_def opt_last_def dseg_upd)
    qed
    ultimately show ?thesis using False na by simp
  qed
  show "dseg nx' pv' None (case pv a of None \<Rightarrow> nx a | Some _ \<Rightarrow> h) (us @ vs) (case nx a of None \<Rightarrow> pv a | Some _ \<Rightarrow> t) None"
    using u' v' by (auto simp: dseg_append)
qed

section \<open>The invariant\<close>

text \<open>A field of all nodes, as a function of the address.\<close>

definition fld :: "(LifecycleNode \<Rightarrow> 'a) \<Rightarrow> LifecycleSourceState \<Rightarrow> nat \<Rightarrow> 'a" where
  "fld F s a = F (ls_node s a)"

abbreviation ls_size :: "LifecycleSourceState \<Rightarrow> nat" where
  "ls_size s \<equiv> length (ls_heap s)"

lemma ls_write_simps [simp]:
  "ls_size (ls_write a f s) = ls_size s" "ls_nodes (ls_write a f s) = ls_nodes s" "ls_phase (ls_write a f s) = ls_phase s"
  "ls_dirtyHead (ls_write a f s) = ls_dirtyHead s" "ls_dirtyTail (ls_write a f s) = ls_dirtyTail s"
  "ls_quiesceHead (ls_write a f s) = ls_quiesceHead s" "ls_quiesceTail (ls_write a f s) = ls_quiesceTail s"
  "ls_pendingCount (ls_write a f s) = ls_pendingCount s" "ls_attachedCount (ls_write a f s) = ls_attachedCount s"
  "ls_nextNodeId (ls_write a f s) = ls_nextNodeId s" "ls_maxNodes (ls_write a f s) = ls_maxNodes s"
  "ls_activeNode (ls_write a f s) = ls_activeNode s" "ls_activeGeneration (ls_write a f s) = ls_activeGeneration s"
  "ls_loop (ls_write a f s) = ls_loop s"
  by (simp_all add: ls_write_def)

lemma ls_node_write [simp]: "a < ls_size s \<Longrightarrow> ls_node (ls_write a f s) a = f (ls_node s a)"
  by (simp add: ls_write_def)

lemma fld_write: "a < ls_size s \<Longrightarrow> fld F (ls_write a f s) = (fld F s)(a := F (f (ls_node s a)))"
  by (auto simp: fld_def ls_write_def fun_eq_iff nth_list_update)

lemma fld_write_same [simp]: "(\<And>n. F (f n) = F n) \<Longrightarrow> fld F (ls_write a f s) = fld F s"
  by (cases "a < ls_size s") (auto simp: fld_def ls_write_def fun_eq_iff nth_list_update list_update_beyond)

lemma fld_other [simp]:
  "fld F (s\<lparr> ls_dirtyHead := x \<rparr>) = fld F s" "fld F (s\<lparr> ls_dirtyTail := x \<rparr>) = fld F s"
  "fld F (s\<lparr> ls_quiesceHead := x \<rparr>) = fld F s" "fld F (s\<lparr> ls_quiesceTail := x \<rparr>) = fld F s"
  "fld F (s\<lparr> ls_pendingCount := n \<rparr>) = fld F s" "fld F (s\<lparr> ls_attachedCount := n \<rparr>) = fld F s"
  "fld F (s\<lparr> ls_activeNode := x \<rparr>) = fld F s" "fld F (s\<lparr> ls_activeGeneration := n \<rparr>) = fld F s"
  "fld F (s\<lparr> ls_nodes := ns \<rparr>) = fld F s" "fld F (s\<lparr> ls_phase := p \<rparr>) = fld F s"
  "fld F (s\<lparr> ls_signals := n \<rparr>) = fld F s" "fld F (s\<lparr> ls_mergedSignals := n \<rparr>) = fld F s" "fld F (s\<lparr> ls_rejectedSignals := n \<rparr>) = fld F s"
  by (simp_all add: fld_def fun_eq_iff)

text \<open>The dirty queue is a linked list of exactly the dirty nodes.\<close>

definition dirty_ok :: "LifecycleSourceState \<Rightarrow> nat list \<Rightarrow> bool" where
  "dirty_ok s ds \<longleftrightarrow> linked (fld ln_dirtyNext s) (ls_dirtyHead s) ds \<and> ls_dirtyTail s = opt_last ds \<and> distinct ds \<and>
     set ds \<subseteq> {..<ls_size s} \<and> (\<forall>a < ls_size s. fld ln_dirty s a \<longleftrightarrow> a \<in> set ds) \<and> ls_pendingCount s = length ds"

text \<open>The quiesce list is a doubly linked list of exactly the attached participants.\<close>

definition quiesce_ok :: "LifecycleSourceState \<Rightarrow> nat list \<Rightarrow> bool" where
  "quiesce_ok s qs \<longleftrightarrow> dseg (fld ln_quiesceNext s) (fld ln_quiescePrevious s) None (ls_quiesceHead s) qs (ls_quiesceTail s) None \<and>
     distinct qs \<and> set qs \<subseteq> {..<ls_size s} \<and> (\<forall>a < ls_size s. a \<in> set qs \<longleftrightarrow> fld ln_attached s a \<and> fld ln_notifyOnQuiesce s a)"

text \<open>The map owns nodes under their own, distinct identities.\<close>

definition registry_ok :: "LifecycleSourceState \<Rightarrow> bool" where
  "registry_ok s \<longleftrightarrow>
     (\<forall>a < ls_size s. \<forall>b < ls_size s. fld ln_id s a = fld ln_id s b \<longrightarrow> a = b) \<and>
     (\<forall>i a. map_of (ls_nodes s) i = Some a \<longrightarrow> a < ls_size s \<and> fld ln_id s a = i) \<and>
     distinct (map fst (ls_nodes s)) \<and> length (ls_nodes s) \<le> ls_maxNodes s \<and> ls_nextNodeId s < 2 ^ 64 \<and>
     (ls_nextNodeId s \<noteq> 0 \<longrightarrow> (\<forall>a < ls_size s. fld ln_id s a < ls_nextNodeId s))"

text \<open>The owned nodes are the ones that are attached, dirty or running.\<close>

definition owned :: "LifecycleSourceState \<Rightarrow> nat \<Rightarrow> bool" where
  "owned s a \<longleftrightarrow> map_of (ls_nodes s) (fld ln_id s a) = Some a"

definition flags_ok :: "LifecycleSourceState \<Rightarrow> bool" where
  "flags_ok s \<longleftrightarrow>
     (\<forall>a < ls_size s. owned s a \<longleftrightarrow> fld ln_attached s a \<or> fld ln_dirty s a \<or> fld ln_active s a) \<and>
     (\<forall>a < ls_size s. fld ln_active s a \<longleftrightarrow> ls_activeNode s = Some a) \<and> (\<forall>a. ls_activeNode s = Some a \<longrightarrow> a < ls_size s) \<and>
     ls_attachedCount s = card {a. a < ls_size s \<and> fld ln_attached s a}"

definition ls_inv :: "LifecycleSourceState \<Rightarrow> nat list \<Rightarrow> nat list \<Rightarrow> bool" where
  "ls_inv s ds qs \<longleftrightarrow> dirty_ok s ds \<and> quiesce_ok s qs \<and> registry_ok s \<and> flags_ok s"

lemma ls_inv_new: "ls_inv (LifecycleState_new n) [] []"
  by (simp add: ls_inv_def dirty_ok_def quiesce_ok_def registry_ok_def flags_ok_def LifecycleState_new_def opt_last_def)

section \<open>Operations on the lists\<close>

lemma ls_commit_fields:
  fixes now g
  assumes a: "a < ls_size s" and t: "\<forall>t. ls_dirtyTail s = Some t \<longrightarrow> t < ls_size s"
  defines "s' \<equiv> ls_commit now g a s"
  shows "fld ln_dirtyNext s' = (case ls_dirtyTail s of None \<Rightarrow> (fld ln_dirtyNext s)(a := None)
      | Some t \<Rightarrow> (fld ln_dirtyNext s)(a := None, t := Some a))"
    "fld ln_dirty s' = (fld ln_dirty s)(a := True)" "fld ln_pendingGeneration s' = (fld ln_pendingGeneration s)(a := g)"
    "ls_dirtyHead s' = (if ls_dirtyTail s = None then Some a else ls_dirtyHead s)" "ls_dirtyTail s' = Some a"
    "ls_pendingCount s' = ls_pendingCount s + 1"
    "fld ln_attached s' = fld ln_attached s" "fld ln_active s' = fld ln_active s" "fld ln_id s' = fld ln_id s"
    "fld ln_notifyOnQuiesce s' = fld ln_notifyOnQuiesce s" "fld ln_quiesceNext s' = fld ln_quiesceNext s"
    "fld ln_quiescePrevious s' = fld ln_quiescePrevious s" "fld ln_generation s' = fld ln_generation s"
    "fld ln_callback s' = fld ln_callback s"
    "ls_size s' = ls_size s" "ls_nodes s' = ls_nodes s" "ls_quiesceHead s' = ls_quiesceHead s" "ls_quiesceTail s' = ls_quiesceTail s"
    "ls_attachedCount s' = ls_attachedCount s" "ls_nextNodeId s' = ls_nextNodeId s" "ls_maxNodes s' = ls_maxNodes s"
    "ls_activeNode s' = ls_activeNode s" "ls_phase s' = ls_phase s" "ls_loop s' = ls_loop s"
    "ls_activeGeneration s' = ls_activeGeneration s"
  unfolding s'_def ls_commit_def Let_def
  by (simp_all split: option.split) (simp_all add: fld_write a t)

lemma dirty_tail:
  assumes "ls_inv s ds qs"
  shows "\<forall>t. ls_dirtyTail s = Some t \<longrightarrow> t < ls_size s"
proof -
  have d: "ls_dirtyTail s = opt_last ds" "set ds \<subseteq> {..<ls_size s}" using assms by (simp_all add: ls_inv_def dirty_ok_def)
  show ?thesis using d(1) subsetD[OF d(2) last_in_set] by (simp add: opt_last_def split: if_splits)
qed

lemma ls_commit_inv:
  assumes inv: "ls_inv s ds qs" and a: "a < ls_size s" "a \<notin> set ds" "fld ln_attached s a"
  shows "ls_inv (ls_commit now g a s) (ds @ [a]) qs"
proof -
  have d: "linked (fld ln_dirtyNext s) (ls_dirtyHead s) ds" "ls_dirtyTail s = opt_last ds" "distinct ds" "set ds \<subseteq> {..<ls_size s}"
    "\<forall>a < ls_size s. fld ln_dirty s a \<longleftrightarrow> a \<in> set ds" "ls_pendingCount s = length ds"
    using inv by (simp_all add: ls_inv_def dirty_ok_def)
  note f = ls_commit_fields[OF a(1) dirty_tail[OF inv], where now = now and g = g]
  have l: "linked (fld ln_dirtyNext (ls_commit now g a s)) (ls_dirtyHead (ls_commit now g a s)) (ds @ [a])"
  proof (cases "ds = []")
    case True
    then show ?thesis using d(1,2) f(1,4) by (simp add: opt_last_def)
  next
    case False
    have "linked ((fld ln_dirtyNext s)(a := None)) (ls_dirtyHead s) ds" using d(1) a(2) by (simp add: linked_upd)
    from linked_snoc[OF this False d(3) a(2)] show ?thesis using d(2) f(1,4) False by (simp add: opt_last_def)
  qed
  have "dirty_ok (ls_commit now g a s) (ds @ [a])"
    unfolding dirty_ok_def f(2,5,6,15) using l a(1,2) d(3-6) by (auto simp: opt_last_def)
  moreover have "quiesce_ok (ls_commit now g a s) qs" using inv by (simp add: ls_inv_def quiesce_ok_def f)
  moreover have "registry_ok (ls_commit now g a s)" using inv by (simp add: ls_inv_def registry_ok_def f)
  moreover have "flags_ok (ls_commit now g a s)"
    using inv a(3) by (simp add: ls_inv_def flags_ok_def owned_def f)
  ultimately show ?thesis by (simp add: ls_inv_def)
qed

lemma ls_inv_counters [simp]:
  "ls_inv (s\<lparr> ls_signals := n \<rparr>) ds qs = ls_inv s ds qs" "ls_inv (s\<lparr> ls_mergedSignals := n \<rparr>) ds qs = ls_inv s ds qs"
  "ls_inv (s\<lparr> ls_rejectedSignals := n \<rparr>) ds qs = ls_inv s ds qs" "ls_inv (s\<lparr> ls_phase := p \<rparr>) ds qs = ls_inv s ds qs"
  by (simp_all add: ls_inv_def dirty_ok_def quiesce_ok_def registry_ok_def flags_ok_def owned_def)

lemma if_chain_cases:
  assumes "(if c1 then x1 else if c2 then x2 else if c3 then x3 else if c4 then x4 else x5) = y"
  shows "y = x1 \<or> y = x2 \<or> y = x3 \<or> c4 \<and> y = x4 \<or> \<not> c2 \<and> \<not> c4 \<and> y = x5"
  using assms by (simp split: if_splits)

lemma ls_signal_cases:
  assumes e: "EventLoopLifecycleSource_signal alive t now src s = ((r, w), s')"
  defines "n \<equiv> ls_node s (lsrc_node src)" and "s1 \<equiv> s\<lparr> ls_signals := u64_inc (ls_signals s) \<rparr>"
  shows "(r \<noteq> PostAccepted \<or> ln_dirty n) \<and> \<not> w \<and>
      (s' = s \<or> s' = s\<lparr> ls_rejectedSignals := u64_inc (ls_rejectedSignals s) \<rparr> \<or> s' = s1\<lparr> ls_mergedSignals := u64_inc (ls_mergedSignals s1) \<rparr>) \<or>
    r = PostAccepted \<and> w \<and> \<not> ln_dirty n \<and> ln_attached n \<and> s' = ls_commit now (lsrc_generation src) (lsrc_node src) s1"
  using if_chain_cases[OF e[unfolded EventLoopLifecycleSource_signal_def Let_def, folded n_def s1_def]]
  by (elim disjE conjE) (simp_all only: prod.inject PostResult.distinct not_True_eq_False not_False_eq_True simp_thms de_Morgan_disj)

text \<open>The dirty queue after a signal: a node that is not yet queued goes to its end.\<close>

lemma ls_signal:
  assumes inv: "ls_inv s ds qs" and a: "lsrc_node src < ls_size s"
    and e: "EventLoopLifecycleSource_signal alive t now src s = ((r, w), s')"
  shows "ls_inv s' (if r = PostAccepted \<and> lsrc_node src \<notin> set ds then ds @ [lsrc_node src] else ds) qs"
    "w \<longleftrightarrow> r = PostAccepted \<and> lsrc_node src \<notin> set ds" "ls_activeNode s' = ls_activeNode s" "ls_phase s' = ls_phase s"
    "ls_size s' = ls_size s" "fld ln_callback s' = fld ln_callback s" "ls_loop s' = ls_loop s" "ls_maxNodes s' = ls_maxNodes s"
    "fld ln_attached s' = fld ln_attached s" "fld ln_generation s' = fld ln_generation s"
    "ls_activeGeneration s' = ls_activeGeneration s"
proof -
  let ?a = "lsrc_node src"
  have d: "ln_dirty (ls_node s ?a) \<longleftrightarrow> ?a \<in> set ds" using inv a by (simp add: ls_inv_def dirty_ok_def fld_def)
  let ?s1 = "s\<lparr> ls_signals := u64_inc (ls_signals s) \<rparr>"
  have inv1: "ls_inv ?s1 ds qs" using inv by simp
  have a1: "?a < ls_size ?s1" using a by simp
  note f = ls_commit_fields[OF a1 dirty_tail[OF inv1], where now = now and g = "lsrc_generation src"]
  from ls_signal_cases[OF e] consider (same) "r \<noteq> PostAccepted \<or> ?a \<in> set ds" "\<not> w"
      "s' = s \<or> s' = s\<lparr> ls_rejectedSignals := u64_inc (ls_rejectedSignals s) \<rparr> \<or> s' = ?s1\<lparr> ls_mergedSignals := u64_inc (ls_mergedSignals ?s1) \<rparr>"
    | (commit) "r = PostAccepted" "w" "?a \<notin> set ds" "fld ln_attached s ?a" "s' = ls_commit now (lsrc_generation src) ?a ?s1"
    unfolding fld_def d by blast
  then have "ls_inv s' (if r = PostAccepted \<and> ?a \<notin> set ds then ds @ [?a] else ds) qs \<and> (w \<longleftrightarrow> r = PostAccepted \<and> ?a \<notin> set ds) \<and>
    ls_activeNode s' = ls_activeNode s \<and> ls_phase s' = ls_phase s \<and> ls_size s' = ls_size s \<and> fld ln_callback s' = fld ln_callback s \<and>
    ls_loop s' = ls_loop s \<and> ls_maxNodes s' = ls_maxNodes s \<and> fld ln_attached s' = fld ln_attached s \<and>
    fld ln_generation s' = fld ln_generation s \<and> ls_activeGeneration s' = ls_activeGeneration s"
  proof cases
    case same
    then show ?thesis using inv by auto
  next
    case commit
    then show ?thesis using f a ls_commit_inv[OF inv1, of ?a now "lsrc_generation src"] by simp
  qed
  then show "ls_inv s' (if r = PostAccepted \<and> lsrc_node src \<notin> set ds then ds @ [lsrc_node src] else ds) qs"
    "w \<longleftrightarrow> r = PostAccepted \<and> lsrc_node src \<notin> set ds" "ls_activeNode s' = ls_activeNode s" "ls_phase s' = ls_phase s"
    "ls_size s' = ls_size s" "fld ln_callback s' = fld ln_callback s" "ls_loop s' = ls_loop s" "ls_maxNodes s' = ls_maxNodes s"
    "fld ln_attached s' = fld ln_attached s" "fld ln_generation s' = fld ln_generation s"
    "ls_activeGeneration s' = ls_activeGeneration s"
    by blast+
qed

text \<open>The head of the dirty queue is taken, never a node that nobody owns.\<close>

lemma ls_popDirty_empty: "ls_inv s [] qs \<Longrightarrow> LifecycleState_popDirty s = (Inr None, s)"
  by (simp add: ls_inv_def dirty_ok_def LifecycleState_popDirty_def)

lemma ls_popDirty:
  assumes inv: "ls_inv s (a # ds) qs" and idle: "ls_activeNode s = None"
  obtains s' where "LifecycleState_popDirty s = (Inr (Some (a, fld ln_callback s a)), s')" "ls_inv s' ds qs"
    "ls_activeNode s' = Some a" "ls_phase s' = ls_phase s" "ls_size s' = ls_size s" "fld ln_callback s' = fld ln_callback s"
    "ls_loop s' = ls_loop s" "ls_maxNodes s' = ls_maxNodes s"
proof -
  have a: "a < ls_size s" "ls_dirtyHead s = Some a" and d: "linked (fld ln_dirtyNext s) (fld ln_dirtyNext s a) ds" "a \<notin> set ds"
    "ls_dirtyTail s = opt_last (a # ds)" "ls_pendingCount s = Suc (length ds)" "distinct ds" "set ds \<subseteq> {..<ls_size s}"
    "\<forall>b < ls_size s. fld ln_dirty s b \<longleftrightarrow> b = a \<or> b \<in> set ds"
    using inv by (simp_all add: ls_inv_def dirty_ok_def)
  have own: "owned s a" using inv a d(7) by (simp add: ls_inv_def flags_ok_def)
  have h: "fld ln_dirtyNext s a = (if ds = [] then None else Some (hd ds))" using d(1) by (cases ds) simp_all
  define s' where "s' = snd (LifecycleState_popDirty s)"
  let ?s2 = "(if fld ln_dirtyNext s a = None then s\<lparr> ls_dirtyHead := fld ln_dirtyNext s a, ls_dirtyTail := None \<rparr>
     else s\<lparr> ls_dirtyHead := fld ln_dirtyNext s a \<rparr>)"
  let ?s3 = "(ls_write a (\<lambda>n. n\<lparr> ln_dirtyNext := None, ln_dirty := False \<rparr>) ?s2)\<lparr> ls_pendingCount := sz_sub (ls_pendingCount s) 1 \<rparr>"
  have n3: "ls_node ?s3 a = (ls_node s a)\<lparr> ln_dirtyNext := None, ln_dirty := False \<rparr>" using a by (simp add: ls_write_def)
  have e: "LifecycleState_popDirty s = (Inr (Some (a, fld ln_callback s a)),
     (ls_write a (\<lambda>n. n\<lparr> ln_pendingGeneration := 0, ln_pendingSince := 0, ln_active := True \<rparr>) ?s3)
        \<lparr> ls_activeNode := Some a, ls_activeGeneration := ln_pendingGeneration (ls_node s a) \<rparr>)"
    using a own unfolding LifecycleState_popDirty_def owned_def fld_def Let_def by (simp add: ls_write_def)
  have f: "fld ln_dirtyNext s' = (fld ln_dirtyNext s)(a := None)" "fld ln_dirty s' = (fld ln_dirty s)(a := False)"
    "fld ln_active s' = (fld ln_active s)(a := True)" "fld ln_attached s' = fld ln_attached s" "fld ln_id s' = fld ln_id s"
    "fld ln_notifyOnQuiesce s' = fld ln_notifyOnQuiesce s" "fld ln_quiesceNext s' = fld ln_quiesceNext s"
    "fld ln_quiescePrevious s' = fld ln_quiescePrevious s" "fld ln_callback s' = fld ln_callback s"
    "ls_size s' = ls_size s" "ls_nodes s' = ls_nodes s" "ls_quiesceHead s' = ls_quiesceHead s" "ls_quiesceTail s' = ls_quiesceTail s"
    "ls_attachedCount s' = ls_attachedCount s" "ls_nextNodeId s' = ls_nextNodeId s" "ls_maxNodes s' = ls_maxNodes s"
    "ls_activeNode s' = Some a" "ls_phase s' = ls_phase s" "ls_loop s' = ls_loop s" "ls_dirtyHead s' = fld ln_dirtyNext s a"
    "ls_dirtyTail s' = opt_last ds" "ls_pendingCount s' = length ds"
    using a d(3,4) h unfolding s'_def e by (simp_all) (simp_all add: fld_write opt_last_def sz_sub_def)
  have "dirty_ok s' ds" unfolding dirty_ok_def f using d a by (auto simp: linked_upd)
  moreover have "quiesce_ok s' qs" using inv by (simp add: ls_inv_def quiesce_ok_def f)
  moreover have "registry_ok s'" using inv by (simp add: ls_inv_def registry_ok_def f)
  moreover have "flags_ok s'" using inv own idle a d(7) by (auto simp: ls_inv_def flags_ok_def owned_def f)
  ultimately have "ls_inv s' ds qs" by (simp add: ls_inv_def)
  with that[of s'] e f show ?thesis by (simp add: s'_def)
qed

lemma ls_retire_simps [simp]:
  "ls_size (ls_retire a s) = ls_size s" "fld F (ls_retire a s) = fld F s" "ls_phase (ls_retire a s) = ls_phase s"
  "ls_activeNode (ls_retire a s) = ls_activeNode s" "ls_loop (ls_retire a s) = ls_loop s" "ls_maxNodes (ls_retire a s) = ls_maxNodes s"
  "ls_attachedCount (ls_retire a s) = ls_attachedCount s" "ls_nextNodeId (ls_retire a s) = ls_nextNodeId s"
  "ls_activeGeneration (ls_retire a s) = ls_activeGeneration s"
  by (simp_all add: ls_retire_def)

lemma ls_retire_lists [simp]:
  "dirty_ok (ls_retire a s) ds = dirty_ok s ds" "quiesce_ok (ls_retire a s) qs = quiesce_ok s qs"
  by (simp_all add: dirty_ok_def quiesce_ok_def) (simp_all add: ls_retire_def)

lemma ls_retire_owned:
  assumes r: "registry_ok s" and a: "a < ls_size s"
  shows "registry_ok (ls_retire a s)" "b < ls_size s \<Longrightarrow> owned (ls_retire a s) b \<longleftrightarrow> owned s b \<and> b \<noteq> a"
proof -
  have id: "ln_id (ls_node s a) = fld ln_id s a" by (simp add: fld_def)
  let ?d = "AList.delete (fld ln_id s a) (ls_nodes s)"
  have m: "map_of (ls_nodes (ls_retire a s)) i = (if owned s a \<and> i = fld ln_id s a then None else map_of (ls_nodes s) i)" for i
    by (simp add: ls_retire_def owned_def id delete_conv')
  have len: "length (ls_nodes (ls_retire a s)) \<le> length (ls_nodes s)" "distinct (map fst (ls_nodes (ls_retire a s)))"
    using r by (auto simp: ls_retire_def registry_ok_def length_delete_le distinct_delete)
  show "registry_ok (ls_retire a s)" using r len m by (auto simp: registry_ok_def split: if_splits)
  assume b: "b < ls_size s"
  show "owned (ls_retire a s) b \<longleftrightarrow> owned s b \<and> b \<noteq> a"
  proof (cases "b = a")
    case True
    then show ?thesis using m[of "fld ln_id s a"] by (auto simp: owned_def)
  next
    case False
    then have "fld ln_id s b \<noteq> fld ln_id s a" using r a b by (auto simp: registry_ok_def)
    then show ?thesis using False m[of "fld ln_id s b"] by (simp add: owned_def)
  qed
qed

text \<open>A node that just lost its last reason to be owned is retired.\<close>

lemma ls_retire_inv:
  assumes l: "dirty_ok s ds" "quiesce_ok s qs" "registry_ok s"
    and o: "\<forall>b < ls_size s. owned s b \<longleftrightarrow> b = a \<or> fld ln_attached s b \<or> fld ln_dirty s b \<or> fld ln_active s b"
    and act: "\<forall>b < ls_size s. fld ln_active s b \<longleftrightarrow> ls_activeNode s = Some b" "\<forall>b. ls_activeNode s = Some b \<longrightarrow> b < ls_size s" and a: "a < ls_size s"
    and c: "ls_attachedCount s = card {a. a < ls_size s \<and> fld ln_attached s a}"
  shows "ls_inv (if fld ln_attached s a \<or> fld ln_dirty s a \<or> fld ln_active s a then s else ls_retire a s) ds qs"
proof (cases "fld ln_attached s a \<or> fld ln_dirty s a \<or> fld ln_active s a")
  case True
  then have "flags_ok s" using o act c by (auto simp: flags_ok_def)
  then show ?thesis using True l by (simp add: ls_inv_def)
next
  case False
  have "flags_ok (ls_retire a s)" unfolding flags_ok_def using False o act c ls_retire_owned(2)[OF l(3) a] by auto
  then show ?thesis using False l ls_retire_owned(1)[OF l(3) a] by (auto simp: ls_inv_def)
qed

lemma ls_finish:
  assumes inv: "ls_inv s ds qs" and act: "ls_activeNode s = Some a" and a: "a < ls_size s"
  defines "s' \<equiv> LifecycleState_finish a s"
  shows "ls_inv s' ds qs" "ls_activeNode s' = None" "ls_phase s' = ls_phase s" "ls_size s' = ls_size s"
    "fld ln_callback s' = fld ln_callback s" "ls_loop s' = ls_loop s" "ls_maxNodes s' = ls_maxNodes s"
proof -
  define t where "t = (ls_write a (\<lambda>n. n\<lparr> ln_active := False \<rparr>) s)\<lparr> ls_activeNode := None, ls_activeGeneration := 0 \<rparr>"
  have f: "fld ln_active t = (fld ln_active s)(a := False)" "fld ln_attached t = fld ln_attached s" "fld ln_dirty t = fld ln_dirty s"
    "fld ln_id t = fld ln_id s" "fld ln_dirtyNext t = fld ln_dirtyNext s" "fld ln_notifyOnQuiesce t = fld ln_notifyOnQuiesce s"
    "fld ln_quiesceNext t = fld ln_quiesceNext s" "fld ln_quiescePrevious t = fld ln_quiescePrevious s"
    "fld ln_callback t = fld ln_callback s"
    "ls_size t = ls_size s" "ls_nodes t = ls_nodes s" "ls_quiesceHead t = ls_quiesceHead s" "ls_quiesceTail t = ls_quiesceTail s"
    "ls_attachedCount t = ls_attachedCount s" "ls_nextNodeId t = ls_nextNodeId s" "ls_maxNodes t = ls_maxNodes s"
    "ls_activeNode t = None" "ls_phase t = ls_phase s" "ls_loop t = ls_loop s" "ls_dirtyHead t = ls_dirtyHead s"
    "ls_dirtyTail t = ls_dirtyTail s" "ls_pendingCount t = ls_pendingCount s"
    using a unfolding t_def by simp_all (simp_all add: fld_write)
  have e: "s' = (if fld ln_attached t a \<or> fld ln_dirty t a \<or> fld ln_active t a then t else ls_retire a t)"
    using act a f(1) unfolding s'_def LifecycleState_finish_def Let_def by (simp add: fld_def t_def)
  have l: "dirty_ok t ds" "quiesce_ok t qs" "registry_ok t"
    using inv by (simp_all add: ls_inv_def dirty_ok_def quiesce_ok_def registry_ok_def f)
  have o: "\<forall>b < ls_size t. owned t b \<longleftrightarrow> b = a \<or> fld ln_attached t b \<or> fld ln_dirty t b \<or> fld ln_active t b"
    "\<forall>b < ls_size t. fld ln_active t b \<longleftrightarrow> ls_activeNode t = Some b" "\<forall>b. ls_activeNode t = Some b \<longrightarrow> b < ls_size t"
    "ls_attachedCount t = card {a. a < ls_size t \<and> fld ln_attached t a}"
    using inv act by (auto simp: ls_inv_def flags_ok_def owned_def f)
  show "ls_inv s' ds qs" unfolding e using ls_retire_inv[OF l o(1-3) _ o(4)] a f(10) by simp
  show "ls_activeNode s' = None" "ls_phase s' = ls_phase s" "ls_size s' = ls_size s"
    "fld ln_callback s' = fld ln_callback s" "ls_loop s' = ls_loop s" "ls_maxNodes s' = ls_maxNodes s"
    unfolding e by (simp_all add: f)
qed

lemma ls_unlinkQuiesce_fields:
  assumes a: "a < ls_size s" and p: "\<forall>p. fld ln_quiescePrevious s a = Some p \<longrightarrow> p < ls_size s \<and> p \<noteq> a"
    and q: "\<forall>q. fld ln_quiesceNext s a = Some q \<longrightarrow> q < ls_size s \<and> q \<noteq> a"
  defines "s' \<equiv> ls_unlinkQuiesce a s"
  shows "fld ln_quiesceNext s' = (case fld ln_quiescePrevious s a of None \<Rightarrow> fld ln_quiesceNext s
      | Some p \<Rightarrow> (fld ln_quiesceNext s)(p := fld ln_quiesceNext s a))(a := None)"
    "fld ln_quiescePrevious s' = (case fld ln_quiesceNext s a of None \<Rightarrow> fld ln_quiescePrevious s
      | Some q \<Rightarrow> (fld ln_quiescePrevious s)(q := fld ln_quiescePrevious s a))(a := None)"
    "ls_quiesceHead s' = (case fld ln_quiescePrevious s a of None \<Rightarrow> fld ln_quiesceNext s a | Some _ \<Rightarrow> ls_quiesceHead s)"
    "ls_quiesceTail s' = (case fld ln_quiesceNext s a of None \<Rightarrow> fld ln_quiescePrevious s a | Some _ \<Rightarrow> ls_quiesceTail s)"
    "fld ln_active s' = fld ln_active s" "fld ln_attached s' = fld ln_attached s" "fld ln_dirty s' = fld ln_dirty s"
    "fld ln_id s' = fld ln_id s" "fld ln_dirtyNext s' = fld ln_dirtyNext s" "fld ln_notifyOnQuiesce s' = fld ln_notifyOnQuiesce s"
    "fld ln_callback s' = fld ln_callback s" "fld ln_generation s' = fld ln_generation s"
    "ls_size s' = ls_size s" "ls_nodes s' = ls_nodes s"
    "ls_attachedCount s' = ls_attachedCount s" "ls_nextNodeId s' = ls_nextNodeId s" "ls_maxNodes s' = ls_maxNodes s"
    "ls_activeNode s' = ls_activeNode s" "ls_phase s' = ls_phase s" "ls_loop s' = ls_loop s" "ls_dirtyHead s' = ls_dirtyHead s"
    "ls_dirtyTail s' = ls_dirtyTail s" "ls_pendingCount s' = ls_pendingCount s" "ls_activeGeneration s' = ls_activeGeneration s"
proof -
  define s1 where "s1 = (case fld ln_quiescePrevious s a of None \<Rightarrow> s\<lparr> ls_quiesceHead := fld ln_quiesceNext s a \<rparr>
     | Some p \<Rightarrow> ls_write p (\<lambda>n. n\<lparr> ln_quiesceNext := fld ln_quiesceNext s a \<rparr>) s)"
  have n1: "ls_node s1 a = ls_node s a"
    using p by (simp add: s1_def ls_write_def split: option.split)
  define s2 where "s2 = (case fld ln_quiesceNext s a of None \<Rightarrow> s1\<lparr> ls_quiesceTail := fld ln_quiescePrevious s a \<rparr>
     | Some q \<Rightarrow> ls_write q (\<lambda>n. n\<lparr> ln_quiescePrevious := fld ln_quiescePrevious s a \<rparr>) s1)"
  have e: "s' = ls_write a (\<lambda>n. n\<lparr> ln_quiescePrevious := None, ln_quiesceNext := None \<rparr>) s2"
    unfolding s'_def ls_unlinkQuiesce_def Let_def s1_def[unfolded fld_def, symmetric] n1 s2_def fld_def by (rule refl)
  show "fld ln_quiesceNext s' = (case fld ln_quiescePrevious s a of None \<Rightarrow> fld ln_quiesceNext s
      | Some p \<Rightarrow> (fld ln_quiesceNext s)(p := fld ln_quiesceNext s a))(a := None)"
    unfolding e using a p q by (cases "fld ln_quiesceNext s a"; cases "fld ln_quiescePrevious s a")
      (simp_all add: s2_def s1_def fld_write)
  show "fld ln_quiescePrevious s' = (case fld ln_quiesceNext s a of None \<Rightarrow> fld ln_quiescePrevious s
      | Some q \<Rightarrow> (fld ln_quiescePrevious s)(q := fld ln_quiescePrevious s a))(a := None)"
    unfolding e using a p q by (cases "fld ln_quiesceNext s a"; cases "fld ln_quiescePrevious s a")
      (simp_all add: s2_def s1_def fld_write)
  show "ls_quiesceHead s' = (case fld ln_quiescePrevious s a of None \<Rightarrow> fld ln_quiesceNext s a | Some _ \<Rightarrow> ls_quiesceHead s)"
    "ls_quiesceTail s' = (case fld ln_quiesceNext s a of None \<Rightarrow> fld ln_quiescePrevious s a | Some _ \<Rightarrow> ls_quiesceTail s)"
    "fld ln_active s' = fld ln_active s" "fld ln_attached s' = fld ln_attached s" "fld ln_dirty s' = fld ln_dirty s"
    "fld ln_id s' = fld ln_id s" "fld ln_dirtyNext s' = fld ln_dirtyNext s" "fld ln_notifyOnQuiesce s' = fld ln_notifyOnQuiesce s"
    "fld ln_callback s' = fld ln_callback s" "fld ln_generation s' = fld ln_generation s"
    "ls_size s' = ls_size s" "ls_nodes s' = ls_nodes s"
    "ls_attachedCount s' = ls_attachedCount s" "ls_nextNodeId s' = ls_nextNodeId s" "ls_maxNodes s' = ls_maxNodes s"
    "ls_activeNode s' = ls_activeNode s" "ls_phase s' = ls_phase s" "ls_loop s' = ls_loop s" "ls_dirtyHead s' = ls_dirtyHead s"
    "ls_dirtyTail s' = ls_dirtyTail s" "ls_pendingCount s' = ls_pendingCount s" "ls_activeGeneration s' = ls_activeGeneration s"
    unfolding e s2_def s1_def by (simp_all split: option.split)
qed

text \<open>The list without a node. What is left of the other parts is untouched.\<close>

lemma ls_unlinkQuiesce_list:
  assumes d: "dseg (fld ln_quiesceNext s) (fld ln_quiescePrevious s) None (ls_quiesceHead s) qs (ls_quiesceTail s) None"
    and dq: "distinct qs" "set qs \<subseteq> {..<ls_size s}" "a \<in> set qs"
  defines "s' \<equiv> ls_unlinkQuiesce a s"
  shows "dseg (fld ln_quiesceNext s') (fld ln_quiescePrevious s') None (ls_quiesceHead s') (remove1 a qs) (ls_quiesceTail s') None"
    "\<forall>p. fld ln_quiescePrevious s a = Some p \<longrightarrow> p < ls_size s \<and> p \<noteq> a"
    "\<forall>q. fld ln_quiesceNext s a = Some q \<longrightarrow> q < ls_size s \<and> q \<noteq> a"
proof -
  obtain us vs where q: "qs = us @ a # vs" using dq(3) by (meson split_list)
  have dis: "distinct (us @ a # vs)" using dq(1) q by simp
  note r = dseg_remove_node[OF d[unfolded q] dis]
  have u: "last us < ls_size s \<and> last us \<noteq> a" if "us \<noteq> []"
    using last_in_set[OF that] dis dq(2) unfolding q by (metis Un_iff disjoint_insert(1) distinct_append lessThan_iff list.simps(15) set_append subsetD)
  show p: "\<forall>p. fld ln_quiescePrevious s a = Some p \<longrightarrow> p < ls_size s \<and> p \<noteq> a"
    using r(2) u by (simp add: opt_last_def split: if_splits)
  show n: "\<forall>q. fld ln_quiesceNext s a = Some q \<longrightarrow> q < ls_size s \<and> q \<noteq> a"
    using r(3) dis dq(2) unfolding q by (cases vs) auto
  have a: "a < ls_size s" using dq(2,3) by auto
  have "remove1 a qs = us @ vs" "a \<notin> set (us @ vs)" using dis unfolding q by (auto simp: remove1_append)
  then show "dseg (fld ln_quiesceNext s') (fld ln_quiescePrevious s') None (ls_quiesceHead s') (remove1 a qs) (ls_quiesceTail s') None"
    unfolding s'_def ls_unlinkQuiesce_fields(1-4)[OF a p n] using r(1) by (simp add: dseg_upd)
qed

text \<open>Detaching takes an attached node off the quiesce list and out of the count. A dirty or running node stays owned.\<close>

lemma ls_detach_hit:
  assumes inv: "ls_inv s ds qs" and a: "lsrc_node src < ls_size s"
    and att: "fld ln_attached s (lsrc_node src)" and gen: "fld ln_generation s (lsrc_node src) = lsrc_generation src"
  defines "s' \<equiv> EventLoop_detachLifecycleNode True src s"
  shows "ls_inv s' ds (remove1 (lsrc_node src) qs)" "ls_activeNode s' = ls_activeNode s"
    "ls_phase s' = ls_phase s" "ls_size s' = ls_size s" "fld ln_callback s' = fld ln_callback s" "ls_loop s' = ls_loop s"
    "ls_maxNodes s' = ls_maxNodes s" "fld ln_attached s' = (fld ln_attached s)(lsrc_node src := False)"
    "fld ln_generation s' = (fld ln_generation s)(lsrc_node src := gen_inc (lsrc_generation src))"
proof -
  let ?a = "lsrc_node src" let ?k = "lsrc_generation src"
  define s1 where "s1 = (ls_write ?a (\<lambda>n. n\<lparr> ln_attached := False \<rparr>) s)\<lparr> ls_attachedCount := sz_sub (ls_attachedCount s) 1 \<rparr>"
  define s2 where "s2 = (if fld ln_notifyOnQuiesce s ?a then ls_unlinkQuiesce ?a s1 else s1)"
  define t where "t = ls_write ?a (\<lambda>n. n\<lparr> ln_generation := gen_inc (ln_generation n) \<rparr>) s2"
  have dq: "dseg (fld ln_quiesceNext s) (fld ln_quiescePrevious s) None (ls_quiesceHead s) qs (ls_quiesceTail s) None"
    "distinct qs" "set qs \<subseteq> {..<ls_size s}" "\<forall>b < ls_size s. b \<in> set qs \<longleftrightarrow> fld ln_attached s b \<and> fld ln_notifyOnQuiesce s b"
    using inv by (simp_all add: ls_inv_def quiesce_ok_def)
  have f1: "fld ln_quiesceNext s1 = fld ln_quiesceNext s" "fld ln_quiescePrevious s1 = fld ln_quiescePrevious s"
    "ls_quiesceHead s1 = ls_quiesceHead s" "ls_quiesceTail s1 = ls_quiesceTail s" "ls_size s1 = ls_size s"
    unfolding s1_def by simp_all
  have l2: "dseg (fld ln_quiesceNext s2) (fld ln_quiescePrevious s2) None (ls_quiesceHead s2) (remove1 ?a qs) (ls_quiesceTail s2) None"
    and p: "fld ln_notifyOnQuiesce s ?a \<Longrightarrow> \<forall>p. fld ln_quiescePrevious s1 ?a = Some p \<longrightarrow> p < ls_size s1 \<and> p \<noteq> ?a"
      "fld ln_notifyOnQuiesce s ?a \<Longrightarrow> \<forall>q. fld ln_quiesceNext s1 ?a = Some q \<longrightarrow> q < ls_size s1 \<and> q \<noteq> ?a"
    using ls_unlinkQuiesce_list[of s1 qs ?a] dq a att f1 by (auto simp: s2_def remove1_idem)
  have a1: "?a < ls_size s1" using a f1 by simp
  have f2: "fld ln_active s2 = fld ln_active s1" "fld ln_attached s2 = fld ln_attached s1" "fld ln_dirty s2 = fld ln_dirty s1" "fld ln_id s2 = fld ln_id s1"
    "fld ln_dirtyNext s2 = fld ln_dirtyNext s1" "fld ln_notifyOnQuiesce s2 = fld ln_notifyOnQuiesce s1" "fld ln_callback s2 = fld ln_callback s1" "fld ln_generation s2 = fld ln_generation s1"
    "ls_size s2 = ls_size s1" "ls_nodes s2 = ls_nodes s1" "ls_attachedCount s2 = ls_attachedCount s1" "ls_nextNodeId s2 = ls_nextNodeId s1" "ls_maxNodes s2 = ls_maxNodes s1" "ls_activeNode s2 = ls_activeNode s1"
    "ls_phase s2 = ls_phase s1" "ls_loop s2 = ls_loop s1" "ls_dirtyHead s2 = ls_dirtyHead s1" "ls_dirtyTail s2 = ls_dirtyTail s1" "ls_pendingCount s2 = ls_pendingCount s1"
    using p by (cases "fld ln_notifyOnQuiesce s ?a"; simp add: s2_def ls_unlinkQuiesce_fields a1)+
  have g: "ln_generation (ls_node s2 ?a) = fld ln_generation s2 ?a" by (simp add: fld_def)
  have a2: "?a < ls_size s2" using f2(9) a1 by simp
  have f: "fld ln_attached t = (fld ln_attached s)(?a := False)" "fld ln_dirty t = fld ln_dirty s" "fld ln_active t = fld ln_active s"
    "fld ln_id t = fld ln_id s" "fld ln_dirtyNext t = fld ln_dirtyNext s" "fld ln_notifyOnQuiesce t = fld ln_notifyOnQuiesce s"
    "fld ln_quiesceNext t = fld ln_quiesceNext s2" "fld ln_quiescePrevious t = fld ln_quiescePrevious s2"
    "fld ln_callback t = fld ln_callback s" "fld ln_generation t = (fld ln_generation s)(?a := gen_inc ?k)"
    "ls_size t = ls_size s" "ls_nodes t = ls_nodes s" "ls_quiesceHead t = ls_quiesceHead s2" "ls_quiesceTail t = ls_quiesceTail s2"
    "ls_attachedCount t = sz_sub (ls_attachedCount s) 1" "ls_nextNodeId t = ls_nextNodeId s" "ls_maxNodes t = ls_maxNodes s"
    "ls_activeNode t = ls_activeNode s" "ls_phase t = ls_phase s" "ls_loop t = ls_loop s" "ls_dirtyHead t = ls_dirtyHead s"
    "ls_dirtyTail t = ls_dirtyTail s" "ls_pendingCount t = ls_pendingCount s"
    unfolding t_def by (simp_all add: f2) (simp_all add: fld_write a a2 f2 g gen s1_def)
  have n: "ln_attached (ls_node s ?a)" "ln_generation (ls_node s ?a) = ?k" "ln_notifyOnQuiesce (ls_node s ?a) = fld ln_notifyOnQuiesce s ?a"
    using att gen by (simp_all add: fld_def)
  have "s' = (if \<not> ln_dirty (ls_node t ?a) \<and> \<not> ln_active (ls_node t ?a) then ls_retire ?a t else t)"
    by (simp only: s'_def EventLoop_detachLifecycleNode_def Let_def n t_def s2_def s1_def not_True_eq_False if_False if_True simp_thms)
  then have e: "s' = (if fld ln_attached t ?a \<or> fld ln_dirty t ?a \<or> fld ln_active t ?a then t else ls_retire ?a t)"
    using f(1) by (simp add: fld_def)
  have r: "registry_ok t" "dirty_ok t ds" using inv by (simp_all add: ls_inv_def registry_ok_def dirty_ok_def f)
  have q: "quiesce_ok t (remove1 ?a qs)"
    unfolding quiesce_ok_def f using l2 dq a by (auto simp: set_remove1_eq)
  have cnt: "{b. b < ls_size s \<and> fld ln_attached t b} = {b. b < ls_size s \<and> fld ln_attached s b} - {?a}" by (auto simp: f)
  have o: "\<forall>b < ls_size t. owned t b \<longleftrightarrow> b = ?a \<or> fld ln_attached t b \<or> fld ln_dirty t b \<or> fld ln_active t b"
    "\<forall>b < ls_size t. fld ln_active t b \<longleftrightarrow> ls_activeNode t = Some b" "\<forall>b. ls_activeNode t = Some b \<longrightarrow> b < ls_size t"
    using inv att a by (auto simp: ls_inv_def flags_ok_def owned_def f)
  have c: "ls_attachedCount t = card {a. a < ls_size t \<and> fld ln_attached t a}"
  proof -
    have "finite {b. b < ls_size s \<and> fld ln_attached s b}" "?a \<in> {b. b < ls_size s \<and> fld ln_attached s b}" using a att by auto
    then have "0 < card {b. b < ls_size s \<and> fld ln_attached s b}"
      "card ({b. b < ls_size s \<and> fld ln_attached s b} - {?a}) = card {b. b < ls_size s \<and> fld ln_attached s b} - 1"
      by (auto simp: card_gt_0_iff)
    moreover have "ls_attachedCount s = card {b. b < ls_size s \<and> fld ln_attached s b}" using inv by (simp add: ls_inv_def flags_ok_def)
    ultimately show ?thesis unfolding f(11,15) cnt by (simp add: sz_sub_def)
  qed
  have at: "?a < ls_size t" using a f(11) by simp
  show "ls_inv s' ds (remove1 ?a qs)" unfolding e by (rule ls_retire_inv[OF r(2) q r(1) o at c])
  show "ls_activeNode s' = ls_activeNode s" "ls_phase s' = ls_phase s" "ls_size s' = ls_size s"
    "fld ln_callback s' = fld ln_callback s" "ls_loop s' = ls_loop s" "ls_maxNodes s' = ls_maxNodes s"
    "fld ln_attached s' = (fld ln_attached s)(?a := False)" "fld ln_generation s' = (fld ln_generation s)(?a := gen_inc ?k)"
    unfolding e by (simp_all add: f)
qed

lemma ls_detach_miss:
  assumes "\<not> (ours \<and> fld ln_attached s (lsrc_node src) \<and> fld ln_generation s (lsrc_node src) = lsrc_generation src)"
  shows "EventLoop_detachLifecycleNode ours src s = s"
  using assms by (simp add: EventLoop_detachLifecycleNode_def fld_def Let_def)

lemma linked_cong: "\<forall>b \<in> set xs. nx b = nx' b \<Longrightarrow> linked nx p xs = linked nx' p xs"
  by (induction xs arbitrary: p) auto

lemma dseg_cong:
  "\<forall>b \<in> set xs. nx b = nx' b \<and> pv b = pv' b \<Longrightarrow> dseg nx pv before h xs t after = dseg nx' pv' before h xs t after"
  by (induction xs arbitrary: before h) auto

lemma u64_inc_nonzero: "n < 2 ^ 64 \<Longrightarrow> u64_inc n \<noteq> 0 \<Longrightarrow> u64_inc n = Suc n"
  by (cases "Suc n = 2 ^ 64") (auto simp: u64_inc_def)

lemma AList_update_fresh: "k \<notin> fst ` set al \<Longrightarrow> AList.update k v al = al @ [(k, v)]"
  by (induction al) auto

text \<open>A state with one more node at the end of the heap, whose identity is owned.\<close>

definition grown :: "LifecycleSourceState \<Rightarrow> LifecycleSourceState \<Rightarrow> bool" where
  "grown s t \<longleftrightarrow> ls_size t = Suc (ls_size s) \<and> (\<forall>b < ls_size s.
      fld ln_dirtyNext t b = fld ln_dirtyNext s b \<and> fld ln_dirty t b = fld ln_dirty s b \<and> fld ln_active t b = fld ln_active s b \<and>
      fld ln_attached t b = fld ln_attached s b \<and> fld ln_id t b = fld ln_id s b \<and>
      fld ln_notifyOnQuiesce t b = fld ln_notifyOnQuiesce s b \<and> fld ln_generation t b = fld ln_generation s b \<and>
      fld ln_callback t b = fld ln_callback s b) \<and>
    \<not> fld ln_dirty t (ls_size s) \<and> \<not> fld ln_active t (ls_size s) \<and> fld ln_attached t (ls_size s) \<and>
    fld ln_id t (ls_size s) = ls_nextNodeId s \<and>
    ls_nodes t = AList.update (ls_nextNodeId s) (ls_size s) (ls_nodes s) \<and> ls_nextNodeId t = u64_inc (ls_nextNodeId s) \<and>
    ls_dirtyHead t = ls_dirtyHead s \<and> ls_dirtyTail t = ls_dirtyTail s \<and> ls_pendingCount t = ls_pendingCount s \<and>
    ls_activeNode t = ls_activeNode s \<and> ls_maxNodes t = ls_maxNodes s \<and> ls_attachedCount t = ls_attachedCount s + 1 \<and>
    ls_phase t = ls_phase s \<and> ls_loop t = ls_loop s"

lemma grown_dirty:
  assumes g: "grown s t" and d: "dirty_ok s ds"
  shows "dirty_ok t ds"
proof -
  have *: "\<forall>b \<in> set ds. b < ls_size s" using d by (auto simp: dirty_ok_def)
  have "linked (fld ln_dirtyNext t) (ls_dirtyHead s) ds = linked (fld ln_dirtyNext s) (ls_dirtyHead s) ds"
    using g * by (intro linked_cong) (auto simp: grown_def)
  moreover have "(\<forall>a < ls_size t. fld ln_dirty t a \<longleftrightarrow> a \<in> set ds)"
    using g d * by (auto simp: grown_def dirty_ok_def less_Suc_eq)
  moreover have "set ds \<subseteq> {..<ls_size t}" using g * by (auto simp: grown_def less_Suc_eq)
  moreover have "ls_dirtyHead t = ls_dirtyHead s" "ls_dirtyTail t = ls_dirtyTail s" "ls_pendingCount t = ls_pendingCount s"
    using g by (simp_all add: grown_def)
  ultimately show ?thesis using d by (simp add: dirty_ok_def)
qed

lemma grown_registry:
  assumes g: "grown s t" and r: "registry_ok s" and room: "length (ls_nodes s) < ls_maxNodes s" "ls_nextNodeId s \<noteq> 0"
  shows "registry_ok t" "b < ls_size s \<Longrightarrow> owned t b = owned s b" "owned t (ls_size s)"
proof -
  let ?n = "ls_size s" let ?i = "ls_nextNodeId s"
  have id: "\<forall>b < ?n. fld ln_id s b < ?i" and m: "\<forall>i a. map_of (ls_nodes s) i = Some a \<longrightarrow> a < ?n \<and> fld ln_id s a = i"
    and lt: "?i < 2 ^ 64" and dis: "distinct (map fst (ls_nodes s))"
    using r room(2) unfolding registry_ok_def by blast+
  have fresh: "map_of (ls_nodes s) ?i = None" using id m by (metis less_irrefl not_None_eq)
  then have nd: "ls_nodes t = ls_nodes s @ [(?i, ?n)]" using g by (simp add: grown_def AList_update_fresh map_of_eq_None_iff)
  have mt: "map_of (ls_nodes t) i = (if i = ?i then Some ?n else map_of (ls_nodes s) i)" for i
    using fresh unfolding nd by (auto simp: map_add_def split: option.split)
  have it: "fld ln_id t b = (if b = ?n then ?i else fld ln_id s b)" if "b < Suc ?n" for b
    using g that by (auto simp: grown_def less_Suc_eq)
  have st: "ls_size t = Suc ?n" "ls_maxNodes t = ls_maxNodes s" "ls_nextNodeId t = u64_inc ?i" using g by (simp_all add: grown_def)
  show "owned t ?n" using it mt by (simp add: owned_def)
  show "owned t b = owned s b" if "b < ?n"
    using that it[of b] mt[of "fld ln_id s b"] id by (auto simp: owned_def)
  have "\<forall>a < ls_size t. \<forall>b < ls_size t. fld ln_id t a = fld ln_id t b \<longrightarrow> a = b"
    using it id r unfolding st registry_ok_def by (metis less_SucE less_irrefl)
  moreover have "\<forall>i a. map_of (ls_nodes t) i = Some a \<longrightarrow> a < ls_size t \<and> fld ln_id t a = i"
    using m it mt unfolding st by (metis less_Suc_eq less_irrefl option.inject)
  moreover have "distinct (map fst (ls_nodes t))" using dis fresh by (simp add: nd map_of_eq_None_iff image_iff)
  moreover have "ls_nextNodeId t \<noteq> 0 \<longrightarrow> (\<forall>a < ls_size t. fld ln_id t a < ls_nextNodeId t)"
  proof (intro impI allI)
    fix a assume "ls_nextNodeId t \<noteq> 0" "a < ls_size t"
    then have "u64_inc ?i = Suc ?i" using lt u64_inc_nonzero by (simp add: st)
    then show "fld ln_id t a < ls_nextNodeId t" using it[of a] id \<open>a < ls_size t\<close> by (auto simp: st less_Suc_eq)
  qed
  moreover have "ls_nextNodeId t < 2 ^ 64" by (simp add: st u64_inc_def)
  ultimately show "registry_ok t" using room(1) by (simp add: registry_ok_def nd st)
qed

lemma grown_flags:
  assumes g: "grown s t" and r: "registry_ok s" and f: "flags_ok s" and room: "length (ls_nodes s) < ls_maxNodes s" "ls_nextNodeId s \<noteq> 0"
  shows "flags_ok t"
proof -
  let ?n = "ls_size s"
  have c: "{a. a < Suc ?n \<and> fld ln_attached t a} = insert ?n {a. a < ?n \<and> fld ln_attached s a}" 
    using g by (auto simp: grown_def less_Suc_eq)
  have "ls_activeNode s \<noteq> Some ?n" "\<forall>a. ls_activeNode s = Some a \<longrightarrow> a < Suc ?n" using f by (auto simp: flags_ok_def)
  then show ?thesis using g f grown_registry(2,3)[OF g r room] c by (auto simp: flags_ok_def grown_def less_Suc_eq)
qed

lemma ls_attach_cases:
  assumes "EventLoop_attachLifecycleNode part cb s = (r, s')"
  obtains (refused) e where "r = Inl e" "s' = s"
  | (attached) c where "cb = Some c" "r = Inr \<lparr> lsrc_node = ls_size s, lsrc_generation = 1 \<rparr>" "ls_phase s = PhaseRunning" "ls_loop s"
      "length (ls_nodes s) < ls_maxNodes s" "ls_nextNodeId s \<noteq> 0"
  using assms unfolding EventLoop_attachLifecycleNode_def Let_def
  by (cases cb) (simp_all split: if_splits, blast+)

lemma ls_attach_grown:
  assumes e: "EventLoop_attachLifecycleNode part (Some c) s = (r, s')" and q: "quiesce_ok s qs"
    and ok: "ls_phase s = PhaseRunning" "ls_loop s" "length (ls_nodes s) < ls_maxNodes s" "ls_nextNodeId s \<noteq> 0"
  shows "grown s s'" "quiesce_ok s' (if part then qs @ [ls_size s] else qs)" "fld ln_callback s' (ls_size s) = c"
    "fld ln_generation s' (ls_size s) = 1"
proof -
  let ?a = "ls_size s"
  define node where "node = \<lparr> ln_callback = c, ln_pendingSince = 0, ln_dirtyNext = None, ln_quiescePrevious = None,
     ln_quiesceNext = None, ln_id = ls_nextNodeId s, ln_generation = 1, ln_pendingGeneration = 0,
     ln_attached = True, ln_dirty = False, ln_active = False, ln_notifyOnQuiesce = part \<rparr>"
  define s1 where "s1 = s\<lparr> ls_heap := ls_heap s @ [node], ls_nextNodeId := u64_inc (ls_nextNodeId s),
     ls_nodes := AList.update (ls_nextNodeId s) ?a (ls_nodes s) \<rparr>"
  define s2 where "s2 = (if part
     then (case ls_quiesceTail s of None \<Rightarrow> (ls_write ?a (\<lambda>n. n\<lparr> ln_quiescePrevious := ls_quiesceTail s \<rparr>) s1)\<lparr> ls_quiesceHead := Some ?a \<rparr>
       | Some t \<Rightarrow> ls_write t (\<lambda>n. n\<lparr> ln_quiesceNext := Some ?a \<rparr>) (ls_write ?a (\<lambda>n. n\<lparr> ln_quiescePrevious := ls_quiesceTail s \<rparr>) s1))
         \<lparr> ls_quiesceTail := Some ?a \<rparr>
     else s1)"
  have s': "s' = s2\<lparr> ls_attachedCount := ls_attachedCount s2 + 1 \<rparr>"
    using e[symmetric] ok by (cases part; cases "ls_quiesceTail s") (simp_all add: EventLoop_attachLifecycleNode_def Let_def s2_def s1_def node_def)
  have n1: "fld F s1 b = (if b < ?a then fld F s b else F node)" if "b < Suc ?a" for F :: "LifecycleNode \<Rightarrow> 'z" and b
    using that by (simp add: s1_def fld_def nth_append)
  have z1: "ls_size s1 = Suc ?a" "ls_nodes s1 = AList.update (ls_nextNodeId s) ?a (ls_nodes s)"
    "ls_nextNodeId s1 = u64_inc (ls_nextNodeId s)" "ls_quiesceHead s1 = ls_quiesceHead s" by (simp_all add: s1_def)
  have tl: "ls_quiesceTail s = (if qs = [] then None else Some (last qs))"
    using q dseg_last by (fastforce simp: quiesce_ok_def)
  have rng: "\<forall>b \<in> set qs. b < ?a" "distinct qs" using q by (auto simp: quiesce_ok_def)
  have tr: "\<forall>t. ls_quiesceTail s = Some t \<longrightarrow> t < Suc ?a" using tl rng last_in_set[of qs] by (auto simp: less_Suc_eq)
  have f: "fld ln_active s' = fld ln_active s1" "fld ln_attached s' = fld ln_attached s1" "fld ln_dirty s' = fld ln_dirty s1"
    "fld ln_id s' = fld ln_id s1" "fld ln_dirtyNext s' = fld ln_dirtyNext s1" "fld ln_notifyOnQuiesce s' = fld ln_notifyOnQuiesce s1"
    "fld ln_callback s' = fld ln_callback s1" "fld ln_generation s' = fld ln_generation s1"
    "ls_size s' = Suc ?a" "ls_nodes s' = ls_nodes s1"
    "ls_attachedCount s' = ls_attachedCount s + 1" "ls_nextNodeId s' = ls_nextNodeId s1" "ls_maxNodes s' = ls_maxNodes s"
    "ls_activeNode s' = ls_activeNode s" "ls_phase s' = ls_phase s" "ls_loop s' = ls_loop s" "ls_dirtyHead s' = ls_dirtyHead s"
    "ls_dirtyTail s' = ls_dirtyTail s" "ls_pendingCount s' = ls_pendingCount s"
    unfolding s' s2_def by (simp_all add: z1 split: option.split) (simp_all add: s1_def)
  show "grown s s'" unfolding grown_def f by (simp add: n1 node_def z1)
  show "fld ln_callback s' (ls_size s) = c" "fld ln_generation s' (ls_size s) = 1" by (simp_all add: n1 f node_def)
  have d1: "dseg (fld ln_quiesceNext s1) ((fld ln_quiescePrevious s1)(?a := x)) None (ls_quiesceHead s) qs (ls_quiesceTail s) None" for x
  proof -
    have "\<forall>b \<in> set qs. fld ln_quiesceNext s1 b = fld ln_quiesceNext s b \<and>
      ((fld ln_quiescePrevious s1)(?a := x)) b = fld ln_quiescePrevious s b" using rng by (auto simp: n1)
    from dseg_cong[OF this] show ?thesis using q unfolding quiesce_ok_def by blast
  qed
  have mem: "(b \<in> set qs \<or> part \<and> b = ?a) \<longleftrightarrow> fld ln_attached s' b \<and> fld ln_notifyOnQuiesce s' b" if "b < Suc ?a" for b
    using that q rng by (auto simp: n1 f node_def quiesce_ok_def)
  show "quiesce_ok s' (if part then qs @ [ls_size s] else qs)"
  proof (cases part)
    case True
    have nx: "fld ln_quiesceNext s1 ?a = None" by (simp add: n1 node_def)
    have a: "?a \<notin> set qs" using rng by auto
    have "dseg (if qs = [] then fld ln_quiesceNext s1 else (fld ln_quiesceNext s1)(last qs := Some ?a))
       ((fld ln_quiescePrevious s1)(?a := ls_quiesceTail s)) None (if qs = [] then Some ?a else ls_quiesceHead s) (qs @ [?a]) (Some ?a) None"
      by (rule dseg_append_node[OF d1 rng(2) a nx]) simp
    moreover have "fld ln_quiesceNext s' = (if qs = [] then fld ln_quiesceNext s1 else (fld ln_quiesceNext s1)(last qs := Some ?a))"
      "fld ln_quiescePrevious s' = (fld ln_quiescePrevious s1)(?a := ls_quiesceTail s)"
      "ls_quiesceHead s' = (if qs = [] then Some ?a else ls_quiesceHead s)" "ls_quiesceTail s' = Some ?a"
      using True tl tr unfolding s' s2_def by (simp_all add: z1) (simp_all add: z1 fld_write)
    ultimately show ?thesis using True rng a mem by (auto simp: quiesce_ok_def f(9))
  next
    case False
    have "fld ln_quiescePrevious s1 = (fld ln_quiescePrevious s1)(?a := fld ln_quiescePrevious s1 ?a)" by simp
    then have "dseg (fld ln_quiesceNext s1) (fld ln_quiescePrevious s1) None (ls_quiesceHead s) qs (ls_quiesceTail s) None"
      using d1 by metis
    then show ?thesis using False rng mem unfolding s' s2_def by (auto simp: quiesce_ok_def z1 less_Suc_eq s' s2_def) (simp_all add: s1_def)
  qed
qed

lemma ls_attach:
  assumes inv: "ls_inv s ds qs" and e: "EventLoop_attachLifecycleNode part (Some c) s = (Inr src, s')"
  shows "ls_inv s' ds (if part then qs @ [ls_size s] else qs)" "grown s s'"
    "src = \<lparr> lsrc_node = ls_size s, lsrc_generation = 1 \<rparr>" "fld ln_callback s' (ls_size s) = c" "fld ln_generation s' (ls_size s) = 1"
proof -
  from ls_attach_cases[OF e] have ok: "ls_phase s = PhaseRunning" "ls_loop s" "length (ls_nodes s) < ls_maxNodes s" "ls_nextNodeId s \<noteq> 0"
    and src: "src = \<lparr> lsrc_node = ls_size s, lsrc_generation = 1 \<rparr>" by auto
  have i: "dirty_ok s ds" "quiesce_ok s qs" "registry_ok s" "flags_ok s" using inv by (simp_all add: ls_inv_def)
  note g = ls_attach_grown[OF e i(2) ok]
  show "ls_inv s' ds (if part then qs @ [ls_size s] else qs)" unfolding ls_inv_def
    using grown_dirty[OF g(1) i(1)] g(2) grown_registry(1)[OF g(1) i(3) ok(3,4)] grown_flags[OF g(1) i(3,4) ok(3,4)] by blast
  show "grown s s'" "src = \<lparr> lsrc_node = ls_size s, lsrc_generation = 1 \<rparr>" "fld ln_callback s' (ls_size s) = c"
    "fld ln_generation s' (ls_size s) = 1" using g src by blast+
qed

text \<open>Walking the quiesce list. Every participant on it that is not queued yet is queued, in list order.\<close>

lemma ls_quiesceLoop:
  assumes "ls_inv s ds (us @ vs)" "length vs \<le> fuel" "p = (if vs = [] then None else Some (hd vs))"
  shows "\<exists>s'. ls_quiesceLoop fuel now p s = Some s' \<and> ls_inv s' (ds @ filter (\<lambda>a. a \<notin> set ds) vs) (us @ vs) \<and>
    ls_activeNode s' = ls_activeNode s \<and> ls_phase s' = ls_phase s \<and> ls_size s' = ls_size s \<and> ls_loop s' = ls_loop s \<and>
    fld ln_callback s' = fld ln_callback s \<and> ls_maxNodes s' = ls_maxNodes s"
  using assms
proof (induction vs arbitrary: s ds us p fuel)
  case Nil
  then show ?case by simp
next
  case (Cons a vs)
  then obtain k where fuel: "fuel = Suc k" "length vs \<le> k" by (cases fuel) auto
  have inv: "ls_inv s ds (us @ a # vs)" using Cons.prems(1) .
  have "\<exists>h t. dseg (fld ln_quiesceNext s) (fld ln_quiescePrevious s) h (fld ln_quiesceNext s a) vs t None"
    and q: "a < ls_size s" "fld ln_attached s a" "distinct (us @ a # vs)"
    using inv by (auto simp: ls_inv_def quiesce_ok_def dseg_append)
  then have nx: "fld ln_quiesceNext s a = (if vs = [] then None else Some (hd vs))" using dseg_first by fastforce
  let ?s1 = "s\<lparr> ls_signals := u64_inc (ls_signals s) \<rparr>"
  define t where "t = (if a \<in> set ds then ?s1\<lparr> ls_mergedSignals := u64_inc (ls_mergedSignals s) \<rparr> else ls_commit now (fld ln_generation s a) a ?s1)"
  have inv1: "ls_inv ?s1 ds (us @ a # vs)" using inv by simp
  have d: "ln_dirty (ls_node s a) \<longleftrightarrow> a \<in> set ds" "ln_attached (ls_node s a)" "ln_generation (ls_node s a) = fld ln_generation s a"
    using inv q by (simp_all add: ls_inv_def dirty_ok_def fld_def)
  have a1: "a < ls_size ?s1" using q by simp
  note f = ls_commit_fields[OF a1 dirty_tail[OF inv1], where now = now and g = "fld ln_generation s a"]
  have it: "ls_inv t (ds @ filter (\<lambda>b. b \<notin> set ds) [a]) ((us @ [a]) @ vs)"
    using inv1 ls_commit_inv[OF inv1 a1, of now "fld ln_generation s a"] q(2) by (simp add: t_def)
  have ft: "ls_activeNode t = ls_activeNode s" "ls_phase t = ls_phase s" "ls_size t = ls_size s" "ls_loop t = ls_loop s"
    "fld ln_callback t = fld ln_callback s" "fld ln_quiesceNext t = fld ln_quiesceNext s" "ls_maxNodes t = ls_maxNodes s"
    by (simp_all add: f t_def)
  have nt: "ln_quiesceNext (ls_node t a) = (if vs = [] then None else Some (hd vs))"
    using nx ft(6) by (metis fld_def)
  have step: "ls_quiesceLoop fuel now p s = ls_quiesceLoop k now (ln_quiesceNext (ls_node t a)) t"
    using Cons.prems(3) by (simp add: fuel Let_def d t_def)
  have flt: "filter (\<lambda>b. b \<notin> set (ds @ filter (\<lambda>b. b \<notin> set ds) [a])) vs = filter (\<lambda>b. b \<notin> set ds) vs"
    using q(3) by (intro filter_cong) auto
  have "ds @ filter (\<lambda>b. b \<notin> set ds) (a # vs) = (ds @ filter (\<lambda>b. b \<notin> set ds) [a]) @ filter (\<lambda>b. b \<notin> set ds) vs"
    "us @ a # vs = (us @ [a]) @ vs" by simp_all
  with Cons.IH[OF it fuel(2) nt] show ?case unfolding step ft flt by presburger
qed

lemma ls_quiesce:
  assumes inv: "ls_inv s ds qs"
  obtains s' where "LifecycleState_quiesce now s = Some s'" "ls_inv s' (ds @ filter (\<lambda>a. a \<notin> set ds) qs) qs"
    "ls_phase s' = PhaseQuiescing" "ls_activeNode s' = ls_activeNode s" "ls_size s' = ls_size s" "ls_loop s' = ls_loop s"
    "fld ln_callback s' = fld ln_callback s" "ls_maxNodes s' = ls_maxNodes s"
proof -
  have q: "dseg (fld ln_quiesceNext s) (fld ln_quiescePrevious s) None (ls_quiesceHead s) qs (ls_quiesceTail s) None"
    "distinct qs" "set qs \<subseteq> {..<ls_size s}" using inv by (simp_all add: ls_inv_def quiesce_ok_def)
  have "length qs \<le> ls_size s" using q(2,3) by (metis card_lessThan card_mono distinct_card finite_lessThan)
  moreover have "ls_inv (s\<lparr> ls_phase := PhaseQuiescing \<rparr>) ds ([] @ qs)" using inv by simp
  ultimately show ?thesis
    using ls_quiesceLoop[of "s\<lparr> ls_phase := PhaseQuiescing \<rparr>" ds "[]" qs "ls_size s" "ls_quiesceHead s" now] dseg_first[OF q(1)] that
    by (auto simp: LifecycleState_quiesce_def)
qed

end
