(* ===== verification/Timer_Order.thy ===== *)
theory Timer_Order
  imports TimerQueue
begin

text \<open>
  The timer queue keeps its two indexes consistent (\<open>tq_inv\<close>) under every operation, and its clock arithmetic is
  exact. Timer sequence numbers are distinct as long as fewer than \<open>2 ^ 62\<close> timers were made. \<open>tq_le\<close> is what the
  operations open to callbacks may do to a queue while the loop runs the timers that expired; \<open>tq_getExpired\<close> and
  \<open>tq_reset\<close> are the two ends of that run.
\<close>

section \<open>The invariant of the timer queue\<close>

definition tq_queued :: "TimerQueue \<Rightarrow> nat \<Rightarrow> bool" where
  "tq_queued q a \<longleftrightarrow> a \<in> snd ` set (tq_timers q)"

definition tq_key :: "TimerQueue \<Rightarrow> nat \<Rightarrow> timestamp \<times> int" where
  "tq_key q a = (tm_expiration (tq_timer q a), tm_sequence (tq_timer q a))"

definition tq_inv :: "TimerQueue \<Rightarrow> bool" where
  "tq_inv q \<longleftrightarrow>
     om_sorted (tq_timers q) \<and>
     (\<forall>p \<in> set (tq_timers q). snd p < length (tq_heap q) \<and> fst p = tq_key q (snd p) \<and>
        map_of (tq_timersById q) (snd (fst p)) = Some (snd p)) \<and>
     (\<forall>s a. map_of (tq_timersById q) s = Some a \<longrightarrow> a < length (tq_heap q) \<and> tm_sequence (tq_timer q a) = s \<and>
        (tm_inQueue (tq_timer q a) \<longleftrightarrow> tq_queued q a)) \<and>
     (\<forall>a < length (tq_heap q). tm_sequence (tq_timer q a) = int a + 1) \<and>
     tq_nextSequence q = int (length (tq_heap q)) + 1 \<and> length (tq_heap q) < 2 ^ 62"

text \<open>How far the operations that a callback may call can change a queue: no existing timer moves, is put back into
  the queue or loses its cancellation.\<close>

definition timer_le :: "TimerQueue \<Rightarrow> TimerQueue \<Rightarrow> nat \<Rightarrow> bool" where
  "timer_le q q' a \<longleftrightarrow>
     tq_key q' a = tq_key q a \<and> tm_interval (tq_timer q' a) = tm_interval (tq_timer q a) \<and>
     tm_callback (tq_timer q' a) = tm_callback (tq_timer q a) \<and>
     (tm_canceled (tq_timer q a) \<longrightarrow> tm_canceled (tq_timer q' a)) \<and> (\<not> tq_queued q a \<longrightarrow> \<not> tq_queued q' a) \<and>
     (map_of (tq_timersById q) (snd (tq_key q a)) = None \<longrightarrow> map_of (tq_timersById q') (snd (tq_key q a)) = None)"

definition tq_le :: "TimerQueue \<Rightarrow> TimerQueue \<Rightarrow> bool" where
  "tq_le q q' \<longleftrightarrow> length (tq_heap q) \<le> length (tq_heap q') \<and> (\<forall>a < length (tq_heap q). timer_le q q' a)"

lemma tq_le_refl [simp]: "tq_le q q"
  by (simp add: tq_le_def timer_le_def)

lemma timer_le_trans: "timer_le q r a \<Longrightarrow> timer_le r t a \<Longrightarrow> timer_le q t a"
  by (simp add: timer_le_def)

lemma tq_le_trans [trans]: "tq_le q r \<Longrightarrow> tq_le r t \<Longrightarrow> tq_le q t"
  unfolding tq_le_def by (meson order_less_le_trans order_trans timer_le_trans)

lemma tq_write_simps [simp]:
  "length (tq_heap (tq_write a f q)) = length (tq_heap q)" "tq_timers (tq_write a f q) = tq_timers q"
  "tq_timersById (tq_write a f q) = tq_timersById q" "tq_nextSequence (tq_write a f q) = tq_nextSequence q"
  "tq_queued (tq_write a f q) = tq_queued q"
  by (simp_all add: tq_write_def tq_queued_def fun_eq_iff)

lemma tq_timer_write:
  "a < length (tq_heap q) \<Longrightarrow> tq_timer (tq_write a f q) b = (if b = a then f (tq_timer q a) else tq_timer q b)"
  by (simp add: tq_write_def nth_list_update)

lemma set_om_update:
  assumes "om_sorted m" "map_of m k = None"
  shows "set (om_update k v m) = insert (k, v) (set m)"
  using assms by (induction k v m rule: om_update.induct) (auto split: if_splits)

lemma TimerQueue_new_inv: "tq_inv TimerQueue_new"
  by (simp add: tq_inv_def TimerQueue_new_def)

lemma tq_sequence: "tq_inv q \<Longrightarrow> a < length (tq_heap q) \<Longrightarrow> tm_sequence (tq_timer q a) = int a + 1"
  by (simp add: tq_inv_def)

lemma tq_entry:
  assumes "tq_inv q" "(k, a) \<in> set (tq_timers q)"
  shows "a < length (tq_heap q)" "k = tq_key q a" "map_of (tq_timersById q) (snd k) = Some a"
proof -
  have "\<forall>p \<in> set (tq_timers q). snd p < length (tq_heap q) \<and> fst p = tq_key q (snd p) \<and>
        map_of (tq_timersById q) (snd (fst p)) = Some (snd p)" using assms(1) unfolding tq_inv_def by blast
  from bspec[OF this assms(2)] show "a < length (tq_heap q)" "k = tq_key q a" "map_of (tq_timersById q) (snd k) = Some a"
    unfolding fst_conv snd_conv by blast+
qed

lemma tq_index:
  assumes "tq_inv q" "map_of (tq_timersById q) s = Some a"
  shows "a < length (tq_heap q)" "tm_sequence (tq_timer q a) = s" "tm_inQueue (tq_timer q a) \<longleftrightarrow> tq_queued q a"
  using assms unfolding tq_inv_def by blast+

lemma tq_queued_obtain:
  assumes "tq_queued q a"
  obtains k where "(k, a) \<in> set (tq_timers q)"
  using assms unfolding tq_queued_def by auto

lemma tq_queuedI: "(k, a) \<in> set (tq_timers q) \<Longrightarrow> tq_queued q a"
  unfolding tq_queued_def by force

lemma tq_queued_key:
  assumes inv: "tq_inv q"
  shows "tq_queued q a \<longleftrightarrow> (tq_key q a, a) \<in> set (tq_timers q)"
proof
  assume "tq_queued q a"
  then obtain k where "(k, a) \<in> set (tq_timers q)" by (rule tq_queued_obtain)
  then show "(tq_key q a, a) \<in> set (tq_timers q)" using tq_entry(2)[OF inv] by blast
qed (rule tq_queuedI)

lemma tq_queued_less: "tq_inv q \<Longrightarrow> tq_queued q a \<Longrightarrow> a < length (tq_heap q)"
  using tq_queued_key tq_entry(1) by blast

lemma tq_invI:
  assumes "om_sorted (tq_timers q)"
    and "\<And>k a. (k, a) \<in> set (tq_timers q) \<Longrightarrow> a < length (tq_heap q) \<and> k = tq_key q a \<and> map_of (tq_timersById q) (snd k) = Some a"
    and "\<And>s a. map_of (tq_timersById q) s = Some a \<Longrightarrow>
      a < length (tq_heap q) \<and> tm_sequence (tq_timer q a) = s \<and> (tm_inQueue (tq_timer q a) \<longleftrightarrow> tq_queued q a)"
    and "\<And>a. a < length (tq_heap q) \<Longrightarrow> tm_sequence (tq_timer q a) = int a + 1"
    and "tq_nextSequence q = int (length (tq_heap q)) + 1" "length (tq_heap q) < 2 ^ 62"
  shows "tq_inv q"
proof -
  have "\<forall>p \<in> set (tq_timers q). snd p < length (tq_heap q) \<and> fst p = tq_key q (snd p) \<and>
        map_of (tq_timersById q) (snd (fst p)) = Some (snd p)"
  proof
    fix p assume "p \<in> set (tq_timers q)"
    then have "(fst p, snd p) \<in> set (tq_timers q)" by simp
    then show "snd p < length (tq_heap q) \<and> fst p = tq_key q (snd p) \<and> map_of (tq_timersById q) (snd (fst p)) = Some (snd p)"
      by (rule assms(2))
  qed
  then show ?thesis unfolding tq_inv_def using assms(1,3-6) by blast
qed

lemma tq_sizes:
  assumes "tq_inv q"
  shows "om_sorted (tq_timers q)" "tq_nextSequence q = int (length (tq_heap q)) + 1" "length (tq_heap q) < 2 ^ 62"
  using assms unfolding tq_inv_def by blast+

text \<open>Writing the flags of a timer, and moving a timer that is not queued.\<close>

lemma tq_inv_write:
  assumes inv: "tq_inv q" and f: "tm_sequence (f (tq_timer q a)) = tm_sequence (tq_timer q a)"
    and q: "tq_queued q a \<Longrightarrow> tm_expiration (f (tq_timer q a)) = tm_expiration (tq_timer q a)"
    and i: "\<And>s. map_of (tq_timersById q) s = Some a \<Longrightarrow> tm_inQueue (f (tq_timer q a)) \<longleftrightarrow> tq_queued q a"
  shows "tq_inv (tq_write a f q)"
proof (cases "a < length (tq_heap q)")
  case True
  have k: "tq_key (tq_write a f q) b = tq_key q b" if "tq_queued q b" for b
    using that q f True by (auto simp: tq_key_def tq_timer_write)
  show ?thesis
  proof (rule tq_invI)
    fix b k assume "(k, b) \<in> set (tq_timers (tq_write a f q))"
    then have p: "(k, b) \<in> set (tq_timers q)" by simp
    show "b < length (tq_heap (tq_write a f q)) \<and> k = tq_key (tq_write a f q) b \<and> map_of (tq_timersById (tq_write a f q)) (snd k) = Some b"
      using tq_entry[OF inv p] k[OF tq_queuedI[OF p]] by simp
  next
    fix s b assume "map_of (tq_timersById (tq_write a f q)) s = Some b"
    then have m: "map_of (tq_timersById q) s = Some b" by simp
    show "b < length (tq_heap (tq_write a f q)) \<and> tm_sequence (tq_timer (tq_write a f q) b) = s \<and>
      (tm_inQueue (tq_timer (tq_write a f q) b) \<longleftrightarrow> tq_queued (tq_write a f q) b)"
      using tq_index[OF inv m] f i m True by (auto simp: tq_timer_write)
  qed (use tq_sizes[OF inv] tq_sequence[OF inv] f True in \<open>auto simp: tq_timer_write\<close>)
next
  case False
  then have "tq_write a f q = q" by (simp add: tq_write_def list_update_beyond)
  then show ?thesis using inv by simp
qed

text \<open>Inserting a timer.\<close>

lemma tq_insert:
  assumes inv: "tq_inv q" and a: "a < length (tq_heap q)"
  defines "q' \<equiv> snd (TimerQueue_insert a q)"
  shows "tq_inv q'" "tq_queued q' b \<longleftrightarrow> b = a \<or> tq_queued q b" "length (tq_heap q') = length (tq_heap q)"
    "b \<noteq> a \<Longrightarrow> tq_timer q' b = tq_timer q b"
    "tq_timer q' a = (tq_timer q a)\<lparr> tm_inQueue := True, tm_canceled := False \<rparr>"
    "map_of (tq_timersById q') = (map_of (tq_timersById q))(tm_sequence (tq_timer q a) \<mapsto> a)"
proof -
  let ?k = "tq_key q a" and ?s = "tm_sequence (tq_timer q a)"
  have e: "q' = (tq_write a (\<lambda>t. t\<lparr> tm_inQueue := True, tm_canceled := False \<rparr>) q)
     \<lparr> tq_timersById := AList.update ?s a (tq_timersById q),
       tq_timers := (if map_of (tq_timers q) ?k = None then om_update ?k a (tq_timers q) else tq_timers q) \<rparr>"
    by (simp add: q'_def TimerQueue_insert_def Let_def tq_key_def)
  have h: "tq_timer q' b = (if b = a then (tq_timer q a)\<lparr> tm_inQueue := True, tm_canceled := False \<rparr> else tq_timer q b)" for b
    using a unfolding e by (simp add: tq_timer_write)
  have l: "length (tq_heap q') = length (tq_heap q)" "tq_nextSequence q' = tq_nextSequence q" unfolding e by simp_all
  have k: "tq_key q' b = tq_key q b" for b by (simp add: tq_key_def h)
  have srt: "om_sorted (tq_timers q)" using tq_sizes(1)[OF inv] .
  have inj: "b = a" if "b < length (tq_heap q)" "tm_sequence (tq_timer q b) = ?s" for b
    using tq_sequence[OF inv a] tq_sequence[OF inv that(1)] that(2) by simp
  have some: "v = a" if "map_of (tq_timers q) ?k = Some v" for v
    using tq_entry(1,2)[OF inv map_of_SomeD[OF that]] inj by (simp add: tq_key_def)
  have ts: "set (tq_timers q') = insert (?k, a) (set (tq_timers q))"
  proof (cases "map_of (tq_timers q) ?k")
    case None
    then show ?thesis using srt unfolding e by (simp add: set_om_update)
  next
    case (Some v)
    then show ?thesis using some[OF Some] map_of_SomeD[OF Some] unfolding e by auto
  qed
  show qd: "tq_queued q' b \<longleftrightarrow> b = a \<or> tq_queued q b" for b by (auto simp: tq_queued_def ts)
  show m: "map_of (tq_timersById q') = (map_of (tq_timersById q))(?s \<mapsto> a)" unfolding e by (simp add: update_conv')
  show "tq_inv q'"
  proof (rule tq_invI)
    show "om_sorted (tq_timers q')" using srt unfolding e by (simp add: om_sorted_update)
  next
    fix k' b assume "(k', b) \<in> set (tq_timers q')"
    then consider "k' = ?k" "b = a" | "(k', b) \<in> set (tq_timers q)" by (auto simp: ts)
    then show "b < length (tq_heap q') \<and> k' = tq_key q' b \<and> map_of (tq_timersById q') (snd k') = Some b"
    proof cases
      case 1
      then show ?thesis using a by (simp add: l k m) (simp add: tq_key_def)
    next
      case 2
      note t = tq_entry[OF inv 2]
      have "snd k' = tm_sequence (tq_timer q b)" using t(2) by (simp add: tq_key_def)
      then have "snd k' = ?s \<Longrightarrow> b = a" using inj t(1) by simp
      then show ?thesis using t by (auto simp: l k m)
    qed
  next
    fix s b assume "map_of (tq_timersById q') s = Some b"
    then consider "s = ?s" "b = a" | "s \<noteq> ?s" "map_of (tq_timersById q) s = Some b" by (auto simp: m split: if_splits)
    then show "b < length (tq_heap q') \<and> tm_sequence (tq_timer q' b) = s \<and> (tm_inQueue (tq_timer q' b) \<longleftrightarrow> tq_queued q' b)"
    proof cases
      case 1
      then show ?thesis using a by (simp add: l h qd)
    next
      case 2
      note t = tq_index[OF inv 2(2)]
      have "b \<noteq> a" using t(2) 2(1) by auto
      then show ?thesis using t by (simp add: l h qd)
    qed
  qed (use tq_sizes[OF inv] tq_sequence[OF inv] in \<open>simp_all add: l h\<close>)
  show "length (tq_heap q') = length (tq_heap q)" "b \<noteq> a \<Longrightarrow> tq_timer q' b = tq_timer q b"
    "tq_timer q' a = (tq_timer q a)\<lparr> tm_inQueue := True, tm_canceled := False \<rparr>" by (simp_all add: l h)
qed

text \<open>Dropping a timer from the index when it is not queued, and from both when it is.\<close>

lemma tq_remove:
  assumes inv: "tq_inv q" and a: "a < length (tq_heap q)"
    and q': "tq_heap q' = tq_heap (tq_write a f q)" "set (tq_timers q') = {p \<in> set (tq_timers q). snd p \<noteq> a}" "om_sorted (tq_timers q')"
      "tq_timersById q' = AList.delete (tm_sequence (tq_timer q a)) (tq_timersById q)" "tq_nextSequence q' = tq_nextSequence q"
    and f: "tm_sequence (f (tq_timer q a)) = tm_sequence (tq_timer q a)"
  shows "tq_inv q'" "tq_queued q' b \<longleftrightarrow> b \<noteq> a \<and> tq_queued q b"
    "map_of (tq_timersById q') = (map_of (tq_timersById q))(tm_sequence (tq_timer q a) := None)"
proof -
  let ?s = "tm_sequence (tq_timer q a)"
  have h: "length (tq_heap q') = length (tq_heap q)" "tq_timer q' b = (if b = a then f (tq_timer q a) else tq_timer q b)" for b
    using a tq_timer_write[OF a, of f b] by (simp_all add: q'(1))
  have k: "b \<noteq> a \<Longrightarrow> tq_key q' b = tq_key q b" for b by (simp add: tq_key_def h)
  show qd: "tq_queued q' b \<longleftrightarrow> b \<noteq> a \<and> tq_queued q b" for b by (auto simp: tq_queued_def q'(2))
  show m: "map_of (tq_timersById q') = (map_of (tq_timersById q))(?s := None)" by (simp add: q'(4) delete_conv')
  have inj: "b = a" if "b < length (tq_heap q)" "tm_sequence (tq_timer q b) = ?s" for b
    using tq_sequence[OF inv a] tq_sequence[OF inv that(1)] that(2) by simp
  show "tq_inv q'"
  proof (rule tq_invI)
    fix k' b assume "(k', b) \<in> set (tq_timers q')"
    then have p: "(k', b) \<in> set (tq_timers q)" "b \<noteq> a" by (auto simp: q'(2))
    note t = tq_entry[OF inv p(1)]
    have "snd k' = tm_sequence (tq_timer q b)" using t(2) by (simp add: tq_key_def)
    then have "snd k' \<noteq> ?s" using inj t(1) p(2) by auto
    then show "b < length (tq_heap q') \<and> k' = tq_key q' b \<and> map_of (tq_timersById q') (snd k') = Some b"
      using t p(2) by (auto simp: h k m)
  next
    fix s b assume "map_of (tq_timersById q') s = Some b"
    then have p: "s \<noteq> ?s" "map_of (tq_timersById q) s = Some b" by (auto simp: m split: if_splits)
    note t = tq_index[OF inv p(2)]
    have "b \<noteq> a" using t(2) p(1) by auto
    then show "b < length (tq_heap q') \<and> tm_sequence (tq_timer q' b) = s \<and> (tm_inQueue (tq_timer q' b) \<longleftrightarrow> tq_queued q' b)"
      using t by (simp add: h qd)
  qed (use tq_sizes[OF inv] tq_sequence[OF inv] f a q'(3,5) in \<open>auto simp: h\<close>)
qed

lemma om_erase_other:
  assumes inv: "tq_inv q" and a: "a < length (tq_heap q)"
  shows "set (om_erase (tq_key q a) (tq_timers q)) = {p \<in> set (tq_timers q). snd p \<noteq> a}"
proof -
  have "fst p \<noteq> tq_key q a \<longleftrightarrow> snd p \<noteq> a" if "p \<in> set (tq_timers q)" for p
  proof -
    obtain k b where p: "p = (k, b)" by (cases p)
    note t = tq_entry[OF inv that[unfolded p]]
    have "tq_key q b = tq_key q a \<Longrightarrow> b = a" using tq_sequence[OF inv a] tq_sequence[OF inv t(1)] by (simp add: tq_key_def)
    then show ?thesis using t(2) by (auto simp: p)
  qed
  then show ?thesis by (auto simp: om_erase_def)
qed

lemma tq_cancel:
  fixes i :: int
  assumes inv: "tq_inv q"
  defines "q' \<equiv> TimerQueue_cancelInLoop i q"
  shows "tq_inv q'" "tq_le q q'" "map_of (tq_timersById q') = (map_of (tq_timersById q))(i := None)"
    "length (tq_heap q') = length (tq_heap q)" "i \<notin> (snd \<circ> fst) ` set (tq_timers q')"
    "map_of (tq_timersById q) i = Some a \<Longrightarrow> tm_canceled (tq_timer q' a) \<and> \<not> tq_queued q' a"
proof -
  have res: "tq_inv q' \<and> tq_le q q' \<and> map_of (tq_timersById q') = (map_of (tq_timersById q))(i := None) \<and>
    length (tq_heap q') = length (tq_heap q) \<and>
    (\<forall>a. map_of (tq_timersById q) i = Some a \<longrightarrow> tm_canceled (tq_timer q' a) \<and> \<not> tq_queued q' a)"
  proof (cases "map_of (tq_timersById q) i")
    case None
    then have "q' = q" by (simp add: q'_def TimerQueue_cancelInLoop_def)
    then show ?thesis using inv None by auto
  next
    case (Some a)
    note t = tq_index[OF inv Some]
    define f :: "Timer \<Rightarrow> Timer" where "f = (\<lambda>t. if tm_inQueue t then t\<lparr> tm_canceled := True, tm_inQueue := False \<rparr> else t\<lparr> tm_canceled := True \<rparr>)"
    have h: "tq_heap q' = tq_heap (tq_write a f q)"
      using Some t(1) by (auto simp: q'_def TimerQueue_cancelInLoop_def Let_def tq_write_def f_def)
    have ts: "tq_timers q' = (if tm_inQueue (tq_timer q a) then om_erase (tq_key q a) (tq_timers q) else tq_timers q)"
      using Some t(1) by (simp add: q'_def TimerQueue_cancelInLoop_def Let_def tq_timer_write tq_key_def)
    have bys: "tq_timersById q' = AList.delete (tm_sequence (tq_timer q a)) (tq_timersById q)" "tq_nextSequence q' = tq_nextSequence q"
      using Some t(2) by (simp_all add: q'_def TimerQueue_cancelInLoop_def Let_def)
    have st: "set (tq_timers q') = {p \<in> set (tq_timers q). snd p \<noteq> a}"
    proof (cases "tm_inQueue (tq_timer q a)")
      case True
      then show ?thesis using om_erase_other[OF inv t(1)] by (simp add: ts)
    next
      case False
      then have "\<not> tq_queued q a" using t(3) by simp
      then show ?thesis using False by (auto simp: ts tq_queued_def)
    qed
    have srt: "om_sorted (tq_timers q')" using tq_sizes(1)[OF inv] by (simp add: ts om_sorted_erase)
    have fs: "tm_sequence (f (tq_timer q a)) = tm_sequence (tq_timer q a)" by (simp add: f_def)
    note r = tq_remove[OF inv t(1) h st srt bys fs]
    have tm: "tq_timer q' b = (if b = a then f (tq_timer q a) else tq_timer q b)" for b
      using tq_timer_write[OF t(1), of f b] by (simp add: h)
    have "timer_le q q' b" for b
      using r(2,3) tm[of b] by (auto simp: timer_le_def tq_key_def f_def)
    then show ?thesis using r Some t(2) tm[of a] by (simp add: tq_le_def h f_def)
  qed
  then show r: "tq_inv q'" "tq_le q q'" "map_of (tq_timersById q') = (map_of (tq_timersById q))(i := None)"
    "length (tq_heap q') = length (tq_heap q)"
    "map_of (tq_timersById q) i = Some a \<Longrightarrow> tm_canceled (tq_timer q' a) \<and> \<not> tq_queued q' a" by blast+
  show "i \<notin> (snd \<circ> fst) ` set (tq_timers q')"
  proof
    assume "i \<in> (snd \<circ> fst) ` set (tq_timers q')"
    then obtain k b where "(k, b) \<in> set (tq_timers q')" "snd k = i" by auto
    then show False using tq_entry(3)[OF r(1)] r(3) by fastforce
  qed
qed

lemma tq_make:
  assumes inv: "tq_inv q" and e: "TimerQueue_makeTimer cb when interval options q = (Inr a, q')"
    and room: "Suc (length (tq_heap q)) < 2 ^ 62"
  shows "tq_inv q'" "tq_le q q'" "a = length (tq_heap q)" "a < length (tq_heap q')" "\<not> tq_queued q' a"
    "tq_timers q' = tq_timers q" "tm_sequence (tq_timer q' a) = int a + 1" "tq_timersById q' = tq_timersById q"
proof -
  obtain t where q': "q' = q\<lparr> tq_heap := tq_heap q @ [t], tq_nextSequence := s64_inc (tq_nextSequence q) \<rparr>"
      "tm_sequence t = tq_nextSequence q" and a: "a = length (tq_heap q)"
    using e by (auto simp: TimerQueue_makeTimer_def split: option.splits sum.splits if_splits)
  have h: "b < length (tq_heap q) \<Longrightarrow> tq_timer q' b = tq_timer q b" for b by (simp add: q' nth_append)
  have qd: "tq_queued q' b = tq_queued q b" for b by (simp add: q' tq_queued_def)
  have n: "tq_nextSequence q' = int (length (tq_heap q')) + 1"
    using tq_sizes[OF inv] room by (simp add: q' s64_inc_def)
  show "tq_inv q'"
  proof (rule tq_invI)
    fix k b assume "(k, b) \<in> set (tq_timers q')"
    then have p: "(k, b) \<in> set (tq_timers q)" by (simp add: q')
    show "b < length (tq_heap q') \<and> k = tq_key q' b \<and> map_of (tq_timersById q') (snd k) = Some b"
      using tq_entry[OF inv p] h[of b] by (auto simp: tq_key_def q')
  next
    fix s b assume "map_of (tq_timersById q') s = Some b"
    then have p: "map_of (tq_timersById q) s = Some b" by (simp add: q')
    show "b < length (tq_heap q') \<and> tm_sequence (tq_timer q' b) = s \<and> (tm_inQueue (tq_timer q' b) \<longleftrightarrow> tq_queued q' b)"
      using tq_index[OF inv p] h[of b] qd by (simp add: q'(1))
  next
    fix b assume "b < length (tq_heap q')"
    then show "tm_sequence (tq_timer q' b) = int b + 1"
      using tq_sequence[OF inv, of b] tq_sizes(2)[OF inv] q' by (auto simp: nth_append less_Suc_eq)
  qed (use tq_sizes[OF inv] n room in \<open>simp_all add: q'\<close>)
  show "tq_le q q'" using h qd by (auto simp: tq_le_def timer_le_def tq_key_def q'(1))
  show "a = length (tq_heap q)" "a < length (tq_heap q')" "tq_timers q' = tq_timers q" "tq_timersById q' = tq_timersById q"
    using a by (simp_all add: q')
  show "tm_sequence (tq_timer q' a) = int a + 1" using q' a tq_sizes(2)[OF inv] by simp
  show "\<not> tq_queued q' a" using tq_queued_less[OF inv, of a] a qd by auto
qed

section \<open>Expiry\<close>

lemma markExpired_simps [simp]:
  "tq_timers (markExpired as q) = tq_timers q" "tq_timersById (markExpired as q) = tq_timersById q"
  "length (tq_heap (markExpired as q)) = length (tq_heap q)" "tq_nextSequence (markExpired as q) = tq_nextSequence q"
  by (induction as q rule: markExpired.induct) simp_all

lemma markExpired_timer:
  "\<forall>a \<in> set as. a < length (tq_heap q) \<Longrightarrow>
   tq_timer (markExpired as q) b = (if b \<in> set as then (tq_timer q b)\<lparr> tm_inQueue := False \<rparr> else tq_timer q b)"
  by (induction as q rule: markExpired.induct) (auto simp: tq_timer_write)

lemma tq_sequence_max: "tq_inv q \<Longrightarrow> a < length (tq_heap q) \<Longrightarrow> snd (tq_key q a) \<le> 2 ^ 63 - 1"
  using tq_sequence[of q a] tq_sizes(3)[of q] by (simp add: tq_key_def)

lemma sorted_filter_takeWhile:
  "sorted_wrt (<) (map fst xs) \<Longrightarrow> filter (\<lambda>p. fst p \<le> (k :: 'k :: linorder)) xs = takeWhile (\<lambda>p. fst p \<le> k) xs"
proof (induction xs)
  case (Cons x xs)
  show ?case
  proof (cases "fst x \<le> k")
    case False
    then have "filter (\<lambda>p. fst p \<le> k) xs = []" using Cons.prems by (force simp: filter_empty_conv)
    then show ?thesis using False by simp
  qed (use Cons in simp)
qed simp

text \<open>The due timers are the queued timers whose expiration has come, in the order of their keys.\<close>

lemma dueTimers:
  assumes inv: "tq_inv q"
  shows "dueTimers now q = filter (\<lambda>p. fst (fst p) \<le> now) (tq_timers q)"
proof -
  have "dueTimers now q = takeWhile (\<lambda>p. fst p \<le> (now, 2 ^ 63 - 1)) (tq_timers q)"
    by (simp add: dueTimers_def case_prod_beta')
  also have "\<dots> = filter (\<lambda>p. fst p \<le> (now, 2 ^ 63 - 1)) (tq_timers q)"
    using sorted_filter_takeWhile[of "tq_timers q"] tq_sizes(1)[OF inv] by (simp add: om_sorted_def)
  also have "\<dots> = filter (\<lambda>p. fst (fst p) \<le> now) (tq_timers q)"
  proof (rule filter_cong[OF refl])
    fix p assume p: "p \<in> set (tq_timers q)"
    obtain k a where e: "p = (k, a)" by (cases p)
    have "snd k \<le> 2 ^ 63 - 1" using tq_entry(1,2)[OF inv p[unfolded e]] tq_sequence_max[OF inv] by simp
    then show "fst p \<le> (now, 2 ^ 63 - 1) \<longleftrightarrow> fst (fst p) \<le> now" by (auto simp: e less_eq_prod_def)
  qed
  finally show ?thesis .
qed

lemma tq_distinct: "tq_inv q \<Longrightarrow> distinct (map snd (tq_timers q))"
proof -
  assume inv: "tq_inv q"
  have d: "distinct (map fst (tq_timers q))" using om_sorted_distinct[OF tq_sizes(1)[OF inv]] .
  have "inj_on snd (set (tq_timers q))"
  proof (rule inj_onI)
    fix x y assume x: "x \<in> set (tq_timers q)" and y: "y \<in> set (tq_timers q)" and s: "snd x = snd y"
    have "(fst x, snd x) \<in> set (tq_timers q)" "(fst y, snd y) \<in> set (tq_timers q)" using x y by simp_all
    then have "fst x = fst y" using tq_entry(2)[OF inv] s by metis
    then show "x = y" using s by (simp add: prod_eq_iff)
  qed
  then show ?thesis using d by (simp add: distinct_map)
qed

lemma tq_getExpired:
  assumes inv: "tq_inv q" and e: "TimerQueue_getExpired now n q = (expired, q')"
  shows "expired = map snd (take n (filter (\<lambda>p. fst (fst p) \<le> now) (tq_timers q)))"
    "tq_inv q'" "distinct expired" "\<And>a. a \<in> set expired \<Longrightarrow> a < length (tq_heap q) \<and> \<not> tq_queued q' a"
    "tq_timers q' = drop (length expired) (tq_timers q)" "length (tq_heap q') = length (tq_heap q)"
    "tq_timersById q' = tq_timersById q" "\<And>a. tq_key q' a = tq_key q a"
    "\<And>b. tq_timer q' b = (if b \<in> set expired then (tq_timer q b)\<lparr> tm_inQueue := False \<rparr> else tq_timer q b)"
    "\<And>b. tq_queued q b \<longleftrightarrow> b \<in> set expired \<or> tq_queued q' b"
proof -
  show ex: "expired = map snd (take n (filter (\<lambda>p. fst (fst p) \<le> now) (tq_timers q)))"
    using e dueTimers[OF inv] by (auto simp: TimerQueue_getExpired_def Let_def)
  have q': "q' = (markExpired expired q)\<lparr> tq_timers := drop (length expired) (tq_timers q) \<rparr>"
    using e by (auto simp: TimerQueue_getExpired_def Let_def)
  have "dueTimers now q = take (length (dueTimers now q)) (tq_timers q)"
    unfolding dueTimers_def by (rule takeWhile_eq_take)
  from arg_cong[OF this, of "take n"] have "take n (dueTimers now q) = take (min n (length (dueTimers now q))) (tq_timers q)"
    unfolding take_take .
  moreover have "expired = map snd (take n (dueTimers now q))" "length expired = min n (length (dueTimers now q))"
    using ex dueTimers[OF inv] by (simp_all add: min.commute)
  ultimately have pre: "expired = map snd (take (length expired) (tq_timers q))" by simp
  have split: "map snd (tq_timers q) = expired @ map snd (tq_timers q')"
  proof -
    have "expired = take (length expired) (map snd (tq_timers q))" using pre by (simp add: take_map)
    moreover have "map snd (tq_timers q') = drop (length expired) (map snd (tq_timers q))" by (simp add: q' drop_map)
    ultimately show ?thesis by (metis append_take_drop_id)
  qed
  have dis: "distinct (expired @ map snd (tq_timers q'))" using tq_distinct[OF inv] split by simp
  show "distinct expired" using dis by simp
  have lt: "\<forall>a \<in> set expired. a < length (tq_heap q)"
  proof
    fix a assume "a \<in> set expired"
    then have "a \<in> snd ` set (tq_timers q)" using arg_cong[OF split, of set] by auto
    then show "a < length (tq_heap q)" using tq_queued_less[OF inv] by (simp add: tq_queued_def)
  qed
  show nq: "\<And>a. a \<in> set expired \<Longrightarrow> a < length (tq_heap q) \<and> \<not> tq_queued q' a"
    using dis lt by (auto simp: tq_queued_def)
  show qd: "\<And>b. tq_queued q b \<longleftrightarrow> b \<in> set expired \<or> tq_queued q' b"
    using arg_cong[OF split, of set] by (auto simp: tq_queued_def)
  show tm: "\<And>b. tq_timer q' b = (if b \<in> set expired then (tq_timer q b)\<lparr> tm_inQueue := False \<rparr> else tq_timer q b)"
    using markExpired_timer[OF lt] by (simp add: q')
  show k: "\<And>a. tq_key q' a = tq_key q a" by (simp add: tq_key_def tm)
  show o: "tq_timers q' = drop (length expired) (tq_timers q)" "length (tq_heap q') = length (tq_heap q)"
    "tq_timersById q' = tq_timersById q" by (simp_all add: q')
  show "tq_inv q'"
  proof (rule tq_invI)
    show "om_sorted (tq_timers q')" using tq_sizes(1)[OF inv] by (simp add: o om_sorted_def drop_map[symmetric] sorted_wrt_drop)
  next
    fix k' b assume "(k', b) \<in> set (tq_timers q')"
    then have "(k', b) \<in> set (tq_timers q)" using set_drop_subset by (fastforce simp: o)
    from tq_entry[OF inv this] show "b < length (tq_heap q') \<and> k' = tq_key q' b \<and> map_of (tq_timersById q') (snd k') = Some b"
      by (simp add: o k)
  next
    fix s b assume "map_of (tq_timersById q') s = Some b"
    then have m: "map_of (tq_timersById q) s = Some b" by (simp add: o)
    show "b < length (tq_heap q') \<and> tm_sequence (tq_timer q' b) = s \<and> (tm_inQueue (tq_timer q' b) \<longleftrightarrow> tq_queued q' b)"
      using tq_index[OF inv m] qd[of b] nq[of b] by (auto simp: o tm)
  qed (use tq_sizes[OF inv] tq_sequence[OF inv] in \<open>simp_all add: o tm\<close>, simp add: q')
qed

definition rearmed :: "TimerQueue \<Rightarrow> nat \<Rightarrow> bool" where
  "rearmed q a \<longleftrightarrow> Timer_repeat (tq_timer q a) \<and> \<not> tm_canceled (tq_timer q a) \<and>
     map_of (tq_timersById q) (tm_sequence (tq_timer q a)) \<noteq> None"

definition nextExpiration :: "timestamp \<Rightarrow> Timer \<Rightarrow> timestamp" where
  "nextExpiration now timer =
     (if rto_mode (tm_options timer) = FixedRate
      then fst (nextFixedRateExpiration (tm_expiration timer) (tm_interval timer) now
                  (rto_maxCatchUpCallbacks (tm_options timer)) (tm_consecutiveCatchUpCallbacks timer))
      else now + tm_interval timer)"

lemma reset_step:
  fixes now :: timestamp
  assumes inv: "tq_inv q" and a: "a < length (tq_heap q)" and nq: "\<not> tq_queued q a"
  obtains r where "TimerQueue_reset (a # expired) now q = TimerQueue_reset expired now r" "tq_inv r"
    "length (tq_heap r) = length (tq_heap q)" "\<forall>b. tq_queued r b \<longleftrightarrow> tq_queued q b \<or> (b = a \<and> rearmed q a)"
    "\<forall>b. b \<noteq> a \<longrightarrow> tq_timer r b = tq_timer q b" "tm_sequence (tq_timer r a) = tm_sequence (tq_timer q a)"
    "map_of (tq_timersById r) = (if rearmed q a then (map_of (tq_timersById q))(tm_sequence (tq_timer q a) \<mapsto> a)
       else (map_of (tq_timersById q))(tm_sequence (tq_timer q a) := None))"
    "rearmed q a \<longrightarrow> tm_expiration (tq_timer r a) = nextExpiration now (tq_timer q a)"
proof (cases "rearmed q a")
  case True
  define g :: "Timer \<Rightarrow> Timer" where "g = (\<lambda>t. if rto_mode (tm_options (tq_timer q a)) = FixedRate
     then t\<lparr> tm_expiration := nextExpiration now (tq_timer q a),
             tm_consecutiveCatchUpCallbacks := snd (nextFixedRateExpiration (tm_expiration (tq_timer q a)) (tm_interval (tq_timer q a)) now
                  (rto_maxCatchUpCallbacks (tm_options (tq_timer q a))) (tm_consecutiveCatchUpCallbacks (tq_timer q a))) \<rparr>
     else t\<lparr> tm_expiration := now + tm_interval t, tm_consecutiveCatchUpCallbacks := 0 \<rparr>)"
  have g: "tm_sequence (g t) = tm_sequence t" "tm_inQueue (g t) = tm_inQueue t"
     "tm_expiration (g (tq_timer q a)) = nextExpiration now (tq_timer q a)" for t
    by (simp_all add: g_def nextExpiration_def)
  have e: "TimerQueue_reset (a # expired) now q = TimerQueue_reset expired now (snd (TimerQueue_insert a (tq_write a g q)))"
    using True by (simp add: rearmed_def Let_def g_def nextExpiration_def split: prod.split)
  have i1: "tq_inv (tq_write a g q)"
    using nq tq_index(3)[OF inv] by (intro tq_inv_write[OF inv]) (simp_all add: g)
  have a1: "a < length (tq_heap (tq_write a g q))" using a by simp
  note r = tq_insert[OF i1 a1]
  show ?thesis
    by (rule that[OF e r(1)]) (use r(2-6) a True in \<open>auto simp: tq_timer_write g\<close>)
next
  case False
  define r where "r = q\<lparr> tq_timersById := AList.delete (tm_sequence (tq_timer q a)) (tq_timersById q) \<rparr>"
  have e: "TimerQueue_reset (a # expired) now q = TimerQueue_reset expired now r"
    using False by (auto simp: rearmed_def Let_def r_def)
  have st: "set (tq_timers r) = {p \<in> set (tq_timers q). snd p \<noteq> a}" using nq by (auto simp: r_def tq_queued_def)
  have hp: "tq_heap r = tq_heap (tq_write a (\<lambda>t. t) q)" by (simp add: r_def tq_write_def)
  have "om_sorted (tq_timers r)" using tq_sizes(1)[OF inv] by (simp add: r_def)
  note rm = tq_remove[OF inv a hp st this]
  have ri: "tq_inv r" "tq_queued r b \<longleftrightarrow> b \<noteq> a \<and> tq_queued q b"
    "map_of (tq_timersById r) = (map_of (tq_timersById q))(tm_sequence (tq_timer q a) := None)" for b
    by (rule rm; simp add: r_def)+
  show ?thesis
    by (rule that[OF e ri(1)]) (use ri(2,3) nq False in \<open>auto simp: r_def\<close>)
qed

lemma tq_reset:
  fixes now :: timestamp
  assumes "tq_inv q" "distinct expired" "\<forall>a \<in> set expired. a < length (tq_heap q) \<and> \<not> tq_queued q a"
  defines "q' \<equiv> TimerQueue_reset expired now q"
  shows "tq_inv q' \<and> length (tq_heap q') = length (tq_heap q) \<and>
    (\<forall>b. tq_queued q' b \<longleftrightarrow> tq_queued q b \<or> (b \<in> set expired \<and> rearmed q b)) \<and>
    (\<forall>b. b \<notin> set expired \<longrightarrow> tq_timer q' b = tq_timer q b) \<and>
    (\<forall>b \<in> set expired. rearmed q b \<longrightarrow> tm_expiration (tq_timer q' b) = nextExpiration now (tq_timer q b)) \<and>
    (\<forall>b \<in> set expired. \<not> rearmed q b \<longrightarrow> map_of (tq_timersById q') (tm_sequence (tq_timer q b)) = None) \<and>
    (\<forall>s. (\<forall>b \<in> set expired. tm_sequence (tq_timer q b) \<noteq> s) \<longrightarrow> map_of (tq_timersById q') s = map_of (tq_timersById q) s)"
  unfolding q'_def using assms(1-3)
proof (induction expired arbitrary: q)
  case Nil
  then show ?case by simp
next
  case (Cons a expired)
  have a: "a < length (tq_heap q)" "\<not> tq_queued q a" "a \<notin> set expired" "distinct expired" using Cons.prems by simp_all
  from reset_step[OF Cons.prems(1) a(1,2), of expired now] obtain r where
    r: "TimerQueue_reset (a # expired) now q = TimerQueue_reset expired now r" "tq_inv r"
      "length (tq_heap r) = length (tq_heap q)" "\<forall>b. tq_queued r b \<longleftrightarrow> tq_queued q b \<or> (b = a \<and> rearmed q a)"
      "\<forall>b. b \<noteq> a \<longrightarrow> tq_timer r b = tq_timer q b" "tm_sequence (tq_timer r a) = tm_sequence (tq_timer q a)"
      "map_of (tq_timersById r) = (if rearmed q a then (map_of (tq_timersById q))(tm_sequence (tq_timer q a) \<mapsto> a)
         else (map_of (tq_timersById q))(tm_sequence (tq_timer q a) := None))"
      "rearmed q a \<longrightarrow> tm_expiration (tq_timer r a) = nextExpiration now (tq_timer q a)" .
  have seq: "tm_sequence (tq_timer q b) \<noteq> tm_sequence (tq_timer q a)" if "b \<in> set expired" for b
  proof -
    have "b < length (tq_heap q)" "b \<noteq> a" using that Cons.prems(3) a(3) by auto
    then show ?thesis using tq_sequence[OF Cons.prems(1)] a(1) by simp
  qed
  have re: "rearmed r b = rearmed q b" if "b \<in> set expired" for b
    using that a(3) r(5) r(7) seq[OF that] by (auto simp: rearmed_def)
  have "\<forall>b \<in> set expired. b < length (tq_heap r) \<and> \<not> tq_queued r b" using Cons.prems(3) a(3) r(3,4) by auto
  note IH = Cons.IH[OF r(2) a(4) this]
  let ?q' = "TimerQueue_reset expired now r"
  have T: "\<And>b. b \<in> set expired \<Longrightarrow> tq_timer r b = tq_timer q b" using r(5) a(3) by metis
  have old: "map_of (tq_timersById ?q') s = map_of (tq_timersById r) s" if "\<forall>b \<in> set expired. tm_sequence (tq_timer q b) \<noteq> s" for s
    using IH T that by simp
  have ta: "tq_timer ?q' a = tq_timer r a" using IH a(3) by blast
  show ?case unfolding r(1)
  proof (intro conjI allI ballI impI)
    show "tq_inv ?q'" "length (tq_heap ?q') = length (tq_heap q)" using IH r(3) by simp_all
    show "tq_queued ?q' b \<longleftrightarrow> tq_queued q b \<or> (b \<in> set (a # expired) \<and> rearmed q b)" for b
      using IH r(4) re[of b] a(3) by auto
    show "tq_timer ?q' b = tq_timer q b" if "b \<notin> set (a # expired)" for b using IH r(5) that by simp
    show "tm_expiration (tq_timer ?q' b) = nextExpiration now (tq_timer q b)" if "b \<in> set (a # expired)" "rearmed q b" for b
      using that IH T[of b] re[of b] ta r(8) by (cases "b = a") auto
    show "map_of (tq_timersById ?q') (tm_sequence (tq_timer q b)) = None" if "b \<in> set (a # expired)" "\<not> rearmed q b" for b
      using that IH T[of b] re[of b] old[of "tm_sequence (tq_timer q a)"] seq r(7) by (cases "b = a") auto
    show "map_of (tq_timersById ?q') s = map_of (tq_timersById q) s" if "\<forall>b \<in> set (a # expired). tm_sequence (tq_timer q b) \<noteq> s" for s
      using that old[of s] r(7) by auto
  qed
qed

section \<open>Clock arithmetic\<close>

lemma ceilMilliseconds:
  "0 \<le> ceilMilliseconds d" "ceilMilliseconds d \<le> int_max" "d \<le> 0 \<Longrightarrow> ceilMilliseconds d = 0"
  "ceilMilliseconds d < int_max \<Longrightarrow> d \<le> ceilMilliseconds d * ticksPerMillisecond"
  "0 < ceilMilliseconds d \<Longrightarrow> (ceilMilliseconds d - 1) * ticksPerMillisecond < d"
proof -
  define m where "m = d div 1000000"
  have m: "m * 1000000 \<le> d" "d < m * 1000000 + 1000000" by (auto simp: m_def)
  have "0 < d \<Longrightarrow> tdiv d ticksPerMillisecond = m" by (simp add: ticksPerMillisecond_def tdiv_nonneg m_def)
  then have c: "ceilMilliseconds d = (if d \<le> 0 then 0 else max 1 (min (if m * 1000000 < d then m + 1 else m) 2147483647))"
    by (auto simp: ceilMilliseconds_def int_max_def Let_def) (simp_all add: ticksPerMillisecond_def)
  show "0 \<le> ceilMilliseconds d" "ceilMilliseconds d \<le> int_max" "d \<le> 0 \<Longrightarrow> ceilMilliseconds d = 0"
    by (auto simp: c int_max_def)
  show "ceilMilliseconds d < int_max \<Longrightarrow> d \<le> ceilMilliseconds d * ticksPerMillisecond"
    using m unfolding c int_max_def ticksPerMillisecond_def by (simp add: max_def min_def split: if_splits)
  show "0 < ceilMilliseconds d \<Longrightarrow> (ceilMilliseconds d - 1) * ticksPerMillisecond < d"
    using m unfolding c int_max_def ticksPerMillisecond_def by (simp add: max_def min_def split: if_splits)
qed




lemma tq_first:
  assumes inv: "tq_inv q" and ts: "tq_timers q = (k, a) # rest"
  shows "tq_queued q a" "tm_expiration (tq_timer q a) = fst k" "tq_queued q b \<Longrightarrow> fst k \<le> tm_expiration (tq_timer q b)"
proof -
  have a: "(k, a) \<in> set (tq_timers q)" by (simp add: ts)
  show "tq_queued q a" using tq_queuedI[OF a] .
  show "tm_expiration (tq_timer q a) = fst k" using tq_entry(2)[OF inv a] by (simp add: tq_key_def)
  assume "tq_queued q b"
  then have "(tq_key q b, b) \<in> set (tq_timers q)" using tq_queued_key[OF inv] by blast
  moreover have "\<forall>k' \<in> fst ` set rest. k < k'" using tq_sizes(1)[OF inv] by (simp add: ts)
  ultimately have "k \<le> tq_key q b" by (force simp: ts)
  then show "fst k \<le> tm_expiration (tq_timer q b)" by (cases k) (auto simp: tq_key_def less_eq_prod_def)
qed

text \<open>C26. The wait of the loop fits the timers. The timeout is between 0 and the default; a timeout below the default
  ends when some timer is due, so the loop never wakes for nothing on account of a timer; it is 0 exactly when a timer is
  due already or the default is 0; and a wait of one millisecond less would not overshoot any timer.\<close>

theorem poll_timeout_exact:
  assumes inv: "tq_inv q" and d: "0 \<le> defaultMs" "defaultMs \<le> int_max"
    and t_def: "TimerQueue_pollTimeoutMs now defaultMs q = t"
  shows "0 \<le> t \<and> t \<le> defaultMs \<and>
    (t < defaultMs \<longrightarrow> (\<exists>a. tq_queued q a \<and> tm_expiration (tq_timer q a) \<le> now + t * ticksPerMillisecond)) \<and>
    (\<forall>a. tq_queued q a \<longrightarrow> (if tm_expiration (tq_timer q a) \<le> now then t = 0
       else 0 < t \<longrightarrow> now + (t - 1) * ticksPerMillisecond < tm_expiration (tq_timer q a)))"
proof (cases "tq_timers q")
  case Nil
  then show ?thesis using d t_def by (auto simp: TimerQueue_pollTimeoutMs_def tq_queued_def)
next
  case (Cons p rest)
  obtain k a where p: "p = (k, a)" by (cases p)
  note f = tq_first[OF inv Cons[unfolded p]]
  let ?c = "ceilMilliseconds (fst k - now)"
  have t: "t = min defaultMs ?c" using f(2) t_def by (simp add: TimerQueue_pollTimeoutMs_def Cons p)
  note c = ceilMilliseconds[of "fst k - now"]
  have "0 \<le> t" "t \<le> defaultMs" using d(1) c(1) by (simp_all add: t)
  moreover have "\<exists>a. tq_queued q a \<and> tm_expiration (tq_timer q a) \<le> now + t * ticksPerMillisecond" if "t < defaultMs"
  proof -
    have "t = ?c" "?c < int_max" using that d(2) by (simp_all add: t)
    then show ?thesis using c(4) f(1,2) by (intro exI[of _ a]) simp
  qed
  moreover have "if tm_expiration (tq_timer q b) \<le> now then t = 0
       else 0 < t \<longrightarrow> now + (t - 1) * ticksPerMillisecond < tm_expiration (tq_timer q b)" if "tq_queued q b" for b
  proof -
    have le: "fst k \<le> tm_expiration (tq_timer q b)" using f(3)[OF that] .
    have "now + (t - 1) * ticksPerMillisecond < fst k" if "0 < t"
    proof -
      have "0 < ?c" "t \<le> ?c" using that by (simp_all add: t)
      then have "(t - 1) * ticksPerMillisecond \<le> (?c - 1) * ticksPerMillisecond" by (simp add: ticksPerMillisecond_def)
      then show ?thesis using c(5)[OF \<open>0 < ?c\<close>] by linarith
    qed
    moreover have "t = 0" if "tm_expiration (tq_timer q b) \<le> now" using le that c(3) d(1) by (simp add: t)
    ultimately show ?thesis using le by auto
  qed
  ultimately show ?thesis by blast
qed

definition demo_timers :: TimerQueue where
  "demo_timers = snd (TimerQueue_insert 0 (snd (TimerQueue_makeTimer (Some 7) 5200000 0 \<lparr> rto_mode = FixedDelay, rto_maxCatchUpCallbacks = 0 \<rparr> TimerQueue_new)))"

lemma demo_timers_inv: "tq_inv demo_timers"
proof -
  let ?m = "TimerQueue_makeTimer (Some 7) 5200000 0 \<lparr> rto_mode = FixedDelay, rto_maxCatchUpCallbacks = 0 \<rparr> TimerQueue_new"
  have e: "?m = (Inr 0, snd ?m)"
    by (simp add: TimerQueue_makeTimer_def RepeatingTimerOptions_validate_def TimerQueue_new_def)
  note m = tq_make[OF TimerQueue_new_inv e]
  have "tq_inv (snd ?m)" "0 < length (tq_heap (snd ?m))" using m(1,4) by (simp_all add: TimerQueue_new_def)
  then show ?thesis unfolding demo_timers_def by (rule tq_insert(1))
qed

theorem poll_timeout_exact_witness:
  "TimerQueue_pollTimeoutMs 1500000 10000 demo_timers = 4 \<and>
   (\<exists>a. tq_queued demo_timers a \<and> tm_expiration (tq_timer demo_timers a) \<le> 1500000 + 4 * ticksPerMillisecond)"
proof -
  have t: "TimerQueue_pollTimeoutMs 1500000 10000 demo_timers = 4"
    by (simp add: demo_timers_def TimerQueue_pollTimeoutMs_def TimerQueue_insert_def TimerQueue_makeTimer_def tq_write_def
        RepeatingTimerOptions_validate_def TimerQueue_new_def ceilMilliseconds_def tdiv_nonneg ticksPerMillisecond_def int_max_def Let_def)
  show ?thesis using poll_timeout_exact[OF demo_timers_inv _ _ t] t by (simp add: int_max_def)
qed

end
