(* ===== verification/Event_Api.thy ===== *)
theory Event_Api
  imports EventLoop_Run Lifecycle_Queues Timer_Order
begin

text \<open>
  What code outside the event loop may do to it.  \<open>el_ok\<close> is the invariant of the loop's state: the phases of the
  loop, the control plane, the lifecycle plane and the executor agree, each plane satisfies its own
  invariant, and the functor queue respects its capacity.  \<open>event_api\<close> is the relation of the
  public operations a callback or another thread may call, and \<open>ew_le\<close> what every such call keeps:
  the invariant, the queued functors and lifecycle nodes (they only grow, at the end), the
  phase (it only advances) and the timers.
\<close>

section \<open>The invariant\<close>

fun phase_rank :: "EventLoopPhase \<Rightarrow> nat" where
  "phase_rank PhaseRunning = 0"
| "phase_rank PhaseQuiescing = 1"
| "phase_rank PhaseFinalDraining = 2"
| "phase_rank PhaseShutdown = 3"

fun control_phase :: "EventLoopPhase \<Rightarrow> ControlPhase" where
  "control_phase PhaseRunning = CtlAccepting"
| "control_phase PhaseQuiescing = CtlDraining"
| "control_phase PhaseFinalDraining = CtlDraining"
| "control_phase PhaseShutdown = CtlShutdown"

text \<open>The phase of the loop and the admission planes agree.\<close>

definition phases_ok :: "EventLoop \<Rightarrow> bool" where
  "phases_ok l \<longleftrightarrow> ls_phase (el_lifecycle l) = el_phase l \<and> ct_phase (el_control l) = control_phase (el_phase l) \<and>
     (ex_accepting (el_executor l) \<longrightarrow> el_phase l = PhaseRunning) \<and> (el_quit l \<longleftrightarrow> el_phase l \<noteq> PhaseRunning)"

definition functors_ok :: "EventLoop \<Rightarrow> bool" where
  "functors_ok l \<longleftrightarrow>
     length (el_pendingFunctors l) \<le> eo_maxPendingFunctors (el_options l) + eo_reservedPendingFunctors (el_options l) \<and>
     (\<forall>f \<in> set (el_pendingFunctors l). \<forall>a. pf_functor f = FnAddTimer a \<longrightarrow> a < length (tq_heap (el_timers l)))"

definition options_ok :: "EventLoopOptions \<Rightarrow> bool" where
  "options_ok o' \<longleftrightarrow> EventLoopOptions_validate o' = Inr () \<and> eo_maxPendingFunctors o' \<le> size_max"

definition el_ok :: "EventLoop \<Rightarrow> bool" where
  "el_ok l \<longleftrightarrow> ct_inv (el_control l) \<and> (\<exists>ds qs. ls_inv (el_lifecycle l) ds qs) \<and> tq_inv (el_timers l) \<and> functors_ok l \<and>
     phases_ok l \<and> options_ok (el_options l)"

section \<open>What a callback may do\<close>

definition ls_le :: "LifecycleSourceState \<Rightarrow> LifecycleSourceState \<Rightarrow> bool" where
  "ls_le s s' \<longleftrightarrow> ls_size s \<le> ls_size s' \<and> ls_activeNode s' = ls_activeNode s \<and>
     (\<forall>a < ls_size s. fld ln_callback s' a = fld ln_callback s a) \<and>
     (\<forall>ds qs. ls_inv s ds qs \<longrightarrow> (\<exists>ds' qs'. ls_inv s' (ds @ ds') qs'))"

definition batch_le :: "EventLoop \<Rightarrow> EventLoop \<Rightarrow> bool" where
  "batch_le l l' \<longleftrightarrow> el_activeChannelCursor l' = el_activeChannelCursor l \<and> el_eventHandling l' = el_eventHandling l \<and>
     el_activeBatchEpoch l' = el_activeBatchEpoch l \<and> length (el_activeChannels l') = length (el_activeChannels l) \<and>
     (\<forall>i < length (el_activeChannels l). el_activeChannels l' ! i = el_activeChannels l ! i \<or> el_activeChannels l' ! i = None)"

definition functors_le :: "EventLoop \<Rightarrow> EventLoop \<Rightarrow> bool" where
  "functors_le l l' \<longleftrightarrow> (\<exists>fs. el_pendingFunctors l' = el_pendingFunctors l @ fs \<and> (\<not> ex_accepting (el_executor l) \<longrightarrow> fs = []))"

definition phase_le :: "EventLoop \<Rightarrow> EventLoop \<Rightarrow> bool" where
  "phase_le l l' \<longleftrightarrow> phase_rank (el_phase l) \<le> phase_rank (el_phase l') \<and>
     (ex_accepting (el_executor l') \<longrightarrow> ex_accepting (el_executor l)) \<and> (el_quit l \<longrightarrow> el_quit l') \<and>
     (el_phase l' = PhaseShutdown \<longrightarrow> el_phase l = PhaseShutdown)"

definition el_le :: "EventLoop \<Rightarrow> EventLoop \<Rightarrow> bool" where
  "el_le l l' \<longleftrightarrow> el_options l' = el_options l \<and> phase_le l l' \<and> functors_le l l' \<and>
     ls_le (el_lifecycle l) (el_lifecycle l') \<and> tq_le (el_timers l) (el_timers l') \<and> batch_le l l' \<and>
     el_callingPendingFunctors l' = el_callingPendingFunctors l"

lemma ls_le_refl [simp]: "ls_le s s"
  unfolding ls_le_def by (metis append_Nil2 order_refl)

lemma ls_le_trans: "ls_le s t \<Longrightarrow> ls_le t u \<Longrightarrow> ls_le s u"
  unfolding ls_le_def by (metis append_assoc order_less_le_trans order_trans)

lemma batch_le_refl [simp]: "batch_le l l"
  by (simp add: batch_le_def)

lemma batch_le_trans: "batch_le l m \<Longrightarrow> batch_le m n \<Longrightarrow> batch_le l n"
  unfolding batch_le_def by metis

lemma functors_le_trans:
  "functors_le l m \<Longrightarrow> functors_le m n \<Longrightarrow> phase_le l m \<Longrightarrow> functors_le l n"
  unfolding functors_le_def phase_le_def by auto

lemma el_le_refl [simp]: "el_le l l"
  by (simp add: el_le_def phase_le_def functors_le_def)

lemma el_le_trans: "el_le l m \<Longrightarrow> el_le m n \<Longrightarrow> el_le l n"
  unfolding el_le_def
  by (auto intro: ls_le_trans batch_le_trans functors_le_trans tq_le_trans simp: phase_le_def)

text \<open>A step of the world that keeps the invariant and goes no further than a callback may.\<close>

definition ew_le :: "'e EventWorld \<Rightarrow> 'e EventWorld \<Rightarrow> bool" where
  "ew_le w w' \<longleftrightarrow> (el_ok (ew_loop w) \<longrightarrow> el_ok (ew_loop w') \<and> el_le (ew_loop w) (ew_loop w'))"

lemma ew_le_refl [simp]: "ew_le w w"
  by (simp add: ew_le_def)

lemma ew_le_trans [trans]: "ew_le w v \<Longrightarrow> ew_le v u \<Longrightarrow> ew_le w u"
  unfolding ew_le_def by (blast intro: el_le_trans)

lemma ew_leI: "(el_ok (ew_loop w) \<Longrightarrow> el_ok (ew_loop w') \<and> el_le (ew_loop w) (ew_loop w')) \<Longrightarrow> ew_le w w'"
  by (simp add: ew_le_def)

lemma ew_leD: "ew_le w w' \<Longrightarrow> el_ok (ew_loop w) \<Longrightarrow> el_ok (ew_loop w') \<and> el_le (ew_loop w) (ew_loop w')"
  by (simp add: ew_le_def)

text \<open>Fields outside the invariant.\<close>

definition same_core :: "EventLoop \<Rightarrow> EventLoop \<Rightarrow> bool" where
  "same_core l l' \<longleftrightarrow> el_options l' = el_options l \<and> el_phase l' = el_phase l \<and> el_executor l' = el_executor l \<and>
     el_control l' = el_control l \<and> el_lifecycle l' = el_lifecycle l \<and> el_timers l' = el_timers l \<and>
     el_pendingFunctors l' = el_pendingFunctors l \<and> el_quit l' = el_quit l \<and>
     el_activeChannelCursor l' = el_activeChannelCursor l \<and> el_eventHandling l' = el_eventHandling l \<and>
     el_activeBatchEpoch l' = el_activeBatchEpoch l \<and> el_activeChannels l' = el_activeChannels l \<and>
     el_callingPendingFunctors l' = el_callingPendingFunctors l"

lemma same_core_ok: "same_core l l' \<Longrightarrow> el_ok l \<Longrightarrow> el_ok l' \<and> el_le l l'"
  unfolding same_core_def el_ok_def el_le_def phase_le_def functors_le_def batch_le_def phases_ok_def functors_ok_def
  by simp

lemma ew_le_core: "same_core (ew_loop w) (ew_loop w') \<Longrightarrow> ew_le w w'"
  by (rule ew_leI) (rule same_core_ok)

lemma ew_le_env [simp]: "ew_le w (w\<lparr> ew_env := e \<rparr>)" "ew_le w (w\<lparr> ew_nextGeneration := g \<rparr>)" "ew_le w (ew_io f w)"
  by (rule ew_le_core; simp add: same_core_def ew_io_def)+

lemma ew_now_le: "ew_now cb w = (now, w') \<Longrightarrow> ew_le w w'" "ew_now cb w = (now, w') \<Longrightarrow> ew_loop w' = ew_loop w"
  by (auto simp: ew_now_def split: prod.splits)

lemma ew_wakeup_le: "ew_le w (EventLoop_wakeup cb w)"
  by (rule ew_le_core) (simp add: EventLoop_wakeup_def same_core_def ew_upd_def ew_io_def)

lemma ew_setChannel_le: "ew_le w (ew_setChannel a f w)"
  by (rule ew_le_core) (simp add: ew_setChannel_def same_core_def ew_upd_def)

text \<open>The parts one at a time.\<close>

lemma el_control_le:
  assumes "el_ok l" "ct_inv c" "ct_phase c = ct_phase (el_control l)"
  shows "el_ok (l\<lparr> el_control := c \<rparr>) \<and> el_le l (l\<lparr> el_control := c \<rparr>)"
  using assms by (simp add: el_ok_def el_le_def phases_ok_def functors_ok_def phase_le_def functors_le_def batch_le_def)

lemma el_lifecycle_le:
  assumes ok: "el_ok l" and "ls_le (el_lifecycle l) s" "ls_phase s = ls_phase (el_lifecycle l)"
  shows "el_ok (l\<lparr> el_lifecycle := s \<rparr>) \<and> el_le l (l\<lparr> el_lifecycle := s \<rparr>)"
proof -
  obtain ds qs where "ls_inv (el_lifecycle l) ds qs" using ok by (auto simp: el_ok_def)
  then have "\<exists>ds qs. ls_inv s ds qs" using assms(2) unfolding ls_le_def by blast
  then show ?thesis
    using assms by (simp add: el_ok_def el_le_def phases_ok_def functors_ok_def phase_le_def functors_le_def batch_le_def)
qed

lemma el_timers_le:
  assumes ok: "el_ok l" and "tq_inv q" "tq_le (el_timers l) q"
  shows "el_ok (l\<lparr> el_timers := q \<rparr>) \<and> el_le l (l\<lparr> el_timers := q \<rparr>)"
proof -
  have "length (tq_heap (el_timers l)) \<le> length (tq_heap q)" using assms(3) by (simp add: tq_le_def)
  then have "functors_ok (l\<lparr> el_timers := q \<rparr>)" using ok by (auto simp: el_ok_def functors_ok_def intro: less_le_trans)
  then show ?thesis using assms by (simp add: el_ok_def el_le_def phases_ok_def phase_le_def functors_le_def batch_le_def)
qed

section \<open>The public operations\<close>

lemma ls_signal_le:
  assumes inv: "ls_inv s ds0 qs0" and a: "lsrc_node src < ls_size s"
    and e: "EventLoopLifecycleSource_signal alive t now src s = ((r, w), s')"
  shows "ls_le s s'" "ls_phase s' = ls_phase s"
proof -
  note f = ls_signal(3-11)[OF inv a e]
  show "ls_phase s' = ls_phase s" using f by simp
  have "\<exists>ds' qs'. ls_inv s' (ds @ ds') qs'" if "ls_inv s ds qs" for ds qs
  proof -
    have "(if r = PostAccepted \<and> lsrc_node src \<notin> set ds then ds @ [lsrc_node src] else ds) =
      ds @ (if r = PostAccepted \<and> lsrc_node src \<notin> set ds then [lsrc_node src] else [])" by simp
    then show ?thesis using ls_signal(1)[OF that a e] by metis
  qed
  then show "ls_le s s'" using f by (simp add: ls_le_def)
qed

lemma ls_attach_le:
  assumes inv: "ls_inv s ds0 qs0" and e: "EventLoop_attachLifecycleNode part c s = (r, s')"
  shows "ls_le s s'" "ls_phase s' = ls_phase s"
proof -
  have "ls_le s s' \<and> ls_phase s' = ls_phase s" using e
  proof (cases rule: ls_attach_cases)
    case refused
    then show ?thesis by simp
  next
    case (attached n)
    note a = ls_attach[OF _ e[unfolded attached(1,2)]]
    have g: "grown s s'" using a(2)[OF inv] .
    have "\<exists>ds' qs'. ls_inv s' (ds @ ds') qs'" if "ls_inv s ds qs" for ds qs
      using a(1)[OF that] by (metis append_Nil2)
    then show ?thesis using g by (simp add: ls_le_def grown_def)
  qed
  then show "ls_le s s'" "ls_phase s' = ls_phase s" by simp_all
qed

lemma ls_detach_le:
  assumes inv: "ls_inv s ds0 qs0" and a: "lsrc_node src < ls_size s"
  shows "ls_le s (EventLoop_detachLifecycleNode ours src s)" "ls_phase (EventLoop_detachLifecycleNode ours src s) = ls_phase s"
proof -
  have "ls_le s (EventLoop_detachLifecycleNode ours src s) \<and> ls_phase (EventLoop_detachLifecycleNode ours src s) = ls_phase s"
  proof (cases "ours \<and> fld ln_attached s (lsrc_node src) \<and> fld ln_generation s (lsrc_node src) = lsrc_generation src")
    case True
    note d = ls_detach_hit[OF _ a]
    have "\<exists>ds' qs'. ls_inv (EventLoop_detachLifecycleNode True src s) (ds @ ds') qs'" if "ls_inv s ds qs" for ds qs
      using d(1)[OF that] True by (metis append_Nil2)
    then show ?thesis using d(2-5)[OF inv] True by (simp add: ls_le_def)
  next
    case False
    then show ?thesis using ls_detach_miss by simp
  qed
  then show "ls_le s (EventLoop_detachLifecycleNode ours src s)" "ls_phase (EventLoop_detachLifecycleNode ours src s) = ls_phase s"
    by simp_all
qed

lemma ls_quiesce_le:
  assumes inv: "ls_inv s ds0 qs0"
  obtains s' where "LifecycleState_quiesce now s = Some s'" "ls_le s s'" "ls_phase s' = PhaseQuiescing"
proof -
  from ls_quiesce[OF inv, of now] obtain s' where s': "LifecycleState_quiesce now s = Some s'" "ls_phase s' = PhaseQuiescing"
    "ls_activeNode s' = ls_activeNode s" "ls_size s' = ls_size s" "fld ln_callback s' = fld ln_callback s" by metis
  have "\<exists>ds' qs'. ls_inv s' (ds @ ds') qs'" if "ls_inv s ds qs" for ds qs
    using ls_quiesce[OF that, of now] s'(1) by (metis option.inject)
  then have "ls_le s s'" using s' by (simp add: ls_le_def)
  then show ?thesis using s'(1,2) that by blast
qed

lemma quit_le: "ew_le w (EventLoop_quit cb inLoop w)"
proof (rule ew_leI)
  assume ok: "el_ok (ew_loop w)"
  let ?l = "ew_loop w"
  obtain ds qs where inv: "ls_inv (el_lifecycle ?l) ds qs" using ok by (auto simp: el_ok_def)
  have ph: "ls_phase (el_lifecycle ?l) = el_phase ?l" "ct_phase (el_control ?l) = control_phase (el_phase ?l)"
    using ok by (simp_all add: el_ok_def phases_ok_def)
  show "el_ok (ew_loop (EventLoop_quit cb inLoop w)) \<and> el_le ?l (ew_loop (EventLoop_quit cb inLoop w))"
  proof (cases "el_phase ?l = PhaseRunning")
    case True
    from ew_now_def[of cb w] obtain now w1 where n: "ew_now cb w = (now, w1)" by (cases "ew_now cb w")
    have w1: "ew_loop w1 = ?l" using ew_now_le(2)[OF n] .
    obtain s' where s': "LifecycleState_quiesce now (el_lifecycle ?l) = Some s'" "ls_le (el_lifecycle ?l) s'" "ls_phase s' = PhaseQuiescing"
      using ls_quiesce_le[OF inv] .
    have inv': "\<exists>ds qs. ls_inv s' ds qs" using s'(2) inv unfolding ls_le_def by blast
    have "ct_inv (ControlState_quit (el_control ?l))"
      using ok ct_touch[of "el_control ?l" "ControlState_quit (el_control ?l)"] by (simp add: ControlState_quit_def el_ok_def)
    then have q: "el_ok (quit_seal now ?l) \<and> el_le ?l (quit_seal now ?l)"
      using ok s' inv' True ph by (simp add: quit_seal_def el_ok_def el_le_def phases_ok_def functors_ok_def phase_le_def
          functors_le_def batch_le_def ControlState_quit_def)
    let ?w2 = "ew_upd (quit_seal now) w1"
    have e: "EventLoop_quit cb inLoop w = (if inLoop then ?w2 else EventLoop_wakeup cb ?w2)"
      using True ph n by (simp add: EventLoop_quit_def Let_def)
    have l2: "ew_loop ?w2 = quit_seal now ?l" by (simp add: ew_upd_def w1)
    have w: "el_ok (ew_loop (EventLoop_wakeup cb ?w2)) \<and> el_le (quit_seal now ?l) (ew_loop (EventLoop_wakeup cb ?w2))"
      using ew_leD[OF ew_wakeup_le, of ?w2 cb] q l2 by simp
    show ?thesis using q w l2 unfolding e by (cases inLoop) (auto intro: el_le_trans)
  next
    case False
    then have "ls_phase (el_lifecycle ?l) \<noteq> PhaseRunning" "el_quit ?l" "\<not> ex_accepting (el_executor ?l)"
      using ph ok by (auto simp: el_ok_def phases_ok_def)
    then show ?thesis using ok
      by (simp add: EventLoop_quit_def Let_def ew_upd_def el_ok_def el_le_def phases_ok_def functors_ok_def phase_le_def
          functors_le_def batch_le_def)
  qed
qed

lemma capacity_sum:
  assumes "options_ok o'"
  shows "sz_add (eo_maxPendingFunctors o') (if b then eo_reservedPendingFunctors o' else 0) =
    eo_maxPendingFunctors o' + (if b then eo_reservedPendingFunctors o' else 0)"
proof -
  have "eo_maxPendingFunctors o' + eo_reservedPendingFunctors o' \<le> size_max"
    using assms validate_capacity[of o'] by (simp add: options_ok_def)
  then show ?thesis by (intro sz_add_small) auto
qed

lemma queueImpl_le:
  assumes acc: "ex_accepting (el_executor (ew_loop w))"
    and f: "\<forall>a. fn = Some (FnAddTimer a) \<longrightarrow> a < length (tq_heap (el_timers (ew_loop w)))"
  shows "ew_le w (snd (EventLoop_tryQueueInLoopImpl cb inLoop fn allowReserve w))"
proof (cases fn)
  case None
  then show ?thesis by (simp add: EventLoop_tryQueueInLoopImpl_def)
next
  case (Some g)
  obtain now w1 where n: "ew_now cb w = (now, w1)" by (cases "ew_now cb w")
  have w1: "ew_loop w1 = ew_loop w" using ew_now_le(2)[OF n] .
  let ?l = "ew_loop w" let ?o = "el_options ?l"
  let ?cap = "sz_add (eo_maxPendingFunctors ?o) (if allowReserve then eo_reservedPendingFunctors ?o else 0)"
  let ?fs = "el_pendingFunctors ?l @ [\<lparr> pf_functor = g, pf_enqueuedAt = now \<rparr>]"
  let ?w2 = "ew_upd (\<lambda>l. let fs = el_pendingFunctors l @ [\<lparr> pf_functor = g, pf_enqueuedAt = now \<rparr>]
     in l\<lparr> el_pendingFunctors := fs, el_pendingFunctorPeak := max (el_pendingFunctorPeak l) (length fs) \<rparr>) w1"
  show ?thesis
  proof (cases "length (el_pendingFunctors ?l) \<ge> ?cap")
    case True
    then show ?thesis using Some n w1
      by (auto simp: EventLoop_tryQueueInLoopImpl_def Let_def intro!: ew_le_core simp: same_core_def ew_upd_def)
  next
    case False
    have l2: "ew_le w ?w2"
    proof (rule ew_leI)
      assume ok: "el_ok (ew_loop w)"
      have "length ?fs \<le> eo_maxPendingFunctors ?o + eo_reservedPendingFunctors ?o"
        using False capacity_sum[of ?o allowReserve] ok by (auto simp: el_ok_def split: if_splits)
      then show "el_ok (ew_loop ?w2) \<and> el_le (ew_loop w) (ew_loop ?w2)"
        using ok acc f Some w1
        by (auto simp: ew_upd_def Let_def el_ok_def el_le_def phases_ok_def functors_ok_def phase_le_def functors_le_def batch_le_def)
    qed
    have "snd (EventLoop_tryQueueInLoopImpl cb inLoop fn allowReserve w) \<in> {?w2, EventLoop_wakeup cb ?w2}"
      using Some n w1 False by (cases allowReserve) (auto simp: EventLoop_tryQueueInLoopImpl_def Let_def)
    then show ?thesis using l2 ew_le_trans[OF l2 ew_wakeup_le] by auto
  qed
qed

lemma queueInLoop_le:
  assumes "\<forall>a. fn = Some (FnAddTimer a) \<longrightarrow> a < length (tq_heap (el_timers (ew_loop w)))"
  shows "ew_le w (snd (EventLoop_queueInLoop cb inLoop fn w))" "ew_le w (snd (EventLoop_tryQueueInLoop cb inLoop fn w))"
    "ew_le w (snd (EventLoopExecutor_postFunctor cb alive inLoop fn w))"
proof -
  have r: "ew_le w (ew_upd (\<lambda>l. l\<lparr> el_rejectedFunctorCount := u64_inc (el_rejectedFunctorCount l) \<rparr>) w)"
    by (rule ew_le_core) (simp add: same_core_def ew_upd_def)
  show "ew_le w (snd (EventLoop_queueInLoop cb inLoop fn w))"
    using r queueImpl_le[OF _ assms, of cb inLoop True] by (auto simp: EventLoop_queueInLoop_def split: prod.split)
  show "ew_le w (snd (EventLoop_tryQueueInLoop cb inLoop fn w))"
    using r queueImpl_le[OF _ assms, of cb inLoop False] by (auto simp: EventLoop_tryQueueInLoop_def split: prod.split)
  show "ew_le w (snd (EventLoopExecutor_postFunctor cb alive inLoop fn w))"
    using queueImpl_le[OF _ assms, of cb inLoop False] by (auto simp: EventLoopExecutor_postFunctor_def split: prod.split)
qed

lemma ew_upd_le:
  assumes "el_ok (ew_loop w) \<Longrightarrow> el_ok (f (ew_loop w)) \<and> el_le (ew_loop w) (f (ew_loop w))"
  shows "ew_le w (ew_upd f w)"
  using assms by (simp add: ew_le_def ew_upd_def)

lemma notify_le: "ew_le w (snd (EventWorld_notify cb alive inLoop src w))"
proof -
  obtain now w1 where n: "ew_now cb w = (now, w1)" by (cases "ew_now cb w")
  have w1: "ew_loop w1 = ew_loop w" using ew_now_le(2)[OF n] .
  obtain r wake c where e: "EventLoopControlSource_notify alive inLoop now src (el_control (ew_loop w1)) = ((r, wake), c)"
    by (metis surj_pair)
  have u: "ew_le w1 (ew_upd (\<lambda>l. l\<lparr> el_control := c \<rparr>) w1)"
  proof (rule ew_upd_le)
    assume ok: "el_ok (ew_loop w1)"
    then have "ct_inv (el_control (ew_loop w1))" by (simp add: el_ok_def)
    from ct_notify[OF this e] show "el_ok ((ew_loop w1)\<lparr> el_control := c \<rparr>) \<and> el_le (ew_loop w1) ((ew_loop w1)\<lparr> el_control := c \<rparr>)"
      by (intro el_control_le[OF ok]) simp_all
  qed
  note w = ew_le_trans[OF ew_now_le(1)[OF n] u]
  show ?thesis using w ew_le_trans[OF w ew_wakeup_le] by (simp add: EventWorld_notify_def n e Let_def)
qed

lemma signal_le:
  assumes a: "lsrc_node src < ls_size (el_lifecycle (ew_loop w))"
  shows "ew_le w (snd (EventWorld_signal cb alive inLoop src w))"
proof -
  obtain now w1 where n: "ew_now cb w = (now, w1)" by (cases "ew_now cb w")
  have w1: "ew_loop w1 = ew_loop w" using ew_now_le(2)[OF n] .
  obtain r wake s where e: "EventLoopLifecycleSource_signal alive inLoop now src (el_lifecycle (ew_loop w1)) = ((r, wake), s)"
    by (metis surj_pair)
  have u: "ew_le w1 (ew_upd (\<lambda>l. l\<lparr> el_lifecycle := s \<rparr>) w1)"
  proof (rule ew_upd_le)
    assume ok: "el_ok (ew_loop w1)"
    then obtain ds qs where "ls_inv (el_lifecycle (ew_loop w1)) ds qs" by (auto simp: el_ok_def)
    from ls_signal_le[OF this _ e] a show "el_ok ((ew_loop w1)\<lparr> el_lifecycle := s \<rparr>) \<and> el_le (ew_loop w1) ((ew_loop w1)\<lparr> el_lifecycle := s \<rparr>)"
      by (intro el_lifecycle_le[OF ok]) (simp_all add: w1)
  qed
  note w = ew_le_trans[OF ew_now_le(1)[OF n] u]
  show ?thesis using w ew_le_trans[OF w ew_wakeup_le] by (simp add: EventWorld_signal_def n e Let_def)
qed

lemma register_le: "ew_le w (snd (EventWorld_registerControlSource callback w))"
proof -
  obtain r c where e: "EventLoop_registerControlSource (el_looping (ew_loop w)) callback (el_control (ew_loop w)) = (r, c)"
    by (metis surj_pair)
  have "ew_le w (ew_upd (\<lambda>l. l\<lparr> el_control := c \<rparr>) w)"
  proof (rule ew_upd_le)
    assume ok: "el_ok (ew_loop w)"
    then have i: "ct_inv (el_control (ew_loop w))" by (simp add: el_ok_def)
    have "ct_inv c \<and> ct_phase c = ct_phase (el_control (ew_loop w))"
      using e i ct_registerLoop[OF i, of "[0..<length (ct_slots (el_control (ew_loop w)))]"]
      by (auto simp: EventLoop_registerControlSource_def split: if_splits option.splits)
    then show "el_ok ((ew_loop w)\<lparr> el_control := c \<rparr>) \<and> el_le (ew_loop w) ((ew_loop w)\<lparr> el_control := c \<rparr>)"
      by (intro el_control_le[OF ok]) simp_all
  qed
  then show ?thesis by (simp add: EventWorld_registerControlSource_def e)
qed

lemma unregister_le: "ew_le w (EventWorld_unregisterControlSource ours src w)"
  unfolding EventWorld_unregisterControlSource_def
proof (rule ew_upd_le)
  assume ok: "el_ok (ew_loop w)"
  then have "ct_inv (el_control (ew_loop w))" by (simp add: el_ok_def)
  from ct_unregister[OF this, of ours src]
  show "el_ok ((ew_loop w)\<lparr> el_control := EventLoop_unregisterControlSource ours src (el_control (ew_loop w)) \<rparr>) \<and>
    el_le (ew_loop w) ((ew_loop w)\<lparr> el_control := EventLoop_unregisterControlSource ours src (el_control (ew_loop w)) \<rparr>)"
    by (intro el_control_le[OF ok]) simp_all
qed

lemma attach_le: "ew_le w (snd (EventWorld_attachLifecycleNode part callback w))"
proof -
  obtain r s where e: "EventLoop_attachLifecycleNode part callback (el_lifecycle (ew_loop w)) = (r, s)" by (metis surj_pair)
  have "ew_le w (ew_upd (\<lambda>l. l\<lparr> el_lifecycle := s \<rparr>) w)"
  proof (rule ew_upd_le)
    assume ok: "el_ok (ew_loop w)"
    then obtain ds qs where "ls_inv (el_lifecycle (ew_loop w)) ds qs" by (auto simp: el_ok_def)
    from ls_attach_le[OF this e] show "el_ok ((ew_loop w)\<lparr> el_lifecycle := s \<rparr>) \<and> el_le (ew_loop w) ((ew_loop w)\<lparr> el_lifecycle := s \<rparr>)"
      by (intro el_lifecycle_le[OF ok]) simp_all
  qed
  then show ?thesis by (simp add: EventWorld_attachLifecycleNode_def e)
qed

lemma detach_le:
  assumes a: "lsrc_node src < ls_size (el_lifecycle (ew_loop w))"
  shows "ew_le w (EventWorld_detachLifecycleNode ours src w)"
  unfolding EventWorld_detachLifecycleNode_def
proof (rule ew_upd_le)
  assume ok: "el_ok (ew_loop w)"
  then obtain ds qs where "ls_inv (el_lifecycle (ew_loop w)) ds qs" by (auto simp: el_ok_def)
  from ls_detach_le[OF this a, of ours]
  show "el_ok ((ew_loop w)\<lparr> el_lifecycle := EventLoop_detachLifecycleNode ours src (el_lifecycle (ew_loop w)) \<rparr>) \<and>
    el_le (ew_loop w) ((ew_loop w)\<lparr> el_lifecycle := EventLoop_detachLifecycleNode ours src (el_lifecycle (ew_loop w)) \<rparr>)"
    by (intro el_lifecycle_le[OF ok]) simp_all
qed

text \<open>Inserting a timer that was just made.\<close>

lemma insert_new_le:
  assumes inv: "tq_inv q0" and le: "tq_le q0 q" and q: "tq_inv q" and a: "length (tq_heap q0) \<le> a" "a < length (tq_heap q)"
  shows "tq_inv (snd (TimerQueue_insert a q))" "tq_le q0 (snd (TimerQueue_insert a q))"
proof -
  note i = tq_insert[OF q a(2)]
  show "tq_inv (snd (TimerQueue_insert a q))" using i(1) .
  have "timer_le q (snd (TimerQueue_insert a q)) b" if b: "b < length (tq_heap q0)" for b
  proof -
    have ne: "b \<noteq> a" "b < length (tq_heap q)" using b a by linarith+
    then have "tm_sequence (tq_timer q b) \<noteq> tm_sequence (tq_timer q a)" using tq_sequence[OF q] a(2) by simp
    then show ?thesis using i(2-6) ne by (simp add: timer_le_def tq_key_def)
  qed
  then show "tq_le q0 (snd (TimerQueue_insert a q))" using le i(3) by (auto simp: tq_le_def intro: timer_le_trans)
qed

lemma addTimer_le:
  assumes room: "Suc (length (tq_heap (el_timers (ew_loop w)))) < 2 ^ 62"
  shows "ew_le w (snd (TimerQueue_tryAddTimer cb inLoop callback when interval options w))"
proof -
  let ?q = "el_timers (ew_loop w)"
  obtain r q where e: "TimerQueue_makeTimer callback when interval options ?q = (r, q)" by (metis surj_pair)
  show ?thesis
  proof (cases r)
    case (Inl x)
    then show ?thesis by (simp add: TimerQueue_tryAddTimer_def e)
  next
    case (Inr a)
    let ?w1 = "ew_upd (\<lambda>l. l\<lparr> el_timers := q \<rparr>) w"
    have len: "a < length (tq_heap q)"
      using e Inr by (auto simp: TimerQueue_makeTimer_def split: option.splits sum.splits if_splits)
    have w1: "ew_le w ?w1"
    proof (rule ew_upd_le)
      assume ok: "el_ok (ew_loop w)"
      then have inv: "tq_inv ?q" by (simp add: el_ok_def)
      show "el_ok ((ew_loop w)\<lparr> el_timers := q \<rparr>) \<and> el_le (ew_loop w) ((ew_loop w)\<lparr> el_timers := q \<rparr>)"
        using tq_make[OF inv e[unfolded Inr] room] by (intro el_timers_le[OF ok]) simp_all
    qed
    have w2: "ew_le w (ew_upd (\<lambda>l. l\<lparr> el_timers := snd (TimerQueue_insert a (el_timers l)) \<rparr>) ?w1)"
    proof (rule ew_leI)
      assume ok: "el_ok (ew_loop w)"
      then have inv: "tq_inv ?q" by (simp add: el_ok_def)
      note m = tq_make[OF inv e[unfolded Inr] room]
      have "tq_inv (snd (TimerQueue_insert a q))" "tq_le ?q (snd (TimerQueue_insert a q))"
        using insert_new_le[OF inv m(2,1) _ m(4)] m(3) by simp_all
      from el_timers_le[OF ok this]
      show "el_ok (ew_loop (ew_upd (\<lambda>l. l\<lparr> el_timers := snd (TimerQueue_insert a (el_timers l)) \<rparr>) ?w1)) \<and>
        el_le (ew_loop w) (ew_loop (ew_upd (\<lambda>l. l\<lparr> el_timers := snd (TimerQueue_insert a (el_timers l)) \<rparr>) ?w1))"
        by (simp add: ew_upd_def)
    qed
    have w3: "ew_le w (snd (EventLoopExecutor_postFunctor cb True inLoop (Some (FnAddTimer a)) ?w1))"
      using queueInLoop_le(3)[of "Some (FnAddTimer a)" ?w1 cb True inLoop] len w1
      by (auto simp: ew_upd_def intro: ew_le_trans)
    show ?thesis using w1 w2 w3 Inr by (auto simp: TimerQueue_tryAddTimer_def e Let_def split: prod.split)
  qed
qed

lemma cancelTimer_le: "ew_le w (snd (TimerQueue_tryCancel cb inLoop i w))"
proof -
  have "ew_le w (ew_upd (\<lambda>l. l\<lparr> el_timers := TimerQueue_cancelInLoop i (el_timers l) \<rparr>) w)"
  proof (rule ew_upd_le)
    assume ok: "el_ok (ew_loop w)"
    then have "tq_inv (el_timers (ew_loop w))" by (simp add: el_ok_def)
    from tq_cancel(1,2)[OF this, of i] show "el_ok ((ew_loop w)\<lparr> el_timers := TimerQueue_cancelInLoop i (el_timers (ew_loop w)) \<rparr>) \<and>
      el_le (ew_loop w) ((ew_loop w)\<lparr> el_timers := TimerQueue_cancelInLoop i (el_timers (ew_loop w)) \<rparr>)"
      by (intro el_timers_le[OF ok])
  qed
  then show ?thesis using queueInLoop_le(3)[of "Some (FnCancelTimer i)" w cb True inLoop] by (cases inLoop) (simp_all add: TimerQueue_tryCancel_def)
qed

lemma same_core_refl [simp]: "same_core l l"
  by (simp add: same_core_def)

lemma core_setChannel [simp]: "same_core l (ew_loop (ew_setChannel a f w)) = same_core l (ew_loop w)"
  by (simp add: ew_setChannel_def same_core_def ew_upd_def)

lemma core_advance [simp]: "same_core l (ew_loop (Channel_advanceRegistrationGeneration a w)) = same_core l (ew_loop w)"
  by (simp add: Channel_advanceRegistrationGeneration_def allocateRegistrationGeneration_def Let_def)

lemma updateChannel_core: "EventLoop_updateChannel cb inLoop a w = (r, w') \<Longrightarrow> same_core (ew_loop w) (ew_loop w')"
  by (auto simp: EventLoop_updateChannel_def Let_def split: if_splits prod.splits)

lemma mutate_le: "ew_le w (snd (Channel_mutate change cb inLoop a w))"
proof (cases "change (ew_channel a w)")
  case (Some ch)
  obtain r w' where e: "EventLoop_updateChannel cb inLoop a (ew_setChannel a (\<lambda>_. ch) w) = (r, w')" by (metis surj_pair)
  have "same_core (ew_loop (ew_setChannel a (\<lambda>_. ch) w)) (ew_loop w')" using updateChannel_core[OF e] .
  then have "ew_le (ew_setChannel a (\<lambda>_. ch) w) w'" by (rule ew_le_core)
  with ew_setChannel_le have "ew_le w w'" by (rule ew_le_trans)
  then show ?thesis using Some e by (simp add: Channel_mutate_def)
qed (simp add: Channel_mutate_def)

lemma clear_entry_le: "ew_le w (ew_upd (\<lambda>l. l\<lparr> el_activeChannels := (el_activeChannels l)[i := None] \<rparr>) w)"
proof (rule ew_upd_le)
  assume ok: "el_ok (ew_loop w)"
  have "batch_le (ew_loop w) ((ew_loop w)\<lparr> el_activeChannels := (el_activeChannels (ew_loop w))[i := None] \<rparr>)"
    unfolding batch_le_def by simp (metis nth_list_update_eq nth_list_update_neq)
  then show "el_ok ((ew_loop w)\<lparr> el_activeChannels := (el_activeChannels (ew_loop w))[i := None] \<rparr>) \<and>
    el_le (ew_loop w) ((ew_loop w)\<lparr> el_activeChannels := (el_activeChannels (ew_loop w))[i := None] \<rparr>)"
    using ok by (simp add: el_ok_def el_le_def phases_ok_def functors_ok_def phase_le_def functors_le_def)
qed

lemma removeChannel_le: "ew_le w (snd (EventLoop_removeChannel cb inLoop a w))"
proof -
  have fin: "ew_le v (Channel_advanceRegistrationGeneration a (ew_setChannel a f v))" for v f
    by (rule ew_le_core) simp
  obtain acc e where c: "io_cancelReadiness (ec_io cb) a (ew_env w) = (acc, e)" by (metis surj_pair)
  let ?w1 = "w\<lparr> ew_env := e \<rparr>"
  have w1: "ew_le w ?w1" by simp
  note clr = ew_le_trans[OF w1 ew_le_trans[OF clear_entry_le fin]]
  show ?thesis
    using w1 clr ew_le_trans[OF w1 fin] by (simp add: EventLoop_removeChannel_def c Let_def)
qed

lemma remove_le: "ew_le w (snd (Channel_remove cb inLoop a w))"
  by (simp add: Channel_remove_def removeChannel_le)

lemma retire_le: "ew_le w (snd (EventLoop_retireCurrentChannel inLoop ch w))"
  by (rule ew_le_core) (simp add: EventLoop_retireCurrentChannel_def ew_upd_def same_core_def split: option.split)

section \<open>Public callbacks\<close>

text \<open>What code outside the loop can do to it: any sequence of public operations, on any thread, and anything to the
  rest of the world. A source names a node that was attached, and there are fewer than \<open>2 ^ 62\<close> timers.\<close>

inductive event_api :: "'e EventCallbacks \<Rightarrow> 'e EventWorld \<Rightarrow> 'e EventWorld \<Rightarrow> bool" for cb where
  api_refl: "event_api cb w w"
| api_env: "event_api cb w v \<Longrightarrow> event_api cb w (v\<lparr> ew_env := e \<rparr>)"
| api_quit: "event_api cb w v \<Longrightarrow> event_api cb w (EventLoop_quit cb inLoop v)"
| api_queue: "event_api cb w v \<Longrightarrow> event_api cb w (snd (EventLoop_queueInLoop cb inLoop (map_option FnUser f) v))"
| api_tryQueue: "event_api cb w v \<Longrightarrow> event_api cb w (snd (EventLoop_tryQueueInLoop cb inLoop (map_option FnUser f) v))"
| api_post: "event_api cb w v \<Longrightarrow> event_api cb w (snd (EventLoopExecutor_postFunctor cb alive inLoop (map_option FnUser f) v))"
| api_notify: "event_api cb w v \<Longrightarrow> event_api cb w (snd (EventWorld_notify cb alive inLoop src v))"
| api_register: "event_api cb w v \<Longrightarrow> event_api cb w (snd (EventWorld_registerControlSource f v))"
| api_unregister: "event_api cb w v \<Longrightarrow> event_api cb w (EventWorld_unregisterControlSource ours src v)"
| api_signal: "event_api cb w v \<Longrightarrow> lsrc_node node < ls_size (el_lifecycle (ew_loop v)) \<Longrightarrow>
    event_api cb w (snd (EventWorld_signal cb alive inLoop node v))"
| api_attach: "event_api cb w v \<Longrightarrow> event_api cb w (snd (EventWorld_attachLifecycleNode part f v))"
| api_detach: "event_api cb w v \<Longrightarrow> lsrc_node node < ls_size (el_lifecycle (ew_loop v)) \<Longrightarrow>
    event_api cb w (EventWorld_detachLifecycleNode ours node v)"
| api_addTimer: "event_api cb w v \<Longrightarrow> Suc (length (tq_heap (el_timers (ew_loop v)))) < 2 ^ 62 \<Longrightarrow>
    event_api cb w (snd (TimerQueue_tryAddTimer cb inLoop f when interval options v))"
| api_cancel: "event_api cb w v \<Longrightarrow> event_api cb w (snd (TimerQueue_tryCancel cb inLoop i v))"
| api_mutate: "event_api cb w v \<Longrightarrow>
    change \<in> {mask_enableReading, mask_disableReading, mask_enableWriting, mask_disableWriting, mask_disableAll} \<Longrightarrow>
    event_api cb w (snd (Channel_mutate change cb inLoop a v))"
| api_remove: "event_api cb w v \<Longrightarrow> event_api cb w (snd (Channel_remove cb inLoop a v))"
| api_configure: "event_api cb w v \<Longrightarrow> event_api cb w (ew_setChannel a change v)"
| api_retire: "event_api cb w v \<Longrightarrow> event_api cb w (snd (EventLoop_retireCurrentChannel inLoop ch v))"
| api_setMetric: "event_api cb w v \<Longrightarrow> event_api cb w (ew_upd (\<lambda>l. l\<lparr> el_metricCallback := m \<rparr>) v)"
| api_setHandler: "event_api cb w v \<Longrightarrow> event_api cb w (ew_upd (\<lambda>l. l\<lparr> el_exceptionHandler := h \<rparr>) v)"
| api_wakeup: "event_api cb w v \<Longrightarrow> event_api cb w (EventLoop_wakeup cb v)"

lemma user_functor: "\<forall>a. map_option FnUser f = Some (FnAddTimer a) \<longrightarrow> P a"
  by (cases f) simp_all

lemma observer_le:
  "ew_le w (ew_upd (\<lambda>l. l\<lparr> el_metricCallback := m \<rparr>) w)" "ew_le w (ew_upd (\<lambda>l. l\<lparr> el_exceptionHandler := h \<rparr>) w)"
  by (rule ew_le_core; simp add: same_core_def ew_upd_def)+

lemmas operation_le = quit_le queueInLoop_le[OF user_functor] notify_le register_le unregister_le signal_le attach_le detach_le
  addTimer_le cancelTimer_le mutate_le remove_le ew_setChannel_le retire_le observer_le ew_wakeup_le ew_le_env(1)

lemma api_le: "event_api cb w w' \<Longrightarrow> ew_le w w'"
  by (induction rule: event_api.induct) (erule ew_le_trans | rule operation_le ew_le_refl | assumption)+

text \<open>The assumption on the code behind the loop: every callback, and everything other threads do, goes through the
  public operations.\<close>

definition event_public :: "'e EventCallbacks \<Rightarrow> bool" where
  "event_public cb \<longleftrightarrow>
     (\<forall>n w. event_api cb w (snd (ec_call cb n w))) \<and> (\<forall>n t w. event_api cb w (snd (ec_read cb n t w))) \<and>
     (\<forall>n t c w. event_api cb w (snd (ec_notice cb n t c w))) \<and> (\<forall>n s w. event_api cb w (snd (ec_metric cb n s w))) \<and>
     (\<forall>n s w. event_api cb w (snd (ec_exception cb n s w))) \<and> (\<forall>w. event_api cb w (ec_others cb w))"

lemma callback_le:
  assumes "event_public cb"
  shows "ew_le w (snd (ec_call cb n w))" "ew_le w (snd (ec_read cb n t w))" "ew_le w (snd (ec_notice cb n t c w))"
    "ew_le w (snd (ec_metric cb n s w))" "ew_le w (snd (ec_exception cb n src w))" "ew_le w (ec_others cb w)"
  using assms unfolding event_public_def by (blast intro: api_le)+

lemma exception_le:
  assumes "event_public cb"
  shows "ew_le w (EventLoop_handleCallbackException cb source w)"
proof -
  let ?w1 = "ew_upd (\<lambda>l. l\<lparr> el_callbackExceptionCount := u64_inc (el_callbackExceptionCount l) \<rparr>) w"
  have w1: "ew_le w ?w1" by (rule ew_le_core) (simp add: same_core_def ew_upd_def)
  show ?thesis
  proof (cases "el_exceptionHandler (ew_loop ?w1)")
    case (Some h)
    obtain r w2 where e: "ec_exception cb h source ?w1 = (r, w2)" by (metis surj_pair)
    have w2: "ew_le w w2" using ew_le_trans[OF w1 callback_le(5)[OF assms, of ?w1 h source]] e by simp
    have "EventLoop_handleCallbackException cb source w \<in> {w2, EventLoop_quit cb True w2}"
      using Some e by (simp add: EventLoop_handleCallbackException_def Let_def split: option.split EventLoopCallbackExceptionAction.split)
    then show ?thesis using w2 ew_le_trans[OF w2 quit_le] by auto
  qed (simp add: EventLoop_handleCallbackException_def Let_def w1)
qed

lemma metric_le:
  assumes "event_public cb"
  shows "ew_le w (EventLoop_emitEventLoopMetric cb sample w)"
proof (cases "el_metricCallback (ew_loop w)")
  case (Some m)
  let ?s = "\<lambda>c. sample\<lparr> ms_controlNotifications := ct_notifications c, ms_mergedControlNotifications := ct_mergedNotifications c,
     ms_rejectedControlNotifications := ct_rejectedNotifications c, ms_callbackExceptions := el_callbackExceptionCount (ew_loop w) \<rparr>"
  obtain t w1 where e: "ec_metric cb m (?s (el_control (ew_loop w))) w = (t, w1)" by (metis surj_pair)
  have w1: "ew_le w w1" using callback_le(4)[OF assms, of w m "?s (el_control (ew_loop w))"] e by simp
  then show ?thesis using ew_le_trans[OF w1 exception_le[OF assms]]
    by (simp add: EventLoop_emitEventLoopMetric_def Some Let_def e)
qed (simp add: EventLoop_emitEventLoopMetric_def)

end
