(* ===== verification/Event_Drains.thy ===== *)
theory Event_Drains
  imports Event_Api "HOL-Library.Sublist"
begin

text \<open>
  The four drains of an iteration: control sources, lifecycle nodes, expired timers and pending functors.
  Each drain is shown to run exactly the work its queue promises, in order and up to its budget, whatever
  the callbacks do through the public operations, and to keep the invariant of the loop.
\<close>

section \<open>Drains\<close>

text \<open>The steps of a drain may move timers, which a callback may not.\<close>

definition ew_keep :: "'e EventWorld \<Rightarrow> 'e EventWorld \<Rightarrow> bool" where
  "ew_keep w w' \<longleftrightarrow> (el_ok (ew_loop w) \<longrightarrow> el_ok (ew_loop w') \<and> el_options (ew_loop w') = el_options (ew_loop w) \<and>
     phase_le (ew_loop w) (ew_loop w') \<and> functors_le (ew_loop w) (ew_loop w') \<and>
     ls_le (el_lifecycle (ew_loop w)) (el_lifecycle (ew_loop w')) \<and> batch_le (ew_loop w) (ew_loop w') \<and>
     length (tq_heap (el_timers (ew_loop w))) \<le> length (tq_heap (el_timers (ew_loop w'))))"

lemma le_keep: "ew_le w w' \<Longrightarrow> ew_keep w w'"
  by (simp add: ew_le_def ew_keep_def el_le_def tq_le_def)

lemma ew_keep_refl [simp]: "ew_keep w w"
  by (simp add: le_keep)

lemma ew_keep_trans [trans]: "ew_keep w v \<Longrightarrow> ew_keep v u \<Longrightarrow> ew_keep w u"
  unfolding ew_keep_def
  by (auto intro: ls_le_trans batch_le_trans functors_le_trans simp: phase_le_def)

lemma ew_keepD: "ew_keep w w' \<Longrightarrow> el_ok (ew_loop w) \<Longrightarrow> el_ok (ew_loop w')"
  by (simp add: ew_keep_def)

lemma timers_keep:
  assumes "el_ok (ew_loop w) \<Longrightarrow> tq_inv (f (el_timers (ew_loop w))) \<and> length (tq_heap (f (el_timers (ew_loop w)))) = length (tq_heap (el_timers (ew_loop w)))"
  shows "ew_keep w (ew_upd (\<lambda>l. l\<lparr> el_timers := f (el_timers l) \<rparr>) w)"
  using assms
  by (auto simp: ew_keep_def ew_upd_def el_ok_def phases_ok_def functors_ok_def phase_le_def functors_le_def batch_le_def)

definition fn_fits :: "'e EventWorld \<Rightarrow> Functor \<Rightarrow> bool" where
  "fn_fits w fn \<longleftrightarrow> (\<forall>a. fn = FnAddTimer a \<longrightarrow> a < length (tq_heap (el_timers (ew_loop w))))"

lemma fn_fits_keep: "ew_keep w w' \<Longrightarrow> el_ok (ew_loop w) \<Longrightarrow> fn_fits w fn \<Longrightarrow> fn_fits w' fn"
  unfolding ew_keep_def fn_fits_def by auto

lemma runFunctor_keep:
  assumes pub: "event_public cb" and fit: "fn_fits w fn"
  shows "ew_keep w (snd (runFunctor cb fn w))"
proof (cases fn)
  case (FnUser n)
  then show ?thesis using callback_le(1)[OF pub] by (simp add: runFunctor_def le_keep)
next
  case (FnAddTimer a)
  then have "a < length (tq_heap (el_timers (ew_loop w)))" using fit by (simp add: fn_fits_def)
  then have "ew_keep w (ew_upd (\<lambda>l. l\<lparr> el_timers := snd (TimerQueue_insert a (el_timers l)) \<rparr>) w)"
    by (intro timers_keep) (simp add: el_ok_def tq_insert)
  then show ?thesis by (simp add: runFunctor_def FnAddTimer)
next
  case (FnCancelTimer i)
  have "ew_keep w (ew_upd (\<lambda>l. l\<lparr> el_timers := TimerQueue_cancelInLoop i (el_timers l) \<rparr>) w)"
    by (intro timers_keep) (simp add: el_ok_def tq_cancel)
  then show ?thesis by (simp add: runFunctor_def FnCancelTimer)
qed

lemma runFunctors_keep:
  assumes pub: "event_public cb"
  shows "el_ok (ew_loop w) \<Longrightarrow> \<forall>f \<in> set fs. fn_fits w (pf_functor f) \<Longrightarrow> ew_keep w (runFunctors cb fs w)"
proof (induction fs arbitrary: w)
  case (Cons f fs)
  let ?w0 = "ec_others cb w"
  have o: "ew_keep w ?w0" using callback_le(6)[OF pub] by (rule le_keep)
  have ok0: "el_ok (ew_loop ?w0)" using ew_keepD[OF o Cons.prems(1)] .
  obtain t w1 where r: "runFunctor cb (pf_functor f) ?w0 = (t, w1)" by (metis surj_pair)
  have "fn_fits ?w0 (pf_functor f)" using fn_fits_keep[OF o Cons.prems(1)] Cons.prems(2) by simp
  from runFunctor_keep[OF pub this] r have w1: "ew_keep w w1" using ew_keep_trans[OF o] by simp
  define w2 where "w2 = (if t then EventLoop_handleCallbackException cb SourcePendingFunctor w1 else w1)"
  have w2: "ew_keep w w2" unfolding w2_def using w1 ew_keep_trans[OF w1 le_keep[OF exception_le[OF pub]]] by simp
  have w3: "ew_keep w2 (runFunctors cb fs w2)"
    using Cons.IH[OF ew_keepD[OF w2 Cons.prems(1)]] fn_fits_keep[OF w2 Cons.prems(1)] Cons.prems(2) by simp
  have e: "runFunctors cb (f # fs) w = runFunctors cb fs w2" by (simp add: r w2_def)
  show ?case unfolding e by (rule ew_keep_trans[OF w2 w3])
qed simp

lemma calling_keep:
  "el_ok (ew_loop w) \<Longrightarrow> el_ok (ew_loop (ew_upd (\<lambda>l. l\<lparr> el_callingPendingFunctors := b \<rparr>) w))"
  "ew_keep w (ew_upd (\<lambda>l. l\<lparr> el_callingPendingFunctors := b \<rparr>) w)"
  by (simp_all add: ew_keep_def ew_upd_def el_ok_def phases_ok_def functors_ok_def phase_le_def functors_le_def batch_le_def)

text \<open>Taking the batch off the queue.\<close>

lemma take_batch_ok:
  assumes ok: "el_ok l"
  shows "el_ok (l\<lparr> el_pendingFunctors := drop n (el_pendingFunctors l), el_pendingFunctorPeak := 0 \<rparr>)"
  using ok unfolding el_ok_def functors_ok_def phases_ok_def by (auto dest: in_set_dropD)

lemma pendingFunctors_drain:
  assumes pub: "event_public cb" and ok: "el_ok (ew_loop w)" and e: "EventLoop_doPendingFunctors cb n w = (fs, w')"
  obtains arrived later where "fs = take n (el_pendingFunctors (ew_loop w) @ arrived)"
    "el_pendingFunctors (ew_loop w') = drop n (el_pendingFunctors (ew_loop w) @ arrived) @ later"
    "\<not> ex_accepting (el_executor (ew_loop w)) \<Longrightarrow> arrived = [] \<and> later = []"
    "el_ok (ew_loop w')" "el_options (ew_loop w') = el_options (ew_loop w)" "phase_le (ew_loop w) (ew_loop w')"
    "ls_le (el_lifecycle (ew_loop w)) (el_lifecycle (ew_loop w'))" "batch_le (ew_loop w) (ew_loop w')"
proof -
  define wc where "wc = ew_upd (\<lambda>l. l\<lparr> el_callingPendingFunctors := True \<rparr>) w"
  define w0 where "w0 = ec_others cb wc"
  have k0: "ew_keep w w0" unfolding w0_def wc_def by (rule ew_keep_trans[OF calling_keep(2) le_keep[OF callback_le(6)[OF pub]]])
  have ok0: "el_ok (ew_loop w0)" using ew_keepD[OF k0 ok] .
  define w1 where "w1 = ew_upd (\<lambda>l. l\<lparr> el_pendingFunctors := drop n (el_pendingFunctors l), el_pendingFunctorPeak := 0 \<rparr>) w0"
  have ok1: "el_ok (ew_loop w1)" unfolding w1_def ew_upd_def using take_batch_ok[OF ok0] by simp
  let ?p0 = "el_pendingFunctors (ew_loop w0)"
  have fs: "fs = take n ?p0"
    using e unfolding EventLoop_doPendingFunctors_def Let_def w0_def[symmetric] wc_def[symmetric] by simp
  obtain w2 where w2: "ew_le w1 w2" and w': "w' = (let w4 = ec_others cb (ew_upd (\<lambda>l. l\<lparr> el_callingPendingFunctors := False \<rparr>) (runFunctors cb fs w2))
     in if length (el_pendingFunctors (ew_loop w4)) > 0 then EventLoop_wakeup cb w4 else w4)"
  proof (cases "take n ?p0")
    case Nil
    have "w' = (let w4 = ec_others cb (ew_upd (\<lambda>l. l\<lparr> el_callingPendingFunctors := False \<rparr>) (runFunctors cb fs w1))
     in if length (el_pendingFunctors (ew_loop w4)) > 0 then EventLoop_wakeup cb w4 else w4)"
      using e unfolding EventLoop_doPendingFunctors_def Let_def w0_def[symmetric] wc_def[symmetric] w1_def[symmetric] Nil list.case prod.inject
      by (elim conjE) (simp only:)
    then show thesis by (rule that[OF ew_le_refl])
  next
    case (Cons f rest)
    obtain now w1a where n: "ew_now cb w1 = (now, w1a)" by (metis surj_pair)
    have m: "ew_le w1 (EventLoop_emitEventLoopMetric cb s (ec_others cb w1a))" for s
      using ew_le_trans[OF ew_le_trans[OF ew_now_le(1)[OF n] callback_le(6)[OF pub]] metric_le[OF pub]] .
    show thesis
      using e unfolding EventLoop_doPendingFunctors_def Let_def w0_def[symmetric] wc_def[symmetric] w1_def[symmetric] Cons list.case n prod.case prod.inject
      by (elim conjE, intro that[OF m], unfold Let_def) (erule subst, erule subst, rule refl)
  qed
  have k2: "ew_keep w1 w2" using w2 by (rule le_keep)
  have fit: "\<forall>f \<in> set fs. fn_fits w2 (pf_functor f)"
  proof
    fix f assume "f \<in> set fs"
    then have "f \<in> set ?p0" using fs by (metis in_set_takeD)
    then have "fn_fits w0 (pf_functor f)" using ok0 by (auto simp: el_ok_def functors_ok_def fn_fits_def)
    then have "fn_fits w1 (pf_functor f)" by (simp add: fn_fits_def w1_def ew_upd_def)
    then show "fn_fits w2 (pf_functor f)" using fn_fits_keep[OF k2 ok1] by simp
  qed
  have k3: "ew_keep w1 (runFunctors cb fs w2)"
    using ew_keep_trans[OF k2 runFunctors_keep[OF pub ew_keepD[OF k2 ok1] fit]] .
  let ?w4 = "ec_others cb (ew_upd (\<lambda>l. l\<lparr> el_callingPendingFunctors := False \<rparr>) (runFunctors cb fs w2))"
  have k4: "ew_keep w1 ?w4"
    using ew_keep_trans[OF ew_keep_trans[OF k3 calling_keep(2)] le_keep[OF callback_le(6)[OF pub]]] .
  have k: "ew_keep w1 w'" unfolding w' Let_def using k4 ew_keep_trans[OF k4 le_keep[OF ew_wakeup_le]] by simp
  have f0: "functors_le (ew_loop w) (ew_loop w0)" "phase_le (ew_loop w) (ew_loop w0)" using k0 ok by (simp_all add: ew_keep_def)
  have f1: "functors_le (ew_loop w1) (ew_loop w')" using k ok1 by (simp add: ew_keep_def)
  obtain arrived where a: "?p0 = el_pendingFunctors (ew_loop w) @ arrived" "\<not> ex_accepting (el_executor (ew_loop w)) \<Longrightarrow> arrived = []"
    using f0(1) by (auto simp: functors_le_def)
  have ex: "el_executor (ew_loop w1) = el_executor (ew_loop w0)" by (simp add: w1_def ew_upd_def)
  obtain later where l: "el_pendingFunctors (ew_loop w') = drop n ?p0 @ later" "\<not> ex_accepting (el_executor (ew_loop w0)) \<Longrightarrow> later = []"
    using f1 ex by (auto simp: functors_le_def w1_def ew_upd_def)
  have c: "el_options (ew_loop w1) = el_options (ew_loop w0)" "el_phase (ew_loop w1) = el_phase (ew_loop w0)"
    "el_quit (ew_loop w1) = el_quit (ew_loop w0)" "el_lifecycle (ew_loop w1) = el_lifecycle (ew_loop w0)"
    "batch_le (ew_loop w0) (ew_loop w1)"
    by (simp_all add: w1_def ew_upd_def batch_le_def)
  have k01: "el_options (ew_loop w0) = el_options (ew_loop w)" "ls_le (el_lifecycle (ew_loop w)) (el_lifecycle (ew_loop w0))"
     "batch_le (ew_loop w) (ew_loop w0)" using k0 ok by (simp_all add: ew_keep_def)
  have k12: "el_ok (ew_loop w')" "el_options (ew_loop w') = el_options (ew_loop w1)" "phase_le (ew_loop w1) (ew_loop w')"
    "ls_le (el_lifecycle (ew_loop w1)) (el_lifecycle (ew_loop w'))" "batch_le (ew_loop w1) (ew_loop w')"
    using k ok1 by (simp_all add: ew_keep_def)
  show thesis
  proof (rule that)
    show "fs = take n (el_pendingFunctors (ew_loop w) @ arrived)" using fs a(1) by simp
    show "el_pendingFunctors (ew_loop w') = drop n (el_pendingFunctors (ew_loop w) @ arrived) @ later" using l(1) a(1) by simp
    show "\<not> ex_accepting (el_executor (ew_loop w)) \<Longrightarrow> arrived = [] \<and> later = []"
      using a(2) l(2) f0(2) by (auto simp: phase_le_def)
    show "el_ok (ew_loop w')" using k12(1) .
    show "el_options (ew_loop w') = el_options (ew_loop w)" using k12(2) c(1) k01(1) by simp
    show "phase_le (ew_loop w) (ew_loop w')" using f0(2) k12(3) c ex by (auto simp: phase_le_def)
    show "ls_le (el_lifecycle (ew_loop w)) (el_lifecycle (ew_loop w'))" using ls_le_trans[OF k01(2)] k12(4) c(4) by simp
    show "batch_le (ew_loop w) (ew_loop w')" using batch_le_trans[OF batch_le_trans[OF k01(3) c(5)] k12(5)] .
  qed
qed

section \<open>The control sources\<close>

lemma runControlSlot_fst [simp]: "fst (fst (runControlSlot cb i w)) = i"
  by (simp add: runControlSlot_def Let_def split: prod.split option.split)

lemma drainWord_slots: "map fst (fst (drainWord cb i word w)) = map (\<lambda>b. i * 64 + b) (word_bits word)"
proof (induction cb i word w rule: drainWord.induct)
  case (1 cb i word w)
  show ?case
  proof (cases "word = 0")
    case True
    then show ?thesis by (simp add: drainWord.simps)
  next
    case False
    obtain e w1 where e: "runControlSlot cb (i * 64 + countr_zero word) w = (e, w1)" by (metis surj_pair)
    have "fst e = i * 64 + countr_zero word" using runControlSlot_fst[of cb "i * 64 + countr_zero word" w] e by simp
    then show ?thesis using 1[OF False e[symmetric]] False
      by (subst drainWord.simps) (auto simp: e word_bits_lowest split: prod.split)
  qed
qed

lemma drainWords_slots:
  "map fst (fst (drainWords cb i ws w)) = concat (map (\<lambda>k. map (\<lambda>b. (i + k) * 64 + b) (word_bits (ws ! k))) [0..<length ws])"
proof (induction ws arbitrary: i w)
  case (Cons x ws)
  have "[0..<length (x # ws)] = 0 # map Suc [0..<length ws]" by (subst upt_conv_Cons) (simp_all add: map_Suc_upt del: upt_Suc)
  moreover obtain es w1 es' w2 where e: "drainWord cb i x w = (es, w1)" "drainWords cb (i + 1) ws w1 = (es', w2)" by (metis surj_pair)
  moreover have "map fst es = map (\<lambda>b. i * 64 + b) (word_bits x)" using drainWord_slots[of cb i x w] e(1) by simp
  moreover have "map fst es' = concat (map (\<lambda>k. map (\<lambda>b. (i + 1 + k) * 64 + b) (word_bits (ws ! k))) [0..<length ws])"
    using Cons.IH[of "i + 1" w1] e(2) by simp
  ultimately show ?case by (simp add: comp_def add.left_commute del: upt_Suc)
qed simp

lemma selected_slots:
  assumes ok: "selection_ok c xs s" and xs: "sorted xs" "distinct xs" "\<forall>i \<in> set xs. i < 64 * length (ct_pendingWords c)"
  shows "map fst (fst (drainWords cb 0 (cn_drainWords s) w)) = xs"
proof -
  let ?c = "cn_control s\<lparr> ct_pendingWords := cn_drainWords s \<rparr>"
  have len: "length (cn_drainWords s) = length (ct_pendingWords c)" using ok by (simp add: selection_ok_def)
  have "map fst (fst (drainWords cb 0 (cn_drainWords s) w)) = ct_pending ?c"
    by (simp add: drainWords_slots ct_pending_words word_slots_def[abs_def] comp_def)
  moreover have "set xs = set (ct_pending ?c)"
    using ok xs(3) len by (auto simp: ct_pending_iff ct_isPending_def selection_ok_def)
  ultimately show ?thesis using ct_pending_eqI[OF xs(1,2)] by simp
qed

lemma ew_control_le:
  assumes "el_ok (ew_loop w) \<Longrightarrow> ct_inv (f (el_control (ew_loop w))) \<and> ct_phase (f (el_control (ew_loop w))) = ct_phase (el_control (ew_loop w))"
  shows "ew_le w (ew_upd (\<lambda>l. l\<lparr> el_control := f (el_control l) \<rparr>) w)"
  by (rule ew_leI) (use assms in \<open>auto simp: ew_upd_def intro!: el_control_le[THEN conjunct1] el_control_le[THEN conjunct2]\<close>)

lemma runControlSlot_le:
  assumes pub: "event_public cb"
  shows "ew_le w (snd (runControlSlot cb i w))"
proof -
  define w1 where "w1 = ec_others cb w"
  have w1: "ew_le w w1" unfolding w1_def by (rule callback_le(6)[OF pub])
  obtain r c where b: "ControlState_beginCallback i (el_control (ew_loop w1)) = (r, c)" by (metis surj_pair)
  show ?thesis
  proof (cases r)
    case None
    then show ?thesis using b w1 by (simp add: runControlSlot_def Let_def w1_def[symmetric])
  next
    case (Some callback)
    have c: "c = el_control (ew_loop w1)\<lparr> ct_activeCallbackSlot := i \<rparr>"
      using b Some by (auto simp: ControlState_beginCallback_def Let_def split: if_splits option.splits)
    have "ew_le w1 (ew_upd (\<lambda>l. l\<lparr> el_control := (\<lambda>_. c) (el_control l) \<rparr>) w1)"
      by (rule ew_control_le) (use ct_touch in \<open>auto simp: c el_ok_def\<close>)
    then have "ew_le w (ew_upd (\<lambda>l. l\<lparr> el_control := c \<rparr>) w1)" using ew_le_trans[OF w1] by simp
    moreover obtain t w2 where call: "ec_call cb callback (ew_upd (\<lambda>l. l\<lparr> el_control := c \<rparr>) w1) = (t, w2)" by (metis surj_pair)
    ultimately have w2: "ew_le w w2"
      using ew_le_trans callback_le(1)[OF pub, of "ew_upd (\<lambda>l. l\<lparr> el_control := c \<rparr>) w1" callback] by (metis snd_conv)
    define w3 where "w3 = ew_upd (\<lambda>l. l\<lparr> el_control := ControlState_endCallback i (el_control l) \<rparr>) (ec_others cb w2)"
    have "ew_le (ec_others cb w2) w3" unfolding w3_def
      by (rule ew_control_le) (use ct_touch in \<open>auto simp: ControlState_endCallback_def el_ok_def\<close>)
    then have w3: "ew_le w w3" using ew_le_trans[OF ew_le_trans[OF w2 callback_le(6)[OF pub]]] by simp
    show ?thesis using b Some call w3 ew_le_trans[OF w3 exception_le[OF pub]]
      by (simp add: runControlSlot_def Let_def w1_def[symmetric] w3_def[symmetric])
  qed
qed

lemma drainWord_le:
  "event_public cb \<Longrightarrow> ew_le w (snd (drainWord cb i word w))"
proof (induction cb i word w rule: drainWord.induct)
  case (1 cb i word w)
  obtain e w1 where e: "runControlSlot cb (i * 64 + countr_zero word) w = (e, w1)" by (metis surj_pair)
  have "ew_le w w1" using runControlSlot_le[OF 1(2), of w] e by (metis snd_conv)
  then show ?case using 1(1)[OF _ e[symmetric] 1(2)] ew_le_trans
    by (subst drainWord.simps) (auto simp: e split: prod.split)
qed

lemma drainWords_le:
  assumes pub: "event_public cb"
  shows "ew_le w (snd (drainWords cb i ws w))"
proof (induction ws arbitrary: i w)
  case (Cons x ws)
  obtain es w1 where e: "drainWord cb i x w = (es, w1)" by (metis surj_pair)
  have "ew_le w w1" using drainWord_le[OF pub, of w i x] e by simp
  then show ?case using Cons.IH[of w1 "i + 1"] ew_le_trans by (auto simp: e split: prod.split)
qed simp

lemma controlSources_drain:
  assumes pub: "event_public cb" and ok: "el_ok (ew_loop w)" and e: "EventLoop_doControlSources cb w = (events, w')"
  shows "map fst events = take (eo_maxControlCallbacksPerIteration (el_options (ew_loop w))) (ct_pending (el_control (ew_loop (ec_others cb w))))"
    "ew_le w w'"
proof -
  define w0 where "w0 = ec_others cb w"
  define budget where "budget = eo_maxControlCallbacksPerIteration (el_options (ew_loop w0))"
  let ?c = "el_control (ew_loop w0)"
  have w0: "ew_le w w0" unfolding w0_def by (rule callback_le(6)[OF pub])
  then have ok0: "el_ok (ew_loop w0)" and b: "budget = eo_maxControlCallbacksPerIteration (el_options (ew_loop w))"
    using ew_leD[OF w0 ok] by (simp_all add: budget_def el_le_def)
  then have inv: "ct_inv ?c" by (simp add: el_ok_def)
  obtain s where s: "ControlState_select budget ?c = (ct_pendingPeak ?c, s)" "selection_ok ?c (take budget (ct_pending ?c)) s"
    using ct_select[OF inv] by blast
  define w1 where "w1 = ew_upd (\<lambda>l. l\<lparr> el_control := cn_control s \<rparr>) w0"
  have "ew_le w0 (ew_upd (\<lambda>l. l\<lparr> el_control := (\<lambda>_. cn_control s) (el_control l) \<rparr>) w0)"
    by (rule ew_control_le) (use s(2) in \<open>simp add: selection_ok_def\<close>)
  then have w1: "ew_le w w1" using ew_le_trans[OF w0] by (simp add: w1_def)
  let ?xs = "take budget (ct_pending ?c)"
  have xs: "sorted ?xs" "distinct ?xs" "\<forall>i \<in> set ?xs. i < 64 * length (ct_pendingWords ?c)"
    using ct_pending_sorted[of ?c] by (auto simp: sorted_wrt_take ct_pending_iff dest!: in_set_takeD)
  note run = e[unfolded EventLoop_doControlSources_def Let_def, folded w0_def, folded budget_def, unfolded s(1) prod.case, folded w1_def]
  show "map fst events = take (eo_maxControlCallbacksPerIteration (el_options (ew_loop w))) (ct_pending (el_control (ew_loop (ec_others cb w))))"
    "ew_le w w'"
  proof (atomize (full), cases "cn_selectedCount s = 0")
    case True
    moreover have "cn_selectedCount s = length ?xs" using s(2) by (simp add: selection_ok_def)
    ultimately have "?xs = []" by (metis length_0_conv)
    then show "map fst events = take (eo_maxControlCallbacksPerIteration (el_options (ew_loop w))) (ct_pending (el_control (ew_loop (ec_others cb w)))) \<and> ew_le w w'"
      using run True w1 b by (simp add: w0_def[symmetric])
  next
    case False
    obtain es w2 where d: "drainWords cb 0 (cn_drainWords s) w1 = (es, w2)" by (metis surj_pair)
    have es: "map fst es = ?xs" using selected_slots[OF s(2) xs, of cb w1] d by simp
    have w2: "ew_le w w2" using ew_le_trans[OF w1] drainWords_le[OF pub, of w1 0 "cn_drainWords s"] d by simp
    obtain now w4 where n: "ew_now cb (ec_others cb w2) = (now, w4)" by (metis surj_pair)
    have "ew_le w w4" using ew_le_trans[OF ew_le_trans[OF w2 callback_le(6)[OF pub]] ew_now_le(1)[OF n]] .
    then have m: "ew_le w (EventLoop_emitEventLoopMetric cb x w4)" for x using ew_le_trans metric_le[OF pub] by blast
    have "events = es \<and> ew_le w w'"
      using run False m ew_le_trans[OF m ew_wakeup_le] by (auto simp: d n split: if_splits)
    then show "map fst events = take (eo_maxControlCallbacksPerIteration (el_options (ew_loop w))) (ct_pending (el_control (ew_loop (ec_others cb w)))) \<and> ew_le w w'"
      using es b by (simp add: w0_def[symmetric])
  qed
qed

section \<open>The lifecycle nodes\<close>

text \<open>The rounds of the lifecycle drain also take nodes off the dirty queue.\<close>

definition ew_safe :: "'e EventWorld \<Rightarrow> 'e EventWorld \<Rightarrow> bool" where
  "ew_safe w w' \<longleftrightarrow> (el_ok (ew_loop w) \<longrightarrow> el_ok (ew_loop w') \<and> el_options (ew_loop w') = el_options (ew_loop w) \<and>
     phase_le (ew_loop w) (ew_loop w') \<and> functors_le (ew_loop w) (ew_loop w'))"

lemma keep_safe: "ew_keep w w' \<Longrightarrow> ew_safe w w'"
  by (simp add: ew_keep_def ew_safe_def)

lemma le_safe: "ew_le w w' \<Longrightarrow> ew_safe w w'"
  by (rule keep_safe) (rule le_keep)

lemma ew_safe_trans [trans]: "ew_safe w v \<Longrightarrow> ew_safe v u \<Longrightarrow> ew_safe w u"
  unfolding ew_safe_def by (auto intro: functors_le_trans simp: phase_le_def)

lemma ew_safeD: "ew_safe w w' \<Longrightarrow> el_ok (ew_loop w) \<Longrightarrow> el_ok (ew_loop w')"
  by (simp add: ew_safe_def)

lemma ew_lifecycle_safe:
  assumes "\<exists>ds qs. ls_inv s ds qs" "ls_phase s = ls_phase (el_lifecycle (ew_loop w))"
  shows "ew_safe w (ew_upd (\<lambda>l. l\<lparr> el_lifecycle := s \<rparr>) w)"
  using assms by (simp add: ew_safe_def ew_upd_def el_ok_def phases_ok_def functors_ok_def phase_le_def functors_le_def)

text \<open>The dirty queue of a loop that runs no node.\<close>

definition dirty_queue :: "'e EventWorld \<Rightarrow> nat list \<Rightarrow> bool" where
  "dirty_queue w ds \<longleftrightarrow> el_ok (ew_loop w) \<and> ls_activeNode (el_lifecycle (ew_loop w)) = None \<and> (\<exists>qs. ls_inv (el_lifecycle (ew_loop w)) ds qs)"

lemma dirty_queue_le:
  assumes "dirty_queue w ds" "ew_le w w'"
  obtains ds' where "dirty_queue w' (ds @ ds')"
proof -
  have "el_ok (ew_loop w')" "ls_le (el_lifecycle (ew_loop w)) (el_lifecycle (ew_loop w'))"
    using ew_leD[OF assms(2)] assms(1) by (simp_all add: dirty_queue_def el_le_def)
  then show thesis using assms(1) that unfolding dirty_queue_def ls_le_def by metis
qed

lemma lifecycle_round:
  assumes pub: "event_public cb" and d: "dirty_queue w (a # ds)"
  obtains callback s w1 w3 ds' where
    "LifecycleState_popDirty (el_lifecycle (ew_loop (ec_others cb w))) = (Inr (Some (a, callback)), s)"
    "w1 = ec_call cb callback (ew_upd (\<lambda>l. l\<lparr> el_lifecycle := s \<rparr>) (ec_others cb w))"
    "w3 = (let w2 = ew_upd (\<lambda>l. l\<lparr> el_lifecycle := LifecycleState_finish a (el_lifecycle l) \<rparr>) (ec_others cb (snd w1))
           in if fst w1 then EventLoop_handleCallbackException cb SourceLifecycle w2 else w2)"
    "dirty_queue w3 (ds @ ds')" "ew_safe w w3"
proof -
  define w0 where "w0 = ec_others cb w"
  have le0: "ew_le w w0" unfolding w0_def by (rule callback_le(6)[OF pub])
  obtain ds0 where "dirty_queue w0 ((a # ds) @ ds0)" by (rule dirty_queue_le[OF d le0])
  then obtain qs where ok0: "el_ok (ew_loop w0)" and n0: "ls_activeNode (el_lifecycle (ew_loop w0)) = None"
    and i0: "ls_inv (el_lifecycle (ew_loop w0)) (a # ds @ ds0) qs" by (auto simp: dirty_queue_def)
  let ?s0 = "el_lifecycle (ew_loop w0)"
  obtain s where pop: "LifecycleState_popDirty ?s0 = (Inr (Some (a, fld ln_callback ?s0 a)), s)"
    and s: "ls_inv s (ds @ ds0) qs" "ls_activeNode s = Some a" "ls_phase s = ls_phase ?s0" "ls_size s = ls_size ?s0"
    by (rule ls_popDirty[OF i0 n0]) blast
  have a: "a < ls_size s" using i0 s(4) by (simp add: ls_inv_def dirty_ok_def)
  define v where "v = ew_upd (\<lambda>l. l\<lparr> el_lifecycle := s \<rparr>) w0"
  have v: "ew_safe w0 v" unfolding v_def by (rule ew_lifecycle_safe) (use s in blast)+
  have vs: "el_lifecycle (ew_loop v) = s" by (simp add: v_def ew_upd_def)
  obtain t w1 where c: "ec_call cb (fld ln_callback ?s0 a) v = (t, w1)" by (metis surj_pair)
  define w2 where "w2 = ec_others cb w1"
  have le2: "ew_le v w2"
    unfolding w2_def using ew_le_trans[OF callback_le(1)[OF pub, of v "fld ln_callback ?s0 a"] callback_le(6)[OF pub]] c by simp
  let ?s2 = "el_lifecycle (ew_loop w2)"
  have okv: "el_ok (ew_loop v)" using ew_safeD[OF v ok0] .
  then have ls2: "ls_le s ?s2" and ok2: "el_ok (ew_loop w2)" using ew_leD[OF le2 okv] vs by (simp_all add: el_le_def)
  obtain ds2 qs2 where i2: "ls_inv ?s2 ((ds @ ds0) @ ds2) qs2" using ls2 s(1) unfolding ls_le_def by blast
  have n2: "ls_activeNode ?s2 = Some a" "a < ls_size ?s2" using ls2 s(2) a by (auto simp: ls_le_def)
  note f = ls_finish[OF i2 n2]
  define w3 where "w3 = ew_upd (\<lambda>l. l\<lparr> el_lifecycle := LifecycleState_finish a (el_lifecycle l) \<rparr>) w2"
  have e3: "w3 = ew_upd (\<lambda>l. l\<lparr> el_lifecycle := LifecycleState_finish a ?s2 \<rparr>) w2" by (simp add: w3_def ew_upd_def)
  have safe3: "ew_safe w2 w3" unfolding e3 by (rule ew_lifecycle_safe) (use f in blast)+
  have d3: "dirty_queue w3 ((ds @ ds0) @ ds2)"
    using ew_safeD[OF safe3 ok2] f(1,2) unfolding dirty_queue_def by (auto simp: w3_def ew_upd_def)
  define w4 where "w4 = (if t then EventLoop_handleCallbackException cb SourceLifecycle w3 else w3)"
  have le4: "ew_le w3 w4" unfolding w4_def using exception_le[OF pub] by simp
  obtain ds3 where d4: "dirty_queue w4 (((ds @ ds0) @ ds2) @ ds3)" by (rule dirty_queue_le[OF d3 le4])
  have safe: "ew_safe w w4"
    using ew_safe_trans[OF le_safe[OF le0] ew_safe_trans[OF v ew_safe_trans[OF le_safe[OF le2] ew_safe_trans[OF safe3 le_safe[OF le4]]]]] .
  show thesis
  proof (rule that)
    show "LifecycleState_popDirty (el_lifecycle (ew_loop (ec_others cb w))) = (Inr (Some (a, fld ln_callback ?s0 a)), s)"
      using pop by (simp add: w0_def)
    show "(t, w1) = ec_call cb (fld ln_callback ?s0 a) (ew_upd (\<lambda>l. l\<lparr> el_lifecycle := s \<rparr>) (ec_others cb w))"
      using c by (simp add: v_def w0_def)
    show "w4 = (let w2 = ew_upd (\<lambda>l. l\<lparr> el_lifecycle := LifecycleState_finish a (el_lifecycle l) \<rparr>) (ec_others cb (snd (t, w1)))
        in if fst (t, w1) then EventLoop_handleCallbackException cb SourceLifecycle w2 else w2)"
      by (simp add: w4_def w3_def w2_def)
    show "dirty_queue w4 (ds @ (ds0 @ ds2 @ ds3))" using d4 by simp
    show "ew_safe w w4" using safe .
  qed
qed

lemma lifecycleRounds_drain:
  assumes pub: "event_public cb"
  shows "dirty_queue w ds \<Longrightarrow> n \<le> length ds \<Longrightarrow>
    \<exists>w' later. lifecycleRounds cb n w = (Inr (take n ds), w') \<and> dirty_queue w' (drop n ds @ later) \<and> ew_safe w w'"
proof (induction n arbitrary: w ds)
  case 0
  have "ew_safe w w" by (rule le_safe) simp
  then show ?case using 0 by (intro exI[of _ w] exI[of _ "[]"]) simp
next
  case (Suc n)
  obtain a ds1 where ds: "ds = a # ds1" using Suc.prems(2) by (cases ds) auto
  obtain callback s w1 w3 ds' where r: "LifecycleState_popDirty (el_lifecycle (ew_loop (ec_others cb w))) = (Inr (Some (a, callback)), s)"
    "w1 = ec_call cb callback (ew_upd (\<lambda>l. l\<lparr> el_lifecycle := s \<rparr>) (ec_others cb w))"
    "w3 = (let w2 = ew_upd (\<lambda>l. l\<lparr> el_lifecycle := LifecycleState_finish a (el_lifecycle l) \<rparr>) (ec_others cb (snd w1))
           in if fst w1 then EventLoop_handleCallbackException cb SourceLifecycle w2 else w2)"
    "dirty_queue w3 (ds1 @ ds')" "ew_safe w w3"
    by (rule lifecycle_round[OF pub Suc.prems(1)[unfolded ds]]) blast
  have n: "n \<le> length (ds1 @ ds')" "n \<le> length ds1" using Suc.prems(2) ds by simp_all
  obtain w' later where i: "lifecycleRounds cb n w3 = (Inr (take n (ds1 @ ds')), w')"
    "dirty_queue w' (drop n (ds1 @ ds') @ later)" "ew_safe w3 w'" using Suc.IH[OF r(4) n(1)] by blast
  have "lifecycleRounds cb (Suc n) w = (Inr (a # take n ds1), w')"
  proof -
    obtain t u where tu: "w1 = (t, u)" by (metis surj_pair)
    note c = r(2)[unfolded tu, symmetric] and f = r(3)[unfolded tu fst_conv snd_conv Let_def, symmetric]
    show ?thesis unfolding lifecycleRounds.simps Let_def r(1) c f prod.case sum.case option.case i(1) using n(2) by simp
  qed
  then show ?case using i(2) ew_safe_trans[OF r(5) i(3)] n(2) ds
    by (intro exI[of _ w'] exI[of _ "ds' @ later"]) simp
qed

lemma lifecycleNodes_drain:
  assumes pub: "event_public cb" and d: "dirty_queue w ds"
  obtains arrived later w' where
    "EventLoop_doLifecycleNodes cb w = (Inr (take (eo_maxLifecycleCallbacksPerIteration (el_options (ew_loop w))) (ds @ arrived)), w')"
    "dirty_queue w' (drop (eo_maxLifecycleCallbacksPerIteration (el_options (ew_loop w))) (ds @ arrived) @ later)" "ew_safe w w'"
proof -
  define w0 where "w0 = ec_others cb w"
  define m where "m = eo_maxLifecycleCallbacksPerIteration (el_options (ew_loop w0))"
  have le0: "ew_le w w0" unfolding w0_def by (rule callback_le(6)[OF pub])
  obtain arrived where d0: "dirty_queue w0 (ds @ arrived)" by (rule dirty_queue_le[OF d le0])
  have m: "m = eo_maxLifecycleCallbacksPerIteration (el_options (ew_loop w))"
    using ew_leD[OF le0] d by (simp add: dirty_queue_def m_def el_le_def)
  have c: "ls_pendingCount (el_lifecycle (ew_loop w0)) = length (ds @ arrived)" using d0 by (auto simp: dirty_queue_def ls_inv_def dirty_ok_def)
  have k: "take (min m (length (ds @ arrived))) (ds @ arrived) = take m (ds @ arrived)"
    "drop (min m (length (ds @ arrived))) (ds @ arrived) = drop m (ds @ arrived)" by (simp_all add: min_def)
  obtain w1 later where r: "lifecycleRounds cb (min m (length (ds @ arrived))) w0 = (Inr (take m (ds @ arrived)), w1)"
    "dirty_queue w1 (drop m (ds @ arrived) @ later)" "ew_safe w0 w1"
    using lifecycleRounds_drain[OF pub d0, of "min m (length (ds @ arrived))"] unfolding k by auto
  obtain now w3 where n: "ew_now cb (ec_others cb w1) = (now, w3)" by (metis surj_pair)
  have o: "ew_le w1 (ec_others cb w1)" by (rule callback_le(6)[OF pub])
  have le3: "ew_le w1 (EventLoop_emitEventLoopMetric cb x w3)" for x
    by (rule ew_le_trans[OF ew_le_trans[OF o ew_now_le(1)[OF n]] metric_le[OF pub]])
  define w' where "w' = snd (EventLoop_doLifecycleNodes cb w)"
  have e: "EventLoop_doLifecycleNodes cb w = (Inr (take m (ds @ arrived)), w')" and le': "ew_le w1 w'"
    unfolding w'_def EventLoop_doLifecycleNodes_def Let_def w0_def[symmetric] m_def[symmetric] c r(1)
    using o le3 ew_le_trans[OF o ew_wakeup_le] ew_le_trans[OF le3 ew_wakeup_le] by (simp_all add: n)
  obtain later' where "dirty_queue w' ((drop m (ds @ arrived) @ later) @ later')" by (rule dirty_queue_le[OF r(2) le'])
  moreover have "ew_safe w w'" using ew_safe_trans[OF le_safe[OF le0] ew_safe_trans[OF r(3) le_safe[OF le']]] .
  ultimately show thesis using that e unfolding m by (metis append_assoc)
qed

section \<open>The timers\<close>

lemma tq_cancel_write:
  assumes inv: "tq_inv q"
  shows "tq_inv (tq_write a (\<lambda>t. t\<lparr> tm_canceled := True \<rparr>) q)" "tq_le q (tq_write a (\<lambda>t. t\<lparr> tm_canceled := True \<rparr>) q)"
proof -
  show "tq_inv (tq_write a (\<lambda>t. t\<lparr> tm_canceled := True \<rparr>) q)"
    by (rule tq_inv_write[OF inv]) (use tq_index(3)[OF inv] in simp_all)
  have "tq_timer (tq_write a (\<lambda>t. t\<lparr> tm_canceled := True \<rparr>) q) b =
      (if b = a then (tq_timer q b)\<lparr> tm_canceled := True \<rparr> else tq_timer q b)" if "b < length (tq_heap q)" for b
    using that by (simp add: tq_write_def nth_list_update)
  then show "tq_le q (tq_write a (\<lambda>t. t\<lparr> tm_canceled := True \<rparr>) q)"
    by (simp add: tq_le_def timer_le_def tq_key_def)
qed

lemma ew_timers_le:
  assumes "el_ok (ew_loop w) \<Longrightarrow> tq_inv (f (el_timers (ew_loop w))) \<and> tq_le (el_timers (ew_loop w)) (f (el_timers (ew_loop w)))"
  shows "ew_le w (ew_upd (\<lambda>l. l\<lparr> el_timers := f (el_timers l) \<rparr>) w)"
  by (rule ew_leI) (use assms el_timers_le in \<open>auto simp: ew_upd_def\<close>)

lemma expired_step:
  fixes w :: "'e EventWorld"
  assumes pub: "event_public cb"
  obtains t w2 where "runExpired cb (a # expired) w =
      (if tm_canceled (tq_timer (el_timers (ew_loop w)) a) then runExpired cb expired w
       else case runExpired cb expired w2 of ((fired, exceptions), w3) \<Rightarrow> ((a # fired, if t then exceptions + 1 else exceptions), w3))"
    "ew_le w w2"
proof -
  let ?n = "tm_callback (tq_timer (el_timers (ew_loop w)) a)"
  obtain t w1 where c: "ec_call cb ?n w = (t, w1)" by (metis surj_pair)
  have w1: "ew_le w w1" using callback_le(1)[OF pub, of w ?n] c by simp
  define w2 where "w2 = (if t then ew_upd (\<lambda>l. l\<lparr> el_timers := tq_write a (\<lambda>t. t\<lparr> tm_canceled := True \<rparr>) (el_timers l) \<rparr>) w1 else w1)"
  have "ew_le w1 (ew_upd (\<lambda>l. l\<lparr> el_timers := tq_write a (\<lambda>t. t\<lparr> tm_canceled := True \<rparr>) (el_timers l) \<rparr>) w1)"
    by (rule ew_timers_le) (simp add: el_ok_def tq_cancel_write)
  then have w2: "ew_le w w2" using w1 ew_le_trans[OF w1] by (simp add: w2_def)
  show thesis by (rule that[OF _ w2, of t]) (simp add: c Let_def w2_def)
qed

lemma runExpired_le:
  assumes pub: "event_public cb"
  shows "ew_le w (snd (runExpired cb expired w)) \<and> subseq (fst (fst (runExpired cb expired w))) expired"
proof (induction expired arbitrary: w)
  case (Cons a expired)
  obtain t w2 where s: "runExpired cb (a # expired) w =
      (if tm_canceled (tq_timer (el_timers (ew_loop w)) a) then runExpired cb expired w
       else case runExpired cb expired w2 of ((fired, exceptions), w3) \<Rightarrow> ((a # fired, if t then exceptions + 1 else exceptions), w3))"
    "ew_le w w2" by (rule expired_step[OF pub])
  obtain fired n w3 where r: "runExpired cb expired w2 = ((fired, n), w3)" by (metis surj_pair)
  have "ew_le w w3" using ew_le_trans[OF s(2)] Cons.IH[of w2] r by simp
  then show ?case using Cons.IH[of w] Cons.IH[of w2] r unfolding s(1) by (auto intro: list_emb_Cons)
qed simp

text \<open>A timer that is cancelled when its turn comes does not fire.\<close>

lemma runExpired_cancelled:
  assumes pub: "event_public cb"
  shows "el_ok (ew_loop w) \<Longrightarrow> a < length (tq_heap (el_timers (ew_loop w))) \<Longrightarrow> tm_canceled (tq_timer (el_timers (ew_loop w)) a) \<Longrightarrow>
    a \<notin> set (fst (fst (runExpired cb expired w)))"
proof (induction expired arbitrary: w)
  case (Cons b expired)
  obtain t w2 where s: "runExpired cb (b # expired) w =
      (if tm_canceled (tq_timer (el_timers (ew_loop w)) b) then runExpired cb expired w
       else case runExpired cb expired w2 of ((fired, exceptions), w3) \<Rightarrow> ((b # fired, if t then exceptions + 1 else exceptions), w3))"
    "ew_le w w2" by (rule expired_step[OF pub])
  have le: "el_ok (ew_loop w2)" "tq_le (el_timers (ew_loop w)) (el_timers (ew_loop w2))"
    using ew_leD[OF s(2) Cons.prems(1)] by (simp_all add: el_le_def)
  have a2: "a < length (tq_heap (el_timers (ew_loop w2)))" "tm_canceled (tq_timer (el_timers (ew_loop w2)) a)"
    using le(2) Cons.prems(2,3) unfolding tq_le_def timer_le_def by (meson less_le_trans)+
  obtain fired n w3 where r: "runExpired cb expired w2 = ((fired, n), w3)" by (metis surj_pair)
  show ?case using Cons.IH[OF Cons.prems] Cons.IH[OF le(1) a2] r Cons.prems(3) unfolding s(1) by auto
qed simp

lemma getExpired_le:
  assumes inv: "tq_inv q" and e: "TimerQueue_getExpired now n q = (expired, q')"
  shows "tq_le q q'"
proof -
  note g = tq_getExpired[OF inv e]
  have "timer_le q q' a" for a using g(7) g(8)[of a] g(9)[of a] g(10)[of a] by (simp add: timer_le_def)
  then show ?thesis using g(6) by (simp add: tq_le_def)
qed

definition due_timers :: "timestamp \<Rightarrow> nat \<Rightarrow> TimerQueue \<Rightarrow> nat list" where
  "due_timers now n q = map snd (take n (filter (\<lambda>p. fst (fst p) \<le> now) (tq_timers q)))"

lemma due_timers_queued: "a \<in> set (due_timers now n q) \<Longrightarrow> tq_queued q a"
  unfolding due_timers_def tq_queued_def by (auto dest!: in_set_takeD)

lemma not_due:
  assumes inv: "tq_inv q" and ts: "tq_timers q = (k, first) # rest" and late: "tm_expiration (tq_timer q first) > now"
  shows "due_timers now n q = []"
proof -
  have "\<not> fst (fst p) \<le> now" if "p \<in> set (tq_timers q)" for p
  proof -
    obtain k' b where p: "p = (k', b)" by (cases p)
    have b: "(k', b) \<in> set (tq_timers q)" using that p by simp
    have "fst k' = tm_expiration (tq_timer q b)" using tq_entry(2)[OF inv b] by (simp add: tq_key_def)
    then show ?thesis using tq_first(2,3)[OF inv ts] tq_queuedI[OF b] late by (simp add: p) force
  qed
  then show ?thesis by (simp add: due_timers_def filter_empty_conv)
qed

lemma handleExpired_drain:
  assumes pub: "event_public cb" and ok: "el_ok (ew_loop w)" and e: "TimerQueue_handleExpired cb now n w = (r, w')"
  defines "q \<equiv> el_timers (ew_loop w)"
  shows "er_drained r = length (due_timers now n q)" "subseq (er_ran r) (due_timers now n q)" "ew_keep w w'"
    "a \<in> set (due_timers now n q) \<Longrightarrow> tm_interval (tq_timer q a) = 0 \<Longrightarrow> \<not> tq_queued (el_timers (ew_loop w')) a"
proof -
  have inv: "tq_inv q" using ok by (simp add: el_ok_def q_def)
  have "er_drained r = length (due_timers now n q) \<and> subseq (er_ran r) (due_timers now n q) \<and> ew_keep w w' \<and>
    (\<forall>a \<in> set (due_timers now n q). tm_interval (tq_timer q a) = 0 \<longrightarrow> \<not> tq_queued (el_timers (ew_loop w')) a)"
  proof (cases "\<exists>k first rest. tq_timers q = (k, first) # rest \<and> tm_expiration (tq_timer q first) \<le> now")
    case False
    then have "r = \<lparr> er_exceptions = 0, er_drained = 0, er_remaining = 0, er_oldestReadyLatency = 0, er_ran = [] \<rparr> \<and> w' = w"
      using e by (auto simp: TimerQueue_handleExpired_def Let_def q_def[symmetric] split: list.splits prod.splits if_splits)
    moreover have "due_timers now n q = []"
    proof (cases "tq_timers q")
      case (Cons p rest)
      obtain k first where p: "p = (k, first)" by (cases p)
      show ?thesis by (rule not_due[OF inv Cons[unfolded p]]) (use False Cons p in auto)
    qed (simp add: due_timers_def)
    ultimately show ?thesis by simp
  next
    case True
    then obtain k first rest where f: "tq_timers q = (k, first) # rest" "\<not> tm_expiration (tq_timer q first) > now" by auto
    obtain expired q1 where g: "TimerQueue_getExpired now n q = (expired, q1)" by (metis surj_pair)
    note x = tq_getExpired[OF inv g]
    have due: "expired = due_timers now n q" using x(1) by (simp add: due_timers_def)
    define v where "v = ew_upd (\<lambda>l. l\<lparr> el_timers := q1 \<rparr>) w"
    have "ew_le w (ew_upd (\<lambda>l. l\<lparr> el_timers := (\<lambda>_. q1) (el_timers l) \<rparr>) w)"
      by (rule ew_timers_le) (use x(2) getExpired_le[OF inv g] in \<open>simp add: q_def\<close>)
    then have v: "ew_le w v" by (simp add: v_def)
    obtain fired m w1 where re: "runExpired cb expired v = ((fired, m), w1)" by (metis surj_pair)
    have w1: "ew_le v w1" "subseq fired expired" using runExpired_le[OF pub, of v expired] re by simp_all
    obtain now1 w2 where n1: "ew_now cb w1 = (now1, w2)" by (metis surj_pair)
    define w3 where "w3 = ew_upd (\<lambda>l. l\<lparr> el_timers := TimerQueue_reset expired now1 (el_timers l) \<rparr>) w2"
    obtain now2 w4 where n2: "ew_now cb w3 = (now2, w4)" by (metis surj_pair)
    have r: "er_drained r = length expired" "er_ran r = fired" "w' = w4"
      using e f by (auto simp: TimerQueue_handleExpired_def q_def[symmetric] g v_def[symmetric] re n1 w3_def[symmetric] n2)
    have le2: "ew_le v w2" using ew_le_trans[OF w1(1) ew_now_le(1)[OF n1]] .
    let ?q2 = "el_timers (ew_loop w2)"
    have okv: "el_ok (ew_loop v)" using ew_leD[OF v ok] by simp
    have tv: "el_timers (ew_loop v) = q1" by (simp add: v_def ew_upd_def)
    have ok2: "el_ok (ew_loop w2)" "tq_le q1 ?q2" using ew_leD[OF le2 okv] tv by (simp_all add: el_le_def)
    have out: "\<forall>a \<in> set expired. a < length (tq_heap ?q2) \<and> \<not> tq_queued ?q2 a"
    proof
      fix a assume "a \<in> set expired"
      then have "a < length (tq_heap q1)" "\<not> tq_queued q1 a" using x(4)[of a] x(6) by simp_all
      then show "a < length (tq_heap ?q2) \<and> \<not> tq_queued ?q2 a" using ok2(2) by (auto simp: tq_le_def timer_le_def)
    qed
    have inv2: "tq_inv ?q2" using ok2(1) by (simp add: el_ok_def)
    note rs = tq_reset[OF inv2 x(3) out, of now1]
    have "ew_keep w2 w3" unfolding w3_def by (rule timers_keep) (use rs in blast)
    then have keep: "ew_keep w w4"
      using ew_keep_trans[OF le_keep[OF v] ew_keep_trans[OF le_keep[OF le2]]] ew_keep_trans le_keep[OF ew_now_le(1)[OF n2]] by blast
    have t4: "el_timers (ew_loop w4) = TimerQueue_reset expired now1 ?q2" using ew_now_le(2)[OF n2] by (simp add: w3_def ew_upd_def)
    have "\<not> tq_queued (el_timers (ew_loop w4)) a" if a: "a \<in> set expired" "tm_interval (tq_timer q a) = 0" for a
    proof -
      have "a < length (tq_heap q)" "a < length (tq_heap q1)" using x(4)[OF a(1)] x(6) by simp_all
      then have "tm_interval (tq_timer ?q2 a) = tm_interval (tq_timer q a)"
        using ok2(2) getExpired_le[OF inv g] by (simp add: tq_le_def timer_le_def)
      then have "\<not> rearmed ?q2 a" using a(2) by (simp add: rearmed_def Timer_repeat_def)
      then show ?thesis using rs out a(1) unfolding t4 by blast
    qed
    then show ?thesis using r w1(2) keep unfolding due by simp
  qed
  then show "er_drained r = length (due_timers now n q)" "subseq (er_ran r) (due_timers now n q)" "ew_keep w w'"
    "a \<in> set (due_timers now n q) \<Longrightarrow> tm_interval (tq_timer q a) = 0 \<Longrightarrow> \<not> tq_queued (el_timers (ew_loop w')) a" by blast+
qed

lemma handleExceptions_le: "event_public cb \<Longrightarrow> ew_le w (handleExceptions cb source n w)"
  by (induction cb source n w rule: handleExceptions.induct) (auto intro: ew_le_trans exception_le)

lemma doExpiredTimers_keep:
  assumes pub: "event_public cb" and ok: "el_ok (ew_loop w)"
  shows "ew_keep w (snd (EventLoop_doExpiredTimers cb w))"
proof -
  obtain now w1 where n: "ew_now cb w = (now, w1)" by (metis surj_pair)
  obtain r w2 where h: "TimerQueue_handleExpired cb now (eo_maxTimersPerIteration (el_options (ew_loop w1))) w1 = (r, w2)" by (metis surj_pair)
  have le1: "ew_le w w1" using ew_now_le(1)[OF n] .
  have "ew_keep w1 w2" using handleExpired_drain(3)[OF pub _ h] ew_leD[OF le1 ok] by blast
  then have "ew_keep w w2" using ew_keep_trans[OF le_keep[OF le1]] by blast
  then have k: "ew_keep w (handleExceptions cb SourceTimer (er_exceptions r) w2)"
    using ew_keep_trans le_keep[OF handleExceptions_le[OF pub]] by blast
  then show ?thesis using ew_keep_trans[OF k le_keep[OF metric_le[OF pub]]] by (simp add: EventLoop_doExpiredTimers_def n h Let_def)
qed

end
