(* ===== verification/Event_Safety.thy ===== *)
theory Event_Safety
  imports Event_Drains
begin

text \<open>
  The dispatch of active channels and the loop itself under arbitrary public callbacks: a dispatch handles a
  subsequence of the batch within its budget, an iteration keeps the invariant and never fails outside the
  dispatch, and the quiescing and final rounds end only when nothing is pending.
\<close>

section \<open>The dispatch of channels\<close>

text \<open>What the dispatch keeps: it moves the cursor of the batch, which a callback may not.\<close>

definition ew_hold :: "'e EventWorld \<Rightarrow> 'e EventWorld \<Rightarrow> bool" where
  "ew_hold w w' \<longleftrightarrow> ew_safe w w' \<and> (el_ok (ew_loop w) \<longrightarrow> ls_le (el_lifecycle (ew_loop w)) (el_lifecycle (ew_loop w')))"

lemma keep_hold: "ew_keep w w' \<Longrightarrow> ew_hold w w'"
  by (simp add: ew_keep_def ew_hold_def ew_safe_def)

lemma le_hold: "ew_le w w' \<Longrightarrow> ew_hold w w'"
  by (rule keep_hold) (rule le_keep)

lemma ew_hold_refl [simp]: "ew_hold w w"
  by (simp add: le_hold)

lemma ew_hold_trans [trans]: "ew_hold w v \<Longrightarrow> ew_hold v u \<Longrightarrow> ew_hold w u"
  unfolding ew_hold_def by (meson ew_safe_trans ew_safeD ls_le_trans)

lemma ew_holdD: "ew_hold w w' \<Longrightarrow> el_ok (ew_loop w) \<Longrightarrow> el_ok (ew_loop w')"
  by (simp add: ew_hold_def ew_safe_def)

text \<open>Fields of the dispatch.\<close>

definition same_state :: "EventLoop \<Rightarrow> EventLoop \<Rightarrow> bool" where
  "same_state l l' \<longleftrightarrow> el_options l' = el_options l \<and> el_phase l' = el_phase l \<and> el_executor l' = el_executor l \<and>
     el_control l' = el_control l \<and> el_lifecycle l' = el_lifecycle l \<and> el_timers l' = el_timers l \<and>
     el_pendingFunctors l' = el_pendingFunctors l \<and> el_quit l' = el_quit l"

lemma state_hold: "same_state (ew_loop w) (ew_loop w') \<Longrightarrow> ew_hold w w'"
  unfolding same_state_def ew_hold_def ew_safe_def el_ok_def phases_ok_def functors_ok_def phase_le_def functors_le_def by simp

lemma stage_run_le: "event_public cb \<Longrightarrow> ew_le w (snd (stage_run cb t stage a w))"
  using callback_le[of cb w] by (simp add: stage_run_def Let_def split: ChannelStage.split option.split)

lemma handleStages_le: "event_public cb \<Longrightarrow> ew_le w (snd (handleStages cb t g a stages w))"
proof (induction stages arbitrary: w)
  case (Cons stage stages)
  obtain threw w1 where s: "stage_run cb t stage a w = (threw, w1)" by (metis surj_pair)
  obtain r b w2 where h: "handleStages cb t g a stages w1 = ((r, b), w2)" by (metis surj_pair)
  have w1: "ew_le w w1" using stage_run_le[OF Cons.prems, of w t stage a] s by simp
  moreover have "ew_le w w2" using ew_le_trans[OF w1] Cons.IH[OF Cons.prems, of w1] h by simp
  ultimately show ?case using Cons.IH[OF Cons.prems, of w] by (simp add: s h)
qed simp

lemma handleEvent_le:
  assumes pub: "event_public cb"
  shows "ew_le w (snd (Channel_handleEvent cb t a w))"
proof -
  define w1 where "w1 = ew_setChannel a (\<lambda>ch. ch\<lparr> ch_eventHandling := True \<rparr>) w"
  obtain r w2 where h: "handleStages cb t (ch_registrationGeneration (ew_channel a w)) a [StageClose, StageError, StageRead, StageWrite] w1 = (r, w2)"
    by (metis surj_pair)
  have "ew_le w1 w2" using handleStages_le[OF pub, of w1 t "ch_registrationGeneration (ew_channel a w)" a "[StageClose, StageError, StageRead, StageWrite]"]
    unfolding h by simp
  then have "ew_le w (ew_setChannel a (\<lambda>ch. ch\<lparr> ch_eventHandling := False \<rparr>) w2)"
    unfolding w1_def by (rule ew_le_trans[OF ew_setChannel_le ew_le_trans[OF _ ew_setChannel_le]])
  then have "ew_le w (snd (Channel_handleEventWithGuard cb t a w))"
    unfolding Channel_handleEventWithGuard_def Let_def w1_def[symmetric] h by simp
  then show ?thesis by (simp add: Channel_handleEvent_def)
qed

lemma noticeLoop_le:
  assumes pub: "event_public cb"
  shows "ew_le w (snd (noticeLoop cb n w)) \<and> fst (noticeLoop cb n w) \<le> n"
proof (induction n arbitrary: w)
  case (Suc n)
  obtain notice e where t: "io_takeNextCompletionNotice (ec_io cb) (ew_env w) = (notice, e)" by (metis surj_pair)
  let ?w1 = "w\<lparr> ew_env := e \<rparr>"
  have env: "ew_le w ?w1" by simp
  have s: "ew_le ?w1 v \<Longrightarrow> ew_le w (snd (noticeLoop cb n v)) \<and> fst (noticeLoop cb n v) \<le> Suc n" for v
    using ew_le_trans[OF env] ew_le_trans Suc.IH[of v] by (meson le_SucI)
  show ?case
  proof (cases notice)
    case (Some x)
    show ?thesis
    proof (cases "cn_consumer x")
      case None
      then show ?thesis using s[of ?w1] by (simp add: t Some Let_def)
    next
      case c: (Some consumer)
      have "ew_le ?w1 v \<and> ew_le ?w1 (EventLoop_handleCallbackException cb SourceChannelEvent v)"
        if "ec_notice cb consumer (el_pollReturnTime (ew_loop ?w1)) b ?w1 = (threw, v)" for b threw v
        using callback_le(3)[OF pub, of ?w1 consumer "el_pollReturnTime (ew_loop ?w1)" b] that ew_le_trans exception_le[OF pub]
        by (metis snd_conv)
      then show ?thesis using s by (simp add: t Some c Let_def split: prod.split)
    qed
  qed (simp add: t)
qed simp

definition pending_channels :: "EventLoop \<Rightarrow> nat list" where
  "pending_channels l = List.map_filter (\<lambda>c. c) (drop (el_activeChannelCursor l) (el_activeChannels l))"

lemma cleared_subseq:
  "length ys = length xs \<Longrightarrow> \<forall>i < length xs. ys ! i = xs ! i \<or> ys ! i = None \<Longrightarrow>
   subseq (List.map_filter (\<lambda>c. c) ys) (List.map_filter (\<lambda>c. c) xs)"
proof (induction ys xs rule: list_induct2)
  case (Cons y ys x xs)
  have "ys ! i = xs ! i \<or> ys ! i = None" if "i < length xs" for i using Cons.prems[rule_format, of "Suc i"] that by simp
  then have "subseq (List.map_filter (\<lambda>c. c) ys) (List.map_filter (\<lambda>c. c) xs)" using Cons.IH by blast
  moreover have "y = x \<or> y = None" using Cons.prems[rule_format, of 0] by simp
  ultimately show ?case by (cases x; cases y) (auto simp: map_filter_simps intro: list_emb_Cons)
qed (simp add: map_filter_simps)

lemma batch_le_pending: "batch_le l l' \<Longrightarrow> subseq (pending_channels l') (pending_channels l)"
  unfolding pending_channels_def batch_le_def by (rule cleared_subseq) auto

lemma channelLoop_hold:
  assumes pub: "event_public cb"
  shows "ew_hold w (snd (channelLoop cb fuel n w)) \<and> (el_ok (ew_loop w) \<longrightarrow>
    subseq (fst (fst (channelLoop cb fuel n w))) (pending_channels (ew_loop w)) \<and>
    length (fst (fst (channelLoop cb fuel n w))) + snd (fst (channelLoop cb fuel n w)) = n)"
proof (induction fuel arbitrary: n w)
  case (Suc fuel)
  let ?l = "ew_loop w" and ?c = "el_activeChannelCursor (ew_loop w)"
  show ?case
  proof (cases "?c < length (el_activeChannels ?l) \<and> 0 < n")
    case go: True
    define w1 where "w1 = ew_upd (\<lambda>l. l\<lparr> el_activeChannelCursor := ?c + 1 \<rparr>) w"
    have h1: "ew_hold w w1" by (rule state_hold) (simp add: w1_def ew_upd_def same_state_def)
    have p1: "pending_channels ?l = (case el_activeChannels ?l ! ?c of None \<Rightarrow> [] | Some a \<Rightarrow> [a]) @ pending_channels (ew_loop w1)"
      using go by (simp add: pending_channels_def w1_def ew_upd_def Cons_nth_drop_Suc[symmetric] map_filter_simps split: option.split)
    show ?thesis
    proof (cases "el_activeChannels ?l ! ?c")
      case None
      have e: "channelLoop cb (Suc fuel) n w = channelLoop cb fuel n w1" using go None by (simp add: Let_def w1_def)
      show ?thesis unfolding e using Suc.IH[where w = w1 and n = n] ew_hold_trans[OF h1] ew_holdD[OF h1] p1 None by auto
    next
      case (Some a)
      define w2 where "w2 = ew_upd (\<lambda>l. l\<lparr> el_currentActiveChannel := Some a \<rparr>) w1"
      obtain r threw w3 where h: "Channel_handleEvent cb (el_pollReturnTime ?l) a w2 = ((r, threw), w3)" by (metis surj_pair)
      define w4 where "w4 = (if threw then EventLoop_handleCallbackException cb SourceChannelEvent w3 else w3)"
      define w5 where "w5 = ew_upd (\<lambda>l. l\<lparr> el_currentActiveChannel := None, el_retiredCurrentChannel := None \<rparr>) w4"
      obtain as n' w6 where rec: "channelLoop cb fuel (n - 1) w5 = ((as, n'), w6)" by (metis surj_pair)
      have e: "channelLoop cb (Suc fuel) n w = ((a # as, n'), w6)"
        unfolding channelLoop.simps Let_def Some option.case w1_def[symmetric] w2_def[symmetric] h prod.case w4_def[symmetric] w5_def[symmetric] rec
        using go by simp
      have le2: "ew_le w1 w2" by (rule ew_le_core) (simp add: w2_def ew_upd_def same_core_def)
      have le3: "ew_le w2 w3" using handleEvent_le[OF pub, of w2 "el_pollReturnTime ?l" a] h by simp
      have le4: "ew_le w3 w4" using exception_le[OF pub] by (simp add: w4_def)
      have le5: "ew_le w4 w5" by (rule ew_le_core) (simp add: w5_def ew_upd_def same_core_def)
      have le: "ew_le w1 w5" using ew_le_trans[OF le2 ew_le_trans[OF le3 ew_le_trans[OF le4 le5]]] .
      have h5: "ew_hold w w5" using ew_hold_trans[OF h1 le_hold[OF le]] .
      have IH: "ew_hold w5 w6" "el_ok (ew_loop w5) \<Longrightarrow> subseq as (pending_channels (ew_loop w5)) \<and> length as + n' = n - 1"
        using Suc.IH[where w = w5 and n = "n - 1"] rec by simp_all
      have "subseq (a # as) (pending_channels ?l) \<and> length (a # as) + n' = n" if ok: "el_ok ?l"
      proof -
        have "batch_le (ew_loop w1) (ew_loop w5)" using ew_leD[OF le ew_holdD[OF h1 ok]] by (simp add: el_le_def)
        then have "subseq as (pending_channels (ew_loop w1))"
          using IH(2)[OF ew_holdD[OF h5 ok]] batch_le_pending subseq_order.trans by blast
        then show ?thesis using IH(2)[OF ew_holdD[OF h5 ok]] p1 Some go by simp
      qed
      then show ?thesis unfolding e using ew_hold_trans[OF h5 IH(1)] by simp
    qed
  next
    case False
    then show ?thesis by (auto simp: Let_def)
  qed
qed simp

lemma clearBatch_hold: "ew_hold w (EventLoop_clearBatch cb w)"
  by (rule state_hold) (simp add: EventLoop_clearBatch_def ew_upd_def ew_io_def same_state_def)

lemma stampBatch_le: "ew_le w (snd (stampBatch xs w)) \<and> el_activeChannels (ew_loop (snd (stampBatch xs w))) = el_activeChannels (ew_loop w)"
proof (induction xs w rule: stampBatch.induct)
  case (3 index a rest w)
  show ?case
  proof (cases "ch_activeBatchEpoch (ew_channel a w) = el_activeBatchEpoch (ew_loop w)")
    case False
    let ?v = "ew_setChannel a (\<lambda>ch. ch\<lparr> ch_activeBatchEpoch := el_activeBatchEpoch (ew_loop w), ch_activeBatchIndex := index \<rparr>) w"
    have "el_activeChannels (ew_loop ?v) = el_activeChannels (ew_loop w)" by (simp add: ew_setChannel_def ew_upd_def)
    then show ?thesis using 3[OF False] False ew_le_trans[OF ew_setChannel_le] by simp blast
  qed simp
qed simp_all

lemma dispatchBatch_hold:
  assumes pub: "event_public cb" and e: "dispatchBatch cb w = (handled, w')"
  shows "ew_hold w w'" "el_ok (ew_loop w) \<Longrightarrow> subseq handled (pending_channels (ew_loop w))"
    "el_ok (ew_loop w) \<Longrightarrow> length handled \<le> eo_maxActiveChannelsPerIteration (el_options (ew_loop w))"
proof -
  let ?b = "eo_maxActiveChannelsPerIteration (el_options (ew_loop w))"
  define w0 where "w0 = ew_upd (\<lambda>l. l\<lparr> el_eventHandling := True \<rparr>) w"
  have h0: "ew_hold w w0" by (rule state_hold) (simp add: w0_def ew_upd_def same_state_def)
  obtain n w1 where n: "noticeLoop cb ?b w0 = (n, w1)" by (metis surj_pair)
  have le1: "ew_le w0 w1" "n \<le> ?b" using noticeLoop_le[OF pub, of w0 ?b] n by simp_all
  let ?fuel = "length (el_activeChannels (ew_loop w1)) - el_activeChannelCursor (ew_loop w1)"
  obtain hs n' w2 where c: "channelLoop cb ?fuel n w1 = ((hs, n'), w2)" by (metis surj_pair)
  have c2: "ew_hold w1 w2" "el_ok (ew_loop w1) \<Longrightarrow> subseq hs (pending_channels (ew_loop w1)) \<and> length hs + n' = n"
    using channelLoop_hold[OF pub, of w1 ?fuel n] c by simp_all
  define w3 where "w3 = ew_upd (\<lambda>l. l\<lparr> el_eventHandling := False \<rparr>) w2"
  have h3: "ew_hold w2 w3" by (rule state_hold) (simp add: w3_def ew_upd_def same_state_def)
  obtain now w4 where n4: "ew_now cb w3 = (now, w4)" by (metis surj_pair)
  have m: "ew_hold w3 (EventLoop_emitEventLoopMetric cb x w4)" for x
    using le_hold[OF ew_le_trans[OF ew_now_le(1)[OF n4] metric_le[OF pub]]] .
  have hs: "handled = hs" and h5: "ew_hold w3 w'"
    using e m ew_hold_trans[OF m clearBatch_hold]
    by (auto simp: dispatchBatch_def Let_def w0_def[symmetric] n c w3_def[symmetric] n4 split: if_splits)
  have h1: "ew_hold w w1" using ew_hold_trans[OF h0 le_hold[OF le1(1)]] .
  show "ew_hold w w'" using ew_hold_trans[OF h1 ew_hold_trans[OF c2(1) ew_hold_trans[OF h3 h5]]] .
  assume ok: "el_ok (ew_loop w)"
  have "batch_le (ew_loop w0) (ew_loop w1)" using ew_leD[OF le1(1) ew_holdD[OF h0 ok]] by (simp add: el_le_def)
  moreover have "pending_channels (ew_loop w0) = pending_channels (ew_loop w)" by (simp add: pending_channels_def w0_def ew_upd_def)
  ultimately have "subseq (pending_channels (ew_loop w1)) (pending_channels (ew_loop w))" using batch_le_pending by metis
  then show "subseq handled (pending_channels (ew_loop w))" using c2(2)[OF ew_holdD[OF h1 ok]] hs subseq_order.trans by blast
  show "length handled \<le> ?b" using c2(2)[OF ew_holdD[OF h1 ok]] hs le1(2) by simp
qed

lemma dispatch_hold:
  assumes pub: "event_public cb" and e: "EventLoop_dispatchActiveChannels cb w = (r, w')"
  shows "ew_hold w w'" "el_ok (ew_loop w) \<Longrightarrow> r = Inr handled \<Longrightarrow> subseq handled (pending_channels (ew_loop w)) \<and>
    length handled \<le> eo_maxActiveChannelsPerIteration (el_options (ew_loop w))"
proof -
  have "ew_hold w w' \<and> (el_ok (ew_loop w) \<longrightarrow> r = Inr handled \<longrightarrow> subseq handled (pending_channels (ew_loop w)) \<and>
    length handled \<le> eo_maxActiveChannelsPerIteration (el_options (ew_loop w)))"
  proof (cases "el_eventHandling (ew_loop w) \<or>
      \<not> EventLoop_hasPendingActiveChannels (ew_loop w) \<and> io_pendingCompletionNoticeCount (ec_io cb) (ew_env w) = 0")
    case True
    then show ?thesis using e clearBatch_hold[of w cb] by (auto simp: EventLoop_dispatchActiveChannels_def split: if_splits)
  next
    case False
    define w0 where "w0 = ew_upd (\<lambda>l. l\<lparr> el_activeBatchEpoch := gen_inc (el_activeBatchEpoch l) \<rparr>) w"
    have h0: "ew_hold w w0" by (rule state_hold) (simp add: w0_def ew_upd_def same_state_def)
    define p where "p = (if el_activeChannelCursor (ew_loop w) = 0 then stampBatch (enumerate 0 (el_activeChannels (ew_loop w0))) w0 else (Inr (), w))"
    obtain stamped w1 where p: "p = (stamped, w1)" by (metis surj_pair)
    have h1: "ew_hold w w1 \<and> (el_ok (ew_loop w) \<longrightarrow> pending_channels (ew_loop w1) = pending_channels (ew_loop w) \<and> el_options (ew_loop w1) = el_options (ew_loop w))"
    proof (cases "el_activeChannelCursor (ew_loop w) = 0")
      case True
      then have s: "stampBatch (enumerate 0 (el_activeChannels (ew_loop w0))) w0 = (stamped, w1)" using p by (simp add: p_def)
      note b = stampBatch_le[of w0 "enumerate 0 (el_activeChannels (ew_loop w0))", unfolded s snd_conv]
      have hold: "ew_hold w w1" using ew_hold_trans[OF h0 le_hold] b by blast
      have "pending_channels (ew_loop w1) = pending_channels (ew_loop w) \<and> el_options (ew_loop w1) = el_options (ew_loop w)" if ok: "el_ok (ew_loop w)"
      proof -
        have "el_activeChannelCursor (ew_loop w1) = el_activeChannelCursor (ew_loop w0)" "el_options (ew_loop w1) = el_options (ew_loop w0)"
          using ew_leD[of w0 w1] b ew_holdD[OF h0 ok] by (simp_all add: el_le_def batch_le_def)
        then show ?thesis using b by (simp add: pending_channels_def w0_def ew_upd_def)
      qed
      then show ?thesis using hold by blast
    qed (use p in \<open>simp add: p_def\<close>)
    obtain hs w2 where d: "dispatchBatch cb w1 = (hs, w2)" by (metis surj_pair)
    have e': "(case stamped of Inl x \<Rightarrow> (Inl x, w1) | Inr _ \<Rightarrow> (Inr hs, w2)) = (r, w')"
      using e False unfolding EventLoop_dispatchActiveChannels_def Let_def w0_def[symmetric] p_def[symmetric] p
      by (cases stamped) (auto simp: d split: if_splits)
    show ?thesis
    proof (cases stamped)
      case (Inl x)
      then show ?thesis using e' h1 by auto
    next
      case (Inr u)
      have h2: "ew_hold w w2" using ew_hold_trans[OF conjunct1[OF h1] dispatchBatch_hold(1)[OF pub d]] .
      then show ?thesis using dispatchBatch_hold(2,3)[OF pub d] ew_holdD[of w w1] h1 e' Inr by auto
    qed
  qed
  then show "ew_hold w w'" "el_ok (ew_loop w) \<Longrightarrow> r = Inr handled \<Longrightarrow> subseq handled (pending_channels (ew_loop w)) \<and>
    length handled \<le> eo_maxActiveChannelsPerIteration (el_options (ew_loop w))" by blast+
qed

lemma storeRevents_le: "ew_le w (storeRevents ready w)"
  by (induction ready w rule: storeRevents.induct) (auto intro: ew_le_trans[OF ew_setChannel_le])

lemma iocpMetric_le:
  assumes pub: "event_public cb"
  shows "ew_le w (EventLoop_emitIocpCompletionMetric cb w)"
  unfolding EventLoop_emitIocpCompletionMetric_def Let_def
  using ew_le_trans[OF metric_le[OF pub] metric_le[OF pub]] metric_le[OF pub] by (smt (verit) ew_le_refl)

lemma poll_hold:
  assumes pub: "event_public cb" and t: "\<And>v. ew_le v (snd (timeout v))"
  shows "ew_hold w (EventLoop_poll cb timeout w)"
proof -
  define w0 where "w0 = ew_upd (\<lambda>l. l\<lparr> el_activeChannels := [], el_activeChannelCursor := 0 \<rparr>) w"
  have h0: "ew_hold w w0" by (rule state_hold) (simp add: w0_def ew_upd_def same_state_def)
  obtain ms w1 where t1: "timeout w0 = (ms, w1)" by (metis surj_pair)
  have le1: "ew_le w0 w1" using t[of w0] t1 by simp
  obtain tm ready e where i: "io_wait (ec_io cb) ms (ew_env w1) = ((tm, ready), e)" by (metis surj_pair)
  define w2 where "w2 = storeRevents ready (w1\<lparr> ew_env := e \<rparr>)"
  have le2: "ew_le w1 w2" unfolding w2_def by (rule ew_le_trans[OF _ storeRevents_le]) simp
  define w3 where "w3 = ew_upd (\<lambda>l. l\<lparr> el_activeChannels := map (\<lambda>(a, _). Some a) ready, el_pollReturnTime := tm \<rparr>) w2"
  have h3: "ew_hold w2 w3" by (rule state_hold) (simp add: w3_def ew_upd_def same_state_def)
  have "ew_hold w (EventLoop_emitIocpCompletionMetric cb w3)"
    using ew_hold_trans[OF h0 ew_hold_trans[OF le_hold[OF ew_le_trans[OF le1 le2]] ew_hold_trans[OF h3 le_hold[OF iocpMetric_le[OF pub]]]]] .
  then show ?thesis
    unfolding EventLoop_poll_def w0_def[symmetric] t1 prod.case i w2_def[symmetric] w3_def[symmetric] by simp
qed

lemma runningTimeout_le:
  assumes pub: "event_public cb"
  shows "ew_le w (snd (runningTimeout cb w))"
proof -
  obtain now w1 where n: "ew_now cb (ec_others cb w) = (now, w1)" by (metis surj_pair)
  have "ew_le w w1" by (rule ew_le_trans[OF callback_le(6)[OF pub] ew_now_le(1)[OF n]])
  then show ?thesis using callback_le(6)[OF pub] by (simp add: runningTimeout_def Let_def n)
qed

section \<open>The loop\<close>

text \<open>The loop between two steps: no lifecycle node is running.\<close>

definition loop_ready :: "'e EventWorld \<Rightarrow> bool" where
  "loop_ready w \<longleftrightarrow> el_ok (ew_loop w) \<and> ls_activeNode (el_lifecycle (ew_loop w)) = None"

definition loop_to :: "'e EventWorld \<Rightarrow> 'e EventWorld \<Rightarrow> bool" where
  "loop_to w w' \<longleftrightarrow> (loop_ready w \<longrightarrow> loop_ready w' \<and> el_options (ew_loop w') = el_options (ew_loop w) \<and> phase_le (ew_loop w) (ew_loop w'))"

lemma loop_to_trans [trans]: "loop_to w v \<Longrightarrow> loop_to v u \<Longrightarrow> loop_to w u"
  by (auto simp: loop_to_def phase_le_def)

lemma loop_to_refl [simp]: "loop_to w w"
  by (simp add: loop_to_def phase_le_def)

lemma hold_to: "ew_hold w w' \<Longrightarrow> loop_to w w'"
  by (simp add: ew_hold_def ew_safe_def loop_to_def loop_ready_def ls_le_def)

lemma ready_queue: "loop_ready w \<longleftrightarrow> (\<exists>ds. dirty_queue w ds)"
  by (auto simp: loop_ready_def dirty_queue_def el_ok_def)

lemma to_hold: "(loop_ready w \<Longrightarrow> ew_hold w w') \<Longrightarrow> loop_to w w'"
  using hold_to[of w w'] by (auto simp: loop_to_def)

lemma timers_to: "event_public cb \<Longrightarrow> loop_to w (snd (EventLoop_doExpiredTimers cb w))"
  by (rule to_hold, rule keep_hold, rule doExpiredTimers_keep) (simp_all add: loop_ready_def)

lemma control_to:
  assumes pub: "event_public cb"
  shows "loop_to w (snd (EventLoop_doControlSources cb w))"
proof (rule to_hold)
  obtain es w' where e: "EventLoop_doControlSources cb w = (es, w')" by (metis surj_pair)
  assume "loop_ready w"
  then have "el_ok (ew_loop w)" by (simp add: loop_ready_def)
  then show "ew_hold w (snd (EventLoop_doControlSources cb w))" using le_hold[OF controlSources_drain(2)[OF pub _ e]] e by simp
qed

lemma functors_to:
  assumes pub: "event_public cb"
  shows "loop_to w (snd (EventLoop_doPendingFunctors cb n w))"
  unfolding loop_to_def
proof
  assume r: "loop_ready w"
  obtain fs w' where e: "EventLoop_doPendingFunctors cb n w = (fs, w')" by (metis surj_pair)
  have ok: "el_ok (ew_loop w)" using r by (simp add: loop_ready_def)
  show "loop_ready (snd (EventLoop_doPendingFunctors cb n w)) \<and>
      el_options (ew_loop (snd (EventLoop_doPendingFunctors cb n w))) = el_options (ew_loop w) \<and>
      phase_le (ew_loop w) (ew_loop (snd (EventLoop_doPendingFunctors cb n w)))"
    by (rule pendingFunctors_drain[OF pub ok e]) (use r e in \<open>simp add: loop_ready_def ls_le_def\<close>)
qed

text \<open>The lifecycle drain never ends the process.\<close>

lemma lifecycle_to:
  assumes pub: "event_public cb" and r: "loop_ready w"
  obtains nodes w' where "EventLoop_doLifecycleNodes cb w = (Inr nodes, w')" "loop_to w w'"
proof -
  obtain ds where d: "dirty_queue w ds" using r ready_queue by blast
  let ?m = "eo_maxLifecycleCallbacksPerIteration (el_options (ew_loop w))"
  obtain arrived later w' where "EventLoop_doLifecycleNodes cb w = (Inr (take ?m (ds @ arrived)), w')"
    "dirty_queue w' (drop ?m (ds @ arrived) @ later)" "ew_safe w w'" by (rule lifecycleNodes_drain[OF pub d])
  moreover from this have "loop_to w w'" using ready_queue[of w'] by (auto simp: loop_to_def loop_ready_def ew_safe_def)
  ultimately show thesis using that by blast
qed

lemma dispatch_to:
  assumes pub: "event_public cb" and t: "\<And>v. ew_le v (snd (timeout v))"
    and e: "EventLoop_dispatchActiveChannels cb (EventLoop_poll cb timeout w) = (r, w')"
  shows "loop_to w w'"
  by (rule hold_to) (rule ew_hold_trans[OF poll_hold[OF pub t] dispatch_hold(1)[OF pub e]])

lemma loop_toD: "loop_to w w' \<Longrightarrow> loop_ready w \<Longrightarrow> loop_ready w'"
  by (simp add: loop_to_def)

text \<open>The outcome of an iteration: only the dispatch of the channels can fail.\<close>

lemma iteration_to:
  assumes pub: "event_public cb" and r: "loop_ready w" and e: "EventLoop_iteration cb w = (r', w')"
  shows "loop_to w w'" "r' = Inl x \<Longrightarrow> fst (EventLoop_dispatchActiveChannels cb (EventLoop_poll cb (runningTimeout cb) w)) = Inl x"
proof -
  obtain d w1 where d: "EventLoop_dispatchActiveChannels cb (EventLoop_poll cb (runningTimeout cb) w) = (d, w1)" by (metis surj_pair)
  have w1: "loop_to w w1" by (rule dispatch_to[OF pub runningTimeout_le[OF pub] d])
  have "loop_to w w' \<and> (\<forall>x. r' = Inl x \<longrightarrow> d = Inl x)"
  proof (cases d)
    case (Inl y)
    then show ?thesis using e d w1 by (auto simp: EventLoop_iteration_def)
  next
    case (Inr y)
    define w3 where "w3 = snd (EventLoop_doControlSources cb (snd (EventLoop_doExpiredTimers cb w1)))"
    have w3: "loop_to w w3" unfolding w3_def
      using loop_to_trans[OF w1 loop_to_trans[OF timers_to[OF pub] control_to[OF pub]]] .
    obtain nodes w4 where l: "EventLoop_doLifecycleNodes cb w3 = (Inr nodes, w4)" "loop_to w3 w4"
      by (rule lifecycle_to[OF pub loop_toD[OF w3 r]])
    have "loop_to w (snd (EventLoop_doPendingFunctors cb n w4))" for n
      using loop_to_trans[OF w3 loop_to_trans[OF l(2) functors_to[OF pub]]] .
    then show ?thesis using e Inr by (auto simp: EventLoop_iteration_def Let_def d w3_def[symmetric] l(1))
  qed
  then show "loop_to w w'" "r' = Inl x \<Longrightarrow> fst (EventLoop_dispatchActiveChannels cb (EventLoop_poll cb (runningTimeout cb) w)) = Inl x"
    using d by simp_all
qed

lemma loopRunning_to:
  assumes pub: "event_public cb" and e: "EventLoop_loopRunning cb w = Some (r, w')" and r: "loop_ready w"
  shows "loop_to w w' \<and> (r = Inr () \<longrightarrow> el_quit (ew_loop w'))"
proof -
  let ?P = "\<lambda>cb w y. event_public cb \<longrightarrow> loop_ready w \<longrightarrow> loop_to w (snd y) \<and> (fst y = Inr () \<longrightarrow> el_quit (ew_loop (snd y)))"
  have "?P cb w (r, w')"
  proof (rule EventLoop_loopRunning.raw_induct[OF _ e, where P = ?P], intro impI)
    fix rec :: "'a EventCallbacks \<Rightarrow> 'a EventWorld \<Rightarrow> (unit outcome \<times> 'a EventWorld) option" and cb :: "'a EventCallbacks" and w y
    assume IH: "\<And>cb w y. rec cb w = Some y \<Longrightarrow> ?P cb w y" and pub: "event_public cb" and ready: "loop_ready w"
      and body: "(let w0 = ec_others cb w in if el_quit (ew_loop w0) then Some (Inr (), w0)
         else case EventLoop_iteration cb w0 of (r, w1) \<Rightarrow> if r = Inr () then rec cb w1 else Some (r, w1)) = Some y"
    define w0 where "w0 = ec_others cb w"
    have w0: "loop_to w w0" unfolding w0_def by (rule hold_to[OF le_hold[OF callback_le(6)[OF pub]]])
    obtain q w1 where i: "EventLoop_iteration cb w0 = (q, w1)" by (metis surj_pair)
    have w1: "loop_to w w1" using loop_to_trans[OF w0 iteration_to(1)[OF pub loop_toD[OF w0 ready] i]] .
    consider "el_quit (ew_loop w0)" "y = (Inr (), w0)" | "q = Inr ()" "rec cb w1 = Some y" | "q \<noteq> Inr ()" "y = (q, w1)"
      using body unfolding w0_def[symmetric] Let_def by (auto simp: i split: if_splits)
    then show "loop_to w (snd y) \<and> (fst y = Inr () \<longrightarrow> el_quit (ew_loop (snd y)))"
    proof cases
      case 2
      then show ?thesis using IH[OF 2(2)] pub loop_toD[OF w1 ready] loop_to_trans[OF w1] by blast
    qed (use w0 w1 in simp_all)
  qed
  then show ?thesis using pub r by simp
qed

lemma untilQuiet_to:
  fixes round :: "'e EventWorld \<Rightarrow> unit outcome \<times> 'e EventWorld"
  assumes pub: "event_public cb" and rd: "\<And>v. loop_ready v \<Longrightarrow> loop_to v (snd (round v))"
    and e: "untilQuiet cb round w = Some (r, w')" and r: "loop_ready w"
  shows "loop_to w w' \<and> (r = Inr () \<longrightarrow> EventLoop_quiet cb w')"
proof -
  let ?P = "\<lambda>cb (round :: 'e EventWorld \<Rightarrow> unit outcome \<times> 'e EventWorld) w y. event_public cb \<longrightarrow> (\<forall>v. loop_ready v \<longrightarrow> loop_to v (snd (round v))) \<longrightarrow>
     loop_ready w \<longrightarrow> loop_to w (snd y) \<and> (fst y = Inr () \<longrightarrow> EventLoop_quiet cb (snd y))"
  have "?P cb round w (r, w')"
  proof (rule untilQuiet.raw_induct[OF _ e, where P = ?P], intro impI)
    fix rec :: "'e EventCallbacks \<Rightarrow> ('e EventWorld \<Rightarrow> unit outcome \<times> 'e EventWorld) \<Rightarrow> 'e EventWorld \<Rightarrow> (unit outcome \<times> 'e EventWorld) option"
      and cb :: "'e EventCallbacks" and round w y
    assume IH: "\<And>cb round w y. rec cb round w = Some y \<Longrightarrow> ?P cb round w y" and pub: "event_public cb" and ready: "loop_ready w"
      and rd: "\<forall>v. loop_ready v \<longrightarrow> loop_to v (snd (round v))"
      and body: "(case round w of (r, w1) \<Rightarrow> let w2 = ec_others cb w1 in if r \<noteq> Inr () then Some (r, w2)
         else if EventLoop_quiet cb w2 then Some (Inr (), w2) else rec cb round w2) = Some y"
    obtain q w1 where i: "round w = (q, w1)" by (metis surj_pair)
    have w1: "loop_to w w1" using rd ready i by fastforce
    define w2 where "w2 = ec_others cb w1"
    have w2: "loop_to w w2" unfolding w2_def by (rule loop_to_trans[OF w1 hold_to[OF le_hold[OF callback_le(6)[OF pub]]]])
    consider "q \<noteq> Inr ()" "y = (q, w2)" | "EventLoop_quiet cb w2" "y = (Inr (), w2)" | "rec cb round w2 = Some y"
      using body by (auto simp: i Let_def w2_def[symmetric] split: if_splits)
    then show "loop_to w (snd y) \<and> (fst y = Inr () \<longrightarrow> EventLoop_quiet cb (snd y))"
    proof cases
      case 3
      then show ?thesis using IH[OF 3] pub rd loop_toD[OF w2 ready] loop_to_trans[OF w2] by blast
    qed (use w2 in simp_all)
  qed
  then show ?thesis using pub rd r by simp
qed

lemma quiesceDrains_to:
  assumes pub: "event_public cb" and r: "loop_ready w"
  shows "loop_to w (snd (quiesceDrains cb hasControl hasFunctors w))"
proof -
  define w1 where "w1 = (if hasControl then snd (EventLoop_doControlSources cb w) else w)"
  define w2 where "w2 = ec_others cb w1"
  have o: "loop_to v (ec_others cb v)" for v by (rule hold_to[OF le_hold[OF callback_le(6)[OF pub]]])
  have w2: "loop_to w w2" unfolding w2_def w1_def using loop_to_trans[OF control_to[OF pub] o] o by simp
  obtain nodes w3 where l: "(if EventLoop_hasPendingLifecycleNodes (ew_loop w2) then EventLoop_doLifecycleNodes cb w2 else (Inr [], w2)) = (Inr nodes, w3)"
    "loop_to w2 w3"
    by (cases "EventLoop_hasPendingLifecycleNodes (ew_loop w2)") (use lifecycle_to[OF pub loop_toD[OF w2 r]] in auto)
  have w4: "loop_to w (ec_others cb w3)" using loop_to_trans[OF w2 loop_to_trans[OF l(2) o]] .
  show ?thesis using w4 loop_to_trans[OF w4 functors_to[OF pub]]
    unfolding quiesceDrains_def Let_def w1_def[symmetric] w2_def[symmetric] l(1) by simp
qed

lemma rounds_to:
  assumes pub: "event_public cb" and r: "loop_ready w"
  shows "loop_to w (snd (EventLoop_quiesceRound cb w))" "loop_to w (snd (EventLoop_finalRound cb w))"
proof -
  have o: "loop_to v (ec_others cb v)" for v by (rule hold_to[OF le_hold[OF callback_le(6)[OF pub]]])
  obtain d w1 where d: "EventLoop_dispatchActiveChannels cb (EventLoop_poll cb (\<lambda>w. (0, w)) w) = (d, w1)" by (metis surj_pair)
  have w1: "loop_to w w1" by (rule dispatch_to[OF pub _ d]) simp
  have q: "loop_to w (snd (quiesceDrains cb c f (ec_others cb v)))" if "loop_to w v" for c f v
    using loop_to_trans[OF loop_to_trans[OF that o] quiesceDrains_to[OF pub]] loop_toD[OF loop_to_trans[OF that o] r] by blast
  show "loop_to w (snd (EventLoop_quiesceRound cb w))" using w1 q[OF w1] by (simp add: EventLoop_quiesceRound_def d Let_def split: sum.split)
  show "loop_to w (snd (EventLoop_finalRound cb w))"
    using w1 q[OF w1] q[OF loop_to_refl] unfolding EventLoop_finalRound_def Let_def d by (auto split: sum.split)
qed

end
