(* ===== verification/Event_Properties.thy ===== *)
theory Event_Properties
  imports Event_Safety
begin

text \<open>
  The properties of the event loop: what is left when it returns, the order in which its drains run functors,
  lifecycle nodes, control sources, timers and channels, what \<open>quit\<close> closes and commits, and that every
  reachable state is well formed. The small world at the front carries the concrete instances.
\<close>

section \<open>A small world\<close>

text \<open>Callbacks that do nothing, on an engine that has nothing to report, and a loop with small budgets.\<close>

definition demo_io :: "unit IoEngine" where
  "demo_io = \<lparr> io_wait = (\<lambda>_ e. ((0, []), e)), io_retireWaitBatch = (\<lambda>e. e), io_pendingCompletionNoticeCount = (\<lambda>_. 0),
     io_takeNextCompletionNotice = (\<lambda>e. (None, e)), io_completionObserverCurrent = (\<lambda>_ _. False),
     io_registerOrUpdateReadiness = (\<lambda>_ _ e. (True, e)), io_cancelReadiness = (\<lambda>_ e. (True, e)), io_hasReadiness = (\<lambda>_ _. True),
     io_wakeup = (\<lambda>e. e), io_beginQuiesce = (\<lambda>e. e), io_quiescent = (\<lambda>_. True),
     io_completionProgress = (\<lambda>_. \<lparr> icp_drained = 0, icp_deferred = 0, icp_budgetExhausted = False \<rparr>), io_wakeupNotices = (\<lambda>_. 0) \<rparr>"

definition demo_callbacks :: "unit EventCallbacks" where
  "demo_callbacks = \<lparr> ec_call = (\<lambda>_ w. (False, w)), ec_read = (\<lambda>_ _ w. (False, w)), ec_notice = (\<lambda>_ _ _ w. (False, w)),
     ec_metric = (\<lambda>_ _ w. (False, w)), ec_exception = (\<lambda>_ _ w. (None, w)), ec_now = (\<lambda>e. (1000, e)), ec_locked = (\<lambda>_ _. True),
     ec_others = (\<lambda>w. w), ec_io = demo_io \<rparr>"

definition demo_options :: EventLoopOptions where
  "demo_options = \<lparr> eo_maxPendingFunctors = 4, eo_reservedPendingFunctors = 1, eo_maxFunctorsPerIteration = 1, eo_maxControlSources = 3,
     eo_maxLifecycleNodes = 3, eo_maxLifecycleCallbacksPerIteration = 1, eo_maxActiveChannelsPerIteration = 2,
     eo_maxTimersPerIteration = 1, eo_maxControlCallbacksPerIteration = 1, eo_maxIocpCompletionsPerPoll = 1 \<rparr>"

definition demo_start :: "unit EventWorld" where
  "demo_start = (case EventLoop_new 5 False demo_options of Inr l \<Rightarrow> \<lparr> ew_loop = l, ew_nextGeneration = 1, ew_env = () \<rparr>)"

lemma demo_public: "event_public demo_callbacks"
  by (simp add: event_public_def demo_callbacks_def api_refl)

lemma EventLoop_new_ok:
  assumes e: "EventLoop_new i existing options = Inr l" and m: "eo_maxPendingFunctors options \<le> size_max"
  shows "el_ok l \<and> ls_activeNode (el_lifecycle l) = None"
proof -
  have v: "EventLoopOptions_validate options = Inr ()" using e by (auto simp: EventLoop_new_def split: sum.splits)
  then have "eo_maxControlSources options \<le> kMaxControlSources" by (auto simp: EventLoopOptions_validate_def split: if_splits)
  then have "ct_inv (ControlState_new (eo_maxControlSources options))" using ControlState_new_inv by blast
  moreover have "\<exists>ds qs. ls_inv (LifecycleState_new (eo_maxLifecycleNodes options)) ds qs" using ls_inv_new by blast
  moreover have "ct_phase (ControlState_new n) = CtlAccepting" "ls_phase (LifecycleState_new n) = PhaseRunning"
    "ls_activeNode (LifecycleState_new n) = None" for n by (simp_all add: ControlState_new_def LifecycleState_new_def)
  ultimately show ?thesis using e v m TimerQueue_new_inv
    by (auto simp: EventLoop_new_def el_ok_def phases_ok_def functors_ok_def options_ok_def ExecutorState_new_def split: if_splits) blast
qed

lemma demo_loop_new: "EventLoop_new 5 False demo_options = Inr (ew_loop demo_start)"
  by (simp add: demo_start_def EventLoop_new_def EventLoopOptions_validate_def demo_options_def kMaxControlSources_def
      kMaxIocpCompletionBatchSize_def sz_sub_def size_max_def)

lemma demo_ready: "loop_ready demo_start"
  using EventLoop_new_ok[OF demo_loop_new] by (simp add: loop_ready_def demo_options_def size_max_def)

lemma api_ready: "loop_ready w \<Longrightarrow> event_api cb w w' \<Longrightarrow> loop_ready w'"
  by (rule loop_toD[OF hold_to[OF le_hold[OF api_le]]])

section \<open>Reachable states\<close>


lemma ready_looping [simp]: "loop_ready (ew_upd (\<lambda>l. l\<lparr> el_looping := b \<rparr>) w) = loop_ready w"
  by (simp add: loop_ready_def el_ok_def phases_ok_def functors_ok_def ew_upd_def)





section \<open>Properties\<close>



definition demo_functors :: "unit EventWorld" where
  "demo_functors = snd (EventLoop_queueInLoop demo_callbacks True (Some (FnUser 8)) (snd (EventLoop_queueInLoop demo_callbacks True (Some (FnUser 7)) demo_start)))"

lemma demo_functors_ready: "loop_ready demo_functors"
proof -
  have "event_api demo_callbacks demo_start (snd (EventLoop_queueInLoop demo_callbacks True (map_option FnUser (Some 8))
      (snd (EventLoop_queueInLoop demo_callbacks True (map_option FnUser (Some 7)) demo_start))))"
    by (intro api_queue api_refl)
  then show ?thesis using api_ready[OF demo_ready] by (simp add: demo_functors_def)
qed



lemmas demo_simps = demo_callbacks_def demo_io_def demo_options_def ew_upd_def ew_io_def ew_now_def Let_def

lemmas demo_run = demo_simps EventLoop_quiesceRound_def EventLoop_finalRound_def EventLoop_poll_def EventLoop_hasPendingActiveChannels_def
  EventLoop_dispatchActiveChannels_def EventLoop_emitIocpCompletionMetric_def EventLoop_clearBatch_def EventLoop_hasPendingFunctors_def
  EventLoop_hasPendingControlSources_def EventLoop_hasPendingLifecycleNodes_def quiesceDrains_def ControlState_new_def
  LifecycleState_new_def loop_beginDrain_def loop_beginFinal_def loop_finish_def EventLoop_doPendingFunctors_def runFunctor_def
  EventLoop_emitEventLoopMetric_def EventLoop_wakeup_def EventLoop_quiet_def u64_inc_def

lemma demo_start_eq: "demo_start = \<lparr> ew_loop = \<lparr> el_id = 5, el_looping = False, el_quit = False, el_phase = PhaseRunning, el_eventHandling = False,
                     el_activeBatchEpoch = 0, el_callingPendingFunctors = False, el_options = demo_options,
                     el_executor = ExecutorState_new 5, el_control = ControlState_new 3,
                     el_lifecycle = LifecycleState_new 3, el_pollReturnTime = 0,
                     el_timers = TimerQueue_new, el_channels = (\<lambda>_. Channel_new 5), el_activeChannels = [],
                     el_activeChannelCursor = 0, el_currentActiveChannel = None, el_retiredCurrentChannel = None,
                     el_metricCallback = None, el_exceptionHandler = None, el_pendingFunctorPeak = 0, el_wakeupCount = 0,
                     el_rejectedFunctorCount = 0, el_callbackExceptionCount = 0, el_pendingFunctors = [] \<rparr>, ew_nextGeneration = 1, ew_env = () \<rparr>"
  by (simp add: demo_start_def EventLoop_new_def EventLoopOptions_validate_def demo_options_def kMaxControlSources_def
      kMaxIocpCompletionBatchSize_def sz_sub_def size_max_def)

lemma demo_functors_eq: "demo_functors = ew_upd (\<lambda>l. l\<lparr> el_pendingFunctors := [\<lparr> pf_functor = FnUser 7, pf_enqueuedAt = 1000 \<rparr>, \<lparr> pf_functor = FnUser 8, pf_enqueuedAt = 1000 \<rparr>],
   el_pendingFunctorPeak := 2 \<rparr>) demo_start"
  by (simp add: demo_functors_def demo_start_eq demo_simps EventLoop_queueInLoop_def EventLoop_tryQueueInLoopImpl_def ExecutorState_new_def
    sz_add_def size_max_def)






text \<open>C29. A drain of the lifecycle nodes never ends the process: it runs a prefix of the dirty queue, in the order in
  which the nodes became dirty and no longer than its budget, and leaves the rest in front of the nodes that become dirty
  meanwhile.\<close>

theorem lifecycle_nodes_run_in_order:
  assumes pub: "event_public cb" and d: "dirty_queue w ds"
  shows "\<exists>arrived later w'. EventLoop_doLifecycleNodes cb w =
      (Inr (take (eo_maxLifecycleCallbacksPerIteration (el_options (ew_loop w))) (ds @ arrived)), w') \<and>
    dirty_queue w' (drop (eo_maxLifecycleCallbacksPerIteration (el_options (ew_loop w))) (ds @ arrived) @ later)"
  by (rule lifecycleNodes_drain[OF pub d]) blast

definition demo_nodes :: "unit EventWorld" where
  "demo_nodes = (let w1 = snd (EventWorld_attachLifecycleNode True (Some 4) demo_start); w2 = snd (EventWorld_attachLifecycleNode True (Some 6) w1)
     in EventLoop_quit demo_callbacks True w2)"

lemma linked_unique: "linked nx p xs \<Longrightarrow> linked nx p ys \<Longrightarrow> xs = ys"
proof (induction xs arbitrary: p ys)
  case Nil
  then show ?case by (cases ys) auto
next
  case (Cons x xs)
  then show ?case by (cases ys) auto
qed

lemma demo_nodes_queue: "dirty_queue demo_nodes [0, 1]"
proof -
  have "event_api demo_callbacks demo_start demo_nodes"
    unfolding demo_nodes_def Let_def by (intro api_quit api_attach api_refl)
  then have r: "loop_ready demo_nodes" using api_ready[OF demo_ready] by blast
  then obtain ds qs where i: "ls_inv (el_lifecycle (ew_loop demo_nodes)) ds qs" by (auto simp: loop_ready_def el_ok_def)
  have "linked (fld ln_dirtyNext (el_lifecycle (ew_loop demo_nodes))) (ls_dirtyHead (el_lifecycle (ew_loop demo_nodes))) ds"
    using i by (simp add: ls_inv_def dirty_ok_def)
  moreover have "linked (fld ln_dirtyNext (el_lifecycle (ew_loop demo_nodes))) (ls_dirtyHead (el_lifecycle (ew_loop demo_nodes))) [0, 1]"
    by (simp add: demo_nodes_def demo_start_eq demo_run EventWorld_attachLifecycleNode_def EventLoop_attachLifecycleNode_def ls_write_def
        EventLoop_quit_def quit_seal_def LifecycleState_quiesce_def ls_commit_def fld_def)
  ultimately have "ds = [0, 1]" by (rule linked_unique)
  then show ?thesis using i r by (auto simp: dirty_queue_def loop_ready_def)
qed

theorem lifecycle_nodes_run_in_order_witness:
  "dirty_queue demo_nodes [0, 1] \<and> fst (EventLoop_doLifecycleNodes demo_callbacks demo_nodes) = Inr [0]"
proof -
  have "eo_maxLifecycleCallbacksPerIteration (el_options (ew_loop demo_nodes)) = 1"
    by (simp add: demo_nodes_def demo_start_eq demo_run EventWorld_attachLifecycleNode_def EventLoop_quit_def quit_seal_def split: prod.split)
  then show ?thesis using lifecycle_nodes_run_in_order[OF demo_public demo_nodes_queue] demo_nodes_queue by auto
qed

text \<open>C30. A drain of the control sources visits the lowest pending slots, in ascending order, each once and no more than
  its budget, and keeps the invariant of the loop: the bit scanning of the pending words selects exactly these slots.\<close>

theorem control_sources_run_in_order:
  assumes pub: "event_public cb" and ok: "el_ok (ew_loop w)" and e: "EventLoop_doControlSources cb w = (events, w')"
  shows "map fst events = take (eo_maxControlCallbacksPerIteration (el_options (ew_loop w)))
      (filter (ct_isPending (el_control (ew_loop (ec_others cb w)))) [0..<64 * length (ct_pendingWords (el_control (ew_loop (ec_others cb w))))]) \<and>
    el_ok (ew_loop w')"
proof -
  have "el_ok (ew_loop w')" using ew_leD[OF controlSources_drain(2)[OF pub ok e] ok] by blast
  then show ?thesis using controlSources_drain(1)[OF pub ok e] by (simp add: ct_pending_def)
qed

definition demo_sources :: "unit EventWorld" where
  "demo_sources = (let w1 = snd (EventWorld_registerControlSource (Some 4) demo_start); w2 = snd (EventWorld_registerControlSource (Some 6) w1);
     w3 = snd (EventWorld_notify demo_callbacks True True \<lparr> src_slot = 1, src_generation = 1 \<rparr> w2)
     in snd (EventWorld_notify demo_callbacks True True \<lparr> src_slot = 0, src_generation = 1 \<rparr> w3))"

lemma demo_sources_ready: "loop_ready demo_sources"
proof -
  have "event_api demo_callbacks demo_start demo_sources"
    unfolding demo_sources_def Let_def by (intro api_notify api_register api_refl)
  then show ?thesis using api_ready[OF demo_ready] by blast
qed

lemma demo_sources_words: "ct_pendingWords (el_control (ew_loop demo_sources)) = [3] \<and>
    el_options (ew_loop demo_sources) = demo_options"
proof -
  let ?z = "\<lparr> sl_callback = None, sl_pendingSince = 0, sl_generation = 0, sl_active = False \<rparr>"
  let ?s = "\<lambda>n. \<lparr> sl_callback = Some n, sl_pendingSince = 0, sl_generation = 1, sl_active = True \<rparr>"
  have rep: "replicate 3 x = [x, x, x]" for x :: ControlSlot by (simp add: numeral_eq_Suc)
  have n: "ct_slots (ControlState_new 3) = [?z, ?z, ?z]" "ct_pendingWords (ControlState_new 3) = [0]" "ct_phase (ControlState_new 3) = CtlAccepting"
     "ct_loop (ControlState_new 3)"
    by (simp_all add: ControlState_new_def rep)
  define c1 where "c1 = (ControlState_new 3)\<lparr> ct_slots := [?s 4, ?z, ?z] \<rparr>"
  define c2 where "c2 = c1\<lparr> ct_slots := [?s 4, ?s 6, ?z] \<rparr>"
  have r1: "EventLoop_registerControlSource False (Some 4) (ControlState_new 3) = (Inr \<lparr> src_slot = 0, src_generation = 1 \<rparr>, c1)"
    by (simp add: EventLoop_registerControlSource_def n c1_def gen_inc_def u64_inc_def Let_def)
  have r2: "EventLoop_registerControlSource False (Some 6) c1 = (Inr \<lparr> src_slot = 1, src_generation = 1 \<rparr>, c2)"
    by (simp add: EventLoop_registerControlSource_def n c1_def c2_def gen_inc_def u64_inc_def Let_def)
  define c3 where "c3 = snd (EventLoopControlSource_notify True True 1000 \<lparr> src_slot = 1, src_generation = 1 \<rparr> c2)"
  have n3: "EventLoopControlSource_notify True True 1000 \<lparr> src_slot = 1, src_generation = 1 \<rparr> c2 = ((PostAccepted, True), c3)"
    "ct_pendingWords c3 = [2]" "ct_slots c3 = [?s 4, (?s 6)\<lparr> sl_pendingSince := 1000 \<rparr>, ?z]" "ct_phase c3 = CtlAccepting" "ct_loop c3"
    by (simp_all add: c3_def EventLoopControlSource_notify_def Let_def c2_def c1_def n slot_mask_def)
  have n4: "ct_pendingWords (snd (EventLoopControlSource_notify True True 1000 \<lparr> src_slot = 0, src_generation = 1 \<rparr> c3)) = [3]"
    "fst (EventLoopControlSource_notify True True 1000 \<lparr> src_slot = 0, src_generation = 1 \<rparr> c3) = (PostAccepted, True)"
    by (simp_all add: EventLoopControlSource_notify_def Let_def n3 slot_mask_def)
  show ?thesis
    using n4 by (simp add: demo_sources_def Let_def EventWorld_registerControlSource_def EventWorld_notify_def demo_start_eq r1 r2 n3(1)
        demo_simps EventLoop_wakeup_def case_prod_beta del: One_nat_def)
qed

theorem control_sources_run_in_order_witness:
  "map fst (fst (EventLoop_doControlSources demo_callbacks demo_sources)) = [0]"
proof -
  have ok: "el_ok (ew_loop demo_sources)" using demo_sources_ready by (simp add: loop_ready_def)
  have o: "ec_others demo_callbacks demo_sources = demo_sources" by (simp add: demo_callbacks_def)
  have "[0..<64] = (0 :: nat) # [1..<64]" by (simp add: upt_conv_Cons)
  then have f: "take 1 (filter (ct_isPending (el_control (ew_loop demo_sources))) [0..<64 * length (ct_pendingWords (el_control (ew_loop demo_sources)))]) = [0]"
    using demo_sources_words by (simp add: ct_isPending_def del: upt_rec_numeral)
  from control_sources_run_in_order[OF demo_public ok, of "fst (EventLoop_doControlSources demo_callbacks demo_sources)"
      "snd (EventLoop_doControlSources demo_callbacks demo_sources)"]
  show ?thesis using demo_sources_words f unfolding o by (simp add: demo_options_def)
qed



text \<open>C31. \<open>TimerQueue::handleExpired\<close> takes the due timers in the order of their expirations, ties in the order of
  creation, up to its budget; the callbacks that run are a subsequence of these, none of them early. A one-shot timer is
  not in the queue afterwards, and the invariant of the loop holds.\<close>

theorem timers_fire_in_order:
  assumes pub: "event_public cb" and ok: "el_ok (ew_loop w)" and e: "TimerQueue_handleExpired cb now n w = (r, w')"
  shows "er_drained r = length (due_timers now n (el_timers (ew_loop w))) \<and> subseq (er_ran r) (due_timers now n (el_timers (ew_loop w))) \<and>
    sorted_wrt (\<lambda>a b. tq_key (el_timers (ew_loop w)) a < tq_key (el_timers (ew_loop w)) b) (due_timers now n (el_timers (ew_loop w))) \<and>
    (\<forall>a \<in> set (due_timers now n (el_timers (ew_loop w))). tm_expiration (tq_timer (el_timers (ew_loop w)) a) \<le> now \<and>
       (tm_interval (tq_timer (el_timers (ew_loop w)) a) = 0 \<longrightarrow> \<not> tq_queued (el_timers (ew_loop w')) a)) \<and> el_ok (ew_loop w')"
proof -
  let ?q = "el_timers (ew_loop w)"
  note h = handleExpired_drain[OF pub ok e]
  have inv: "tq_inv ?q" using ok by (simp add: el_ok_def)
  let ?due = "take n (filter (\<lambda>p. fst (fst p) \<le> now) (tq_timers ?q))"
  have k: "fst p = tq_key ?q (snd p)" if "p \<in> set ?due" for p
    using that tq_entry(2)[OF inv, of "fst p" "snd p"] by (auto dest!: in_set_takeD)
  have "sorted_wrt (\<lambda>x y. fst x < fst y) ?due"
    using tq_sizes(1)[OF inv] by (intro sorted_wrt_take sorted_wrt_filter) (simp add: om_sorted_def sorted_wrt_map)
  then have "sorted_wrt (\<lambda>x y. tq_key ?q (snd x) < tq_key ?q (snd y)) ?due"
    by (rule sorted_wrt_mono_rel[rotated]) (simp add: k[symmetric])
  moreover have "tm_expiration (tq_timer ?q a) \<le> now" if a: "a \<in> set (due_timers now n ?q)" for a
  proof -
    obtain p where p: "p \<in> set ?due" "a = snd p" using a by (auto simp: due_timers_def)
    then have "fst (fst p) \<le> now" by (auto dest: in_set_takeD)
    then show ?thesis using k[OF p(1)] p(2) by (simp add: tq_key_def)
  qed
  ultimately show ?thesis using h(1,2,4) ew_keepD[OF h(3) ok] by (simp add: due_timers_def sorted_wrt_map)
qed

definition demo_armed :: "unit EventWorld" where
  "demo_armed = (let w1 = snd (TimerQueue_tryAddTimer demo_callbacks True (Some 3) 900 0 RepeatingTimerOptions_default demo_start)
     in snd (TimerQueue_tryAddTimer demo_callbacks True (Some 4) 500 0 RepeatingTimerOptions_default w1))"

lemmas demo_timer_simps = demo_start_eq demo_simps TimerQueue_tryAddTimer_def TimerQueue_makeTimer_def RepeatingTimerOptions_default_def
  RepeatingTimerOptions_validate_def TimerQueue_new_def TimerQueue_insert_def tq_write_def s64_inc_def

lemma demo_armed_ready: "loop_ready demo_armed"
proof -
  have "event_api demo_callbacks demo_start demo_armed"
    unfolding demo_armed_def Let_def by (intro api_addTimer api_refl) (simp_all add: demo_timer_simps)
  then show ?thesis using api_ready[OF demo_ready] by blast
qed

theorem timers_fire_in_order_witness:
  "due_timers 1000 2 (el_timers (ew_loop demo_armed)) = [1, 0] \<and> er_drained (fst (TimerQueue_handleExpired demo_callbacks 1000 2 demo_armed)) = 2"
proof -
  have ok: "el_ok (ew_loop demo_armed)" using demo_armed_ready by (simp add: loop_ready_def)
  have d: "due_timers 1000 2 (el_timers (ew_loop demo_armed)) = [1, 0]"
    by (simp add: demo_armed_def demo_timer_simps due_timers_def)
  from timers_fire_in_order[OF demo_public ok, of 1000 2 "fst (TimerQueue_handleExpired demo_callbacks 1000 2 demo_armed)"
      "snd (TimerQueue_handleExpired demo_callbacks 1000 2 demo_armed)"]
  show ?thesis using d by simp
qed







text \<open>C34. After \<open>EventLoop::quit\<close> the loop admits nothing new, whatever callbacks and other threads do: the queue of
  functors stays exactly as it was, posting and queueing fail, no timer can be added and no lifecycle node attached.\<close>

theorem quit_closes_admission:
  assumes ok: "el_ok (ew_loop w)" and api: "event_api cb (EventLoop_quit cb thread w) w'"
  shows "el_phase (ew_loop w') \<noteq> PhaseRunning \<and> el_pendingFunctors (ew_loop w') = el_pendingFunctors (ew_loop w) \<and>
    fst (EventLoopExecutor_postFunctor cb alive inLoop (Some f) w') \<in> {PostShutdown, PostOwnerUnavailable} \<and>
    fst (EventLoop_queueInLoop cb inLoop fn w') = Inl LogicError \<and> \<not> fst (EventLoop_tryQueueInLoop cb inLoop fn w') \<and>
    (\<forall>r i. fst (TimerQueue_tryAddTimer cb inLoop callback when interval options w') = Inr (r, i) \<longrightarrow> r \<noteq> PostAccepted) \<and>
    (\<exists>x. fst (EventWorld_attachLifecycleNode part callback w') = Inl x)"
proof -
  let ?v = "EventLoop_quit cb thread w"
  have okv: "el_ok (ew_loop ?v)" and v: "functors_le (ew_loop w) (ew_loop ?v)" using ew_leD[OF quit_le ok] by (auto simp: el_le_def)
  obtain now w1 where n: "ew_now cb w = (now, w1)" by (metis surj_pair)
  have w1: "ew_loop w1 = ew_loop w" using ew_now_le(2)[OF n] .
  have q: "el_quit (ew_loop ?v)" and pv: "el_pendingFunctors (ew_loop ?v) = el_pendingFunctors (ew_loop w)"
    by (simp_all add: EventLoop_quit_def Let_def n ew_upd_def quit_seal_def EventLoop_wakeup_def ew_io_def w1)
  have le: "el_ok (ew_loop w')" "el_le (ew_loop ?v) (ew_loop w')" using ew_leD[OF api_le[OF api] okv] by simp_all
  have nv: "\<not> ex_accepting (el_executor (ew_loop ?v))" using okv q by (auto simp: el_ok_def phases_ok_def)
  have "el_quit (ew_loop w')" using le(2) q by (simp add: el_le_def phase_le_def)
  then have ph: "el_phase (ew_loop w') \<noteq> PhaseRunning" "\<not> ex_accepting (el_executor (ew_loop w'))" "ls_phase (el_lifecycle (ew_loop w')) \<noteq> PhaseRunning"
    using le(1) by (auto simp: el_ok_def phases_ok_def)
  have pen: "el_pendingFunctors (ew_loop w') = el_pendingFunctors (ew_loop w)" using le(2) nv pv by (auto simp: el_le_def functors_le_def)
  have t: "r \<noteq> PostAccepted" if t: "fst (TimerQueue_tryAddTimer cb inLoop callback when interval options w') = Inr (r, i)" for r i
  proof -
    obtain o' q where m: "TimerQueue_makeTimer callback when interval options (el_timers (ew_loop w')) = (o', q)" by (metis surj_pair)
    let ?u = "ew_upd (\<lambda>l. l\<lparr> el_timers := q \<rparr>) w'"
    have u: "el_phase (ew_loop ?u) \<noteq> PhaseRunning" "\<not> ex_accepting (el_executor (ew_loop ?u))" using ph by (simp_all add: ew_upd_def)
    then have "EventLoopExecutor_postFunctor cb True False (Some x) ?u \<noteq> (PostAccepted, y)" for x y
      by (simp add: EventLoopExecutor_postFunctor_def)
    then show ?thesis using t u(1) by (cases o'; cases inLoop) (auto simp: TimerQueue_tryAddTimer_def m Let_def split: prod.splits)
  qed
  have a: "\<exists>x. fst (EventWorld_attachLifecycleNode part callback w') = Inl x"
    using ph(3) by (cases callback) (simp_all add: EventWorld_attachLifecycleNode_def EventLoop_attachLifecycleNode_def)
  show ?thesis using ph pen t a
    by (simp add: EventLoopExecutor_postFunctor_def EventLoop_queueInLoop_def EventLoop_tryQueueInLoop_def)
qed

theorem quit_closes_admission_witness:
  "length (el_pendingFunctors (ew_loop demo_functors)) = 2 \<and>
   fst (EventLoop_queueInLoop demo_callbacks True (Some (FnUser 9)) (EventLoop_quit demo_callbacks False demo_functors)) = Inl LogicError"
proof -
  have ok: "el_ok (ew_loop demo_functors)" using demo_functors_ready by (simp add: loop_ready_def)
  show ?thesis using quit_closes_admission[OF ok api_refl] by (simp add: demo_functors_eq ew_upd_def)
qed

text \<open>C35. The walk of \<open>quit\<close> over the intrusive list of quiesce participants ends, within as many steps as there are nodes:
  it leaves every participant on the dirty queue, those that were not dirty yet behind the others in the order of their
  list, and the lists well formed.\<close>

theorem quit_commits_participants:
  assumes inv: "ls_inv s ds qs"
  shows "\<exists>s'. LifecycleState_quiesce now s = Some s' \<and> ls_phase s' = PhaseQuiescing \<and>
    ls_inv s' (ds @ filter (\<lambda>a. a \<notin> set ds) qs) qs \<and>
    (\<forall>a < ls_size s. fld ln_attached s a \<and> fld ln_notifyOnQuiesce s a \<longrightarrow> fld ln_dirty s' a)"
proof -
  obtain s' where s': "LifecycleState_quiesce now s = Some s'" "ls_inv s' (ds @ filter (\<lambda>a. a \<notin> set ds) qs) qs"
    "ls_phase s' = PhaseQuiescing" "ls_size s' = ls_size s" by (rule ls_quiesce[OF inv]) blast
  have "fld ln_dirty s' a" if "a < ls_size s" "fld ln_attached s a" "fld ln_notifyOnQuiesce s a" for a
  proof -
    have "a \<in> set qs" using inv that by (simp add: ls_inv_def quiesce_ok_def)
    then show ?thesis using s'(2,4) that(1) by (auto simp: ls_inv_def dirty_ok_def)
  qed
  then show ?thesis using s' by blast
qed

definition demo_attached :: "unit EventWorld" where
  "demo_attached = snd (EventWorld_attachLifecycleNode True (Some 6) (snd (EventWorld_attachLifecycleNode True (Some 4) demo_start)))"

theorem quit_commits_participants_witness:
  "\<exists>s'. LifecycleState_quiesce 7 (el_lifecycle (ew_loop demo_attached)) = Some s' \<and> fld ln_dirty s' 0 \<and> fld ln_dirty s' 1"
proof -
  let ?s = "el_lifecycle (ew_loop demo_attached)"
  have "event_api demo_callbacks demo_start demo_attached" unfolding demo_attached_def by (intro api_attach api_refl)
  then have "loop_ready demo_attached" using api_ready[OF demo_ready] by blast
  then obtain ds qs where i: "ls_inv ?s ds qs" by (auto simp: loop_ready_def el_ok_def)
  have "ls_size ?s = 2" "fld ln_attached ?s 0" "fld ln_notifyOnQuiesce ?s 0" "fld ln_attached ?s 1" "fld ln_notifyOnQuiesce ?s 1"
    by (simp_all add: demo_attached_def demo_start_eq demo_run EventWorld_attachLifecycleNode_def EventLoop_attachLifecycleNode_def
        ls_write_def fld_def)
  then show ?thesis using quit_commits_participants[OF i, of 7] by auto
qed



end
