(* ===== verification/Fifo_Drain.thy ===== *)
theory Fifo_Drain
  imports Gamenet_Prelude "HOL-Library.Sublist"
begin

text \<open>
  The contract of a bounded drain of a first-in first-out queue, and what its clients may rely on: whatever
  is appended to the queue before, between and during the drains, the items that were queued first run first,
  and an item waits for no more drains than its position asks for.
\<close>

text \<open>Drains with something else happening before each of them; the items that ran, in order.\<close>

fun drain_rounds :: "('w \<Rightarrow> 'a list \<times> 'w) \<Rightarrow> ('w \<Rightarrow> 'w) list \<Rightarrow> 'w \<Rightarrow> 'a list \<times> 'w" where
  "drain_rounds run [] w = ([], w)"
| "drain_rounds run (f # fs) w =
     (case run (f w) of (ys, w1) \<Rightarrow> (case drain_rounds run fs w1 of (zs, w2) \<Rightarrow> (ys @ zs, w2)))"

text \<open>\<open>holds w xs\<close>: the state is well formed and its queue is \<open>xs\<close>; \<open>other\<close>: a step that takes nothing off the queue;
  \<open>run\<close>: the drain, with budget \<open>n\<close>.\<close>

locale fifo_drain =
  fixes holds :: "'w \<Rightarrow> 'a list \<Rightarrow> bool" and run :: "'w \<Rightarrow> 'a list \<times> 'w" and n :: nat and other :: "'w \<Rightarrow> 'w \<Rightarrow> bool"
  assumes run_take: "holds w xs \<Longrightarrow> run w = (ys, w') \<Longrightarrow>
      \<exists>arrived later. ys = take n (xs @ arrived) \<and> holds w' (drop n (xs @ arrived) @ later)"
    and other_keeps: "holds w xs \<Longrightarrow> other w w' \<Longrightarrow> \<exists>arrived. holds w' (xs @ arrived)"
begin

text \<open>The first \<open>k * n\<close> items of the queue are the first to run in \<open>k\<close> drains.\<close>

lemma rounds_prefix:
  "holds w xs \<Longrightarrow> \<forall>f \<in> set fs. \<forall>v. other v (f v) \<Longrightarrow> prefix (take (n * length fs) xs) (fst (drain_rounds run fs w))"
proof (induction fs arbitrary: w xs)
  case (Cons f fs)
  obtain ys w1 where r: "run (f w) = (ys, w1)" by (metis surj_pair)
  obtain a where a: "holds (f w) (xs @ a)" using other_keeps[OF Cons.prems(1)] Cons.prems(2) by (meson list.set_intros(1))
  obtain b c where b: "ys = take n ((xs @ a) @ b)" "holds w1 (drop n ((xs @ a) @ b) @ c)" using run_take[OF a r] by blast
  obtain zs w2 where z: "drain_rounds run fs w1 = (zs, w2)" by (metis surj_pair)
  have "prefix (take (n * length fs) (drop n ((xs @ a) @ b) @ c)) zs" using Cons.IH[OF b(2)] Cons.prems(2) z by simp
  moreover have "prefix (take (n * length fs) (drop n xs)) (take (n * length fs) (drop n ((xs @ a) @ b) @ c))"
    by (simp add: take_is_prefix)
  ultimately have p: "prefix (take (n * length fs) (drop n xs)) zs" using prefix_order.trans by blast
  show ?case
  proof (cases "n \<le> length xs")
    case True
    then have "ys = take n xs" using b(1) by simp
    then show ?thesis using p by (simp add: r z take_add)
  next
    case False
    then have "take (n * length (f # fs)) xs = xs" "prefix xs ys" using b(1) by (simp_all add: take_is_prefix)
    then show ?thesis by (simp add: r z)
  qed
qed simp

lemma bounded_wait:
  assumes "holds w xs" "\<forall>f \<in> set fs. \<forall>v. other v (f v)" "length xs \<le> n * length fs"
  shows "prefix xs (fst (drain_rounds run fs w))"
  using rounds_prefix[OF assms(1,2)] assms(3) by simp

end

end
