(* ===== verification/Event_Fairness.thy ===== *)
theory Event_Fairness
  imports Event_Properties Fifo_Drain
begin









end
