(* ===== verification/Spec2Isabelle.thy ===== *)
theory Spec2Isabelle
  imports Framer_Streams Buffer Logic_Batches OutputBudget Event_Fairness
begin

text \<open>
  Skeleton.
\<close>

end
